(* ===== verification/Broker_Prelude.thy ===== *)
theory Broker_Prelude
  imports Main "HOL-Library.Word" "HOL-Library.Monad_Syntax"
begin

unbundle bit_operations_syntax

text \<open>
  Shared ground of the development.

  \<^item> Pointers are natural numbers and \<open>0\<close> is \<open>NULL\<close>. A heap of one C type is a map from
    addresses to records; \<open>free\<close> removes the address from the map.
  \<^item> A C function that can go wrong returns an \<open>option\<close>: \<open>None\<close> is a fault (a dereference of
    \<open>NULL\<close> or of freed memory, a call through a \<open>NULL\<close> function pointer, an array index out of
    range, a failed \<open>assert\<close>). Error codes the C code returns are ordinary values.
  \<^item> \<open>calloc\<close>, \<open>malloc\<close> and \<open>strdup\<close> are chosen by the environment: the address they return
    is an argument of the operation that calls them, \<open>0\<close> when they fail.
  \<^item> The \<open>CIRCLEQ\<close> macros of \<open>sys/queue.h\<close> are operations on the list of linked nodes. They
    write the link fields of the neighbours of the node they insert or remove, so each takes
    the predicate \<open>ok\<close> (this node is allocated) and faults on a dead neighbour.
\<close>

section \<open>Collections\<close>

named_theorems circleq_simps \<open>the queue macros on a queue of allocated, distinct nodes\<close>
named_theorems frame_simps \<open>what an operation leaves alone\<close>

type_synonym u8 = "8 word"
type_synonym u16 = "16 word"
type_synonym u32 = "32 word"
type_synonym u64 = "64 word"
type_synonym ptr = nat

abbreviation NULL :: ptr where "NULL \<equiv> 0"

section \<open>CIRCLEQ\<close>

definition circleq_insert_head :: "('n \<Rightarrow> bool) \<Rightarrow> 'n \<Rightarrow> 'n list \<Rightarrow> 'n list option" where
  "circleq_insert_head ok n xs =
     (if xs = [] \<or> ok (hd xs) then Some (n # xs) else None)"

definition circleq_insert_tail :: "('n \<Rightarrow> bool) \<Rightarrow> 'n \<Rightarrow> 'n list \<Rightarrow> 'n list option" where
  "circleq_insert_tail ok n xs =
     (if xs = [] \<or> ok (last xs) then Some (xs @ [n]) else None)"

text \<open>The nodes after and before \<open>n\<close>.\<close>

definition after :: "'n \<Rightarrow> 'n list \<Rightarrow> 'n list" where
  "after n xs = tl (dropWhile (\<lambda>x. x \<noteq> n) xs)"

definition before :: "'n \<Rightarrow> 'n list \<Rightarrow> 'n list" where
  "before n xs = takeWhile (\<lambda>x. x \<noteq> n) xs"

definition circleq_insert_after :: "('n \<Rightarrow> bool) \<Rightarrow> 'n \<Rightarrow> 'n \<Rightarrow> 'n list \<Rightarrow> 'n list option" where
  "circleq_insert_after ok a n xs =
     (if a \<in> set xs \<and> ok a \<and> (after a xs = [] \<or> ok (hd (after a xs)))
      then Some (before a xs @ a # n # after a xs) else None)"

definition circleq_remove :: "('n \<Rightarrow> bool) \<Rightarrow> 'n \<Rightarrow> 'n list \<Rightarrow> 'n list option" where
  "circleq_remove ok n xs =
     (if n \<in> set xs \<and> ok n \<and> (before n xs = [] \<or> ok (last (before n xs)))
        \<and> (after n xs = [] \<or> ok (hd (after n xs)))
      then Some (before n xs @ after n xs) else None)"

text \<open>
  A cursor is \<open>Some n\<close> on a node and \<open>None\<close> on the queue head: \<open>CIRCLEQ_NEXT\<close> of the last node
  and \<open>CIRCLEQ_PREV\<close> of the first one are the head, and \<open>CIRCLEQ_NEXT\<close> of the head is the first
  node. The outer \<open>option\<close> is the fault of following the link of a node that is not queued.
\<close>

definition circleq_first :: "'n list \<Rightarrow> 'n option" where
  "circleq_first xs = (case xs of [] \<Rightarrow> None | x # _ \<Rightarrow> Some x)"

definition circleq_last :: "'n list \<Rightarrow> 'n option" where
  "circleq_last xs = (if xs = [] then None else Some (last xs))"

definition circleq_next :: "'n option \<Rightarrow> 'n list \<Rightarrow> 'n option option" where
  "circleq_next cur xs =
     (case cur of None \<Rightarrow> Some (circleq_first xs)
      | Some n \<Rightarrow> if n \<in> set xs then Some (circleq_first (after n xs)) else None)"

definition circleq_prev :: "'n option \<Rightarrow> 'n list \<Rightarrow> 'n option option" where
  "circleq_prev cur xs =
     (case cur of None \<Rightarrow> Some (circleq_last xs)
      | Some n \<Rightarrow> if n \<in> set xs then Some (circleq_last (before n xs)) else None)"

section \<open>Lists\<close>

lemma after_split [simp]: "n \<notin> set ys \<Longrightarrow> after n (ys @ n # zs) = zs"
  by (induction ys) (auto simp: after_def)

lemma before_split [simp]: "n \<notin> set ys \<Longrightarrow> before n (ys @ n # zs) = ys"
  by (induction ys) (auto simp: before_def)

lemma after_Cons [simp]: "after n (n # xs) = xs" "n \<noteq> m \<Longrightarrow> after n (m # xs) = after n xs"
  by (simp_all add: after_def)

lemma before_Cons [simp]: "before n (n # xs) = []" "n \<noteq> m \<Longrightarrow> before n (m # xs) = m # before n xs"
  by (auto simp: before_def)

lemma before_after: "n \<in> set xs \<Longrightarrow> xs = before n xs @ n # after n xs"
  by (induction xs) (auto simp: before_def after_def)

lemma not_in_before [simp]: "n \<notin> set (before n xs)"
  by (auto simp: before_def dest: set_takeWhileD)

lemma set_before: "set (before n xs) \<subseteq> set xs"
  by (auto simp: before_def dest: set_takeWhileD)

lemma set_after: "set (after n xs) \<subseteq> set xs"
  by (induction xs) (auto simp: after_def split: if_splits)

lemma in_set_afterD: "m \<in> set (after n xs) \<Longrightarrow> m \<in> set xs"
  using set_after by force

lemma not_in_after: "distinct xs \<Longrightarrow> n \<notin> set (after n xs)"
  by (induction xs) (auto simp: after_def split: if_splits)

lemma before_after_remove1: "n \<in> set xs \<Longrightarrow> before n xs @ after n xs = remove1 n xs"
  by (induction xs) (auto simp: before_def after_def)

lemma after_append_left: "n \<in> set xs \<Longrightarrow> after n (xs @ ys) = after n xs @ ys"
  by (induction xs) (auto simp: after_def)

lemma circleq_insert_head_ok [circleq_simps]:
  "\<forall>x \<in> set xs. ok x \<Longrightarrow> circleq_insert_head ok n xs = Some (n # xs)"
  by (cases xs) (auto simp: circleq_insert_head_def)

lemma circleq_insert_tail_ok [circleq_simps]:
  "\<forall>x \<in> set xs. ok x \<Longrightarrow> circleq_insert_tail ok n xs = Some (xs @ [n])"
  by (cases xs rule: rev_cases) (auto simp: circleq_insert_tail_def)

lemma circleq_remove_ok [circleq_simps]:
  assumes "\<forall>x \<in> set xs. ok x" and "n \<in> set xs"
  shows "circleq_remove ok n xs = Some (remove1 n xs)"
proof -
  have "before n xs = [] \<or> ok (last (before n xs))"
    using assms(1) set_before [of n xs] by (metis last_in_set subsetD)
  moreover have "after n xs = [] \<or> ok (hd (after n xs))"
    using assms(1) set_after [of n xs] by (metis hd_in_set subsetD)
  ultimately show ?thesis
    using assms by (simp add: circleq_remove_def before_after_remove1)
qed

lemma circleq_insert_after_ok [circleq_simps]:
  assumes "\<forall>x \<in> set xs. ok x" and "a \<in> set xs"
  shows "circleq_insert_after ok a n xs = Some (before a xs @ a # n # after a xs)"
proof -
  have "after a xs = [] \<or> ok (hd (after a xs))"
    using assms(1) set_after [of a xs] by (metis hd_in_set subsetD)
  then show ?thesis using assms by (simp add: circleq_insert_after_def)
qed

lemma sorted_wrt_remove1: "sorted_wrt R xs \<Longrightarrow> sorted_wrt R (remove1 x xs)"
  by (induction xs) (auto dest: notin_set_remove1)

lemma sorted_wrt_before_after:
  assumes "sorted_wrt R xs" and "a \<in> set xs"
  shows "x \<in> set (before a xs) \<Longrightarrow> R x a" and "y \<in> set (after a xs) \<Longrightarrow> R a y"
proof -
  have "sorted_wrt R (before a xs @ a # after a xs)"
    using assms before_after [of a xs] by simp
  then show "x \<in> set (before a xs) \<Longrightarrow> R x a" and "y \<in> set (after a xs) \<Longrightarrow> R a y"
    by (auto simp: sorted_wrt_append)
qed

lemma find_SomeD: "find P xs = Some x \<Longrightarrow> \<exists>ys zs. xs = ys @ x # zs \<and> (\<forall>y \<in> set ys. \<not> P y) \<and> P x"
proof (induction xs)
  case (Cons a xs)
  show ?case
  proof (cases "P a")
    case True
    then have "a # xs = [] @ x # xs" "P x" using Cons.prems by auto
    then show ?thesis by fastforce
  next
    case False
    then obtain ys zs where "xs = ys @ x # zs" "\<forall>y \<in> set ys. \<not> P y" "P x"
      using Cons by auto
    then have "a # xs = (a # ys) @ x # zs" "\<forall>y \<in> set (a # ys). \<not> P y" "P x" using False by auto
    then show ?thesis by blast
  qed
qed simp

section \<open>Options and maps\<close>

lemma bind_eq_Some: "(Option.bind x f = Some y) = (\<exists>a. x = Some a \<and> f a = Some y)"
  by (cases x) auto

lemma map_option_Some_iff: "map_option f x = Some y \<longleftrightarrow> (\<exists>a. x = Some a \<and> y = f a)"
  by (cases x) auto

section \<open>Words\<close>

lemma word_lt_Suc: "(i :: 'a :: len word) \<noteq> - 1 \<Longrightarrow> i < i + 1"
  by (metis inc_less_eq_triv_imp linorder_less_linear word_le_less_eq)

end
