(* ===== verification/Netlink.thy ===== *)
theory Netlink
  imports Broker_Prelude
begin

text \<open>
  Netlink messages as the byte strings they are in memory, and the text the C library makes of
  numbers and addresses. A message starts with \<open>struct nlmsghdr\<close> (16 bytes), for routes followed by
  \<open>struct rtmsg\<close> (12 bytes); fields are in the byte order of the host, which is little endian on
  the machines the package is built for. A read outside of the memory is \<open>None\<close>.
\<close>

type_synonym bytes = "u8 list"

section \<open>Fields\<close>

definition byte_at :: "bytes \<Rightarrow> nat \<Rightarrow> u8 option" where
  "byte_at bs i = (if i < length bs then Some (bs ! i) else None)"

definition u16_at :: "bytes \<Rightarrow> nat \<Rightarrow> u16 option" where
  "u16_at bs i = do {
     a \<leftarrow> byte_at bs i;
     b \<leftarrow> byte_at bs (i + 1);
     Some (of_nat (unat a + 256 * unat b))
   }"

definition u32_at :: "bytes \<Rightarrow> nat \<Rightarrow> u32 option" where
  "u32_at bs i = do {
     a \<leftarrow> byte_at bs i;
     b \<leftarrow> byte_at bs (i + 1);
     c \<leftarrow> byte_at bs (i + 2);
     d \<leftarrow> byte_at bs (i + 3);
     Some (of_nat (unat a + 256 * (unat b + 256 * (unat c + 256 * unat d))))
   }"

text \<open>\<open>struct nlmsghdr\<close> and \<open>struct rtmsg\<close>, by offset from the start of the message.\<close>

abbreviation NLMSG_HDRLEN :: nat where "NLMSG_HDRLEN \<equiv> 16"
abbreviation SIZEOF_RTMSG :: nat where "SIZEOF_RTMSG \<equiv> 12"

definition nlmsg_len :: "bytes \<Rightarrow> u32 option" where "nlmsg_len d = u32_at d 0"
definition nlmsg_type :: "bytes \<Rightarrow> u16 option" where "nlmsg_type d = u16_at d 4"
definition nlmsg_flags :: "bytes \<Rightarrow> u16 option" where "nlmsg_flags d = u16_at d 6"
definition nlmsg_pid :: "bytes \<Rightarrow> u32 option" where "nlmsg_pid d = u32_at d 12"
definition rtm_family :: "bytes \<Rightarrow> u8 option" where "rtm_family d = byte_at d 16"
definition rtm_dst_len :: "bytes \<Rightarrow> u8 option" where "rtm_dst_len d = byte_at d 17"
definition rtm_src_len :: "bytes \<Rightarrow> u8 option" where "rtm_src_len d = byte_at d 18"
definition rtm_table :: "bytes \<Rightarrow> u8 option" where "rtm_table d = byte_at d 20"
definition rtm_protocol :: "bytes \<Rightarrow> u8 option" where "rtm_protocol d = byte_at d 21"
definition rtm_scope :: "bytes \<Rightarrow> u8 option" where "rtm_scope d = byte_at d 22"
definition rtm_type :: "bytes \<Rightarrow> u8 option" where "rtm_type d = byte_at d 23"
definition rtm_flags :: "bytes \<Rightarrow> u32 option" where "rtm_flags d = u32_at d 24"

lemmas field_defs = nlmsg_len_def nlmsg_type_def nlmsg_flags_def nlmsg_pid_def rtm_family_def rtm_dst_len_def
  rtm_src_len_def rtm_table_def rtm_protocol_def rtm_scope_def rtm_type_def rtm_flags_def

text \<open>Constants of \<open>linux/netlink.h\<close>, \<open>linux/rtnetlink.h\<close> and \<open>linux/socket.h\<close>.\<close>

abbreviation RTM_NEWROUTE :: u16 where "RTM_NEWROUTE \<equiv> 24"
abbreviation RTM_DELROUTE :: u16 where "RTM_DELROUTE \<equiv> 25"
abbreviation NLM_F_REPLACE :: u16 where "NLM_F_REPLACE \<equiv> 0x100"
abbreviation AF_INET :: u8 where "AF_INET \<equiv> 2"
abbreviation AF_INET6 :: u8 where "AF_INET6 \<equiv> 10"
abbreviation AF_MPLS :: u8 where "AF_MPLS \<equiv> 28"
abbreviation RTNL_FAMILY_IPMR :: u8 where "RTNL_FAMILY_IPMR \<equiv> 128"
abbreviation RTNL_FAMILY_IP6MR :: u8 where "RTNL_FAMILY_IP6MR \<equiv> 129"
abbreviation RTN_UNSPEC :: u8 where "RTN_UNSPEC \<equiv> 0"
abbreviation RTN_UNICAST :: u8 where "RTN_UNICAST \<equiv> 1"
abbreviation RTN_BROADCAST :: u8 where "RTN_BROADCAST \<equiv> 3"
abbreviation RTN_MULTICAST :: u8 where "RTN_MULTICAST \<equiv> 5"
abbreviation RT_TABLE_UNSPEC :: u8 where "RT_TABLE_UNSPEC \<equiv> 0"
abbreviation RT_TABLE_MAIN :: u8 where "RT_TABLE_MAIN \<equiv> 254"
abbreviation RT_TABLE_LOCAL :: u8 where "RT_TABLE_LOCAL \<equiv> 255"
abbreviation RT_SCOPE_UNIVERSE :: u8 where "RT_SCOPE_UNIVERSE \<equiv> 0"
abbreviation RT_SCOPE_LINK :: u8 where "RT_SCOPE_LINK \<equiv> 253"
abbreviation RTPROT_KERNEL :: u8 where "RTPROT_KERNEL \<equiv> 2"
abbreviation RTM_F_CLONED :: u32 where "RTM_F_CLONED \<equiv> 0x200"

text \<open>Network byte order.\<close>

definition ntohl :: "u32 \<Rightarrow> u32" where
  "ntohl x = push_bit 24 (x AND 0xff) OR push_bit 8 (x AND 0xff00) OR
     (drop_bit 8 x AND 0xff00) OR drop_bit 24 x"

definition ntohs :: "u16 \<Rightarrow> u16" where
  "ntohs x = push_bit 8 x OR drop_bit 8 x"

section \<open>Numbers as text\<close>

definition digit :: "nat \<Rightarrow> char" where
  "digit n = ''0123456789abcdef'' ! n"

fun digits :: "nat \<Rightarrow> nat \<Rightarrow> string" where
  "digits b n = (if n < b \<or> b < 2 then [digit (n mod 16)] else digits b (n div b) @ [digit (n mod b)])"

declare digits.simps [simp del]

text \<open>The conversions \<open>%u\<close>, \<open>%d\<close> and \<open>%x\<close>.\<close>

definition fmt_u :: "nat \<Rightarrow> string" where "fmt_u n = digits 10 n"
definition fmt_x :: "nat \<Rightarrow> string" where "fmt_x n = digits 16 n"
definition fmt_d :: "int \<Rightarrow> string" where
  "fmt_d i = (if i < 0 then ''-'' @ fmt_u (nat (- i)) else fmt_u (nat i))"

text \<open>\<open>snprintf\<close>: the length of the text, and what of it fits.\<close>

definition snprintf :: "nat \<Rightarrow> string \<Rightarrow> int \<times> string" where
  "snprintf len s = (int (length s), take (len - 1) s)"

text \<open>\<open>%s\<close> of a null pointer, as the C library prints it.\<close>

definition fmt_s :: "string option \<Rightarrow> string" where
  "fmt_s s = (case s of None \<Rightarrow> ''(null)'' | Some s \<Rightarrow> s)"

section \<open>Addresses as text\<close>

abbreviation INET6_ADDRSTRLEN :: nat where "INET6_ADDRSTRLEN \<equiv> 46"

definition ntop4 :: "bytes \<Rightarrow> string" where
  "ntop4 src = fmt_u (unat (src ! 0)) @ ''.'' @ fmt_u (unat (src ! 1)) @ ''.'' @
     fmt_u (unat (src ! 2)) @ ''.'' @ fmt_u (unat (src ! 3))"

text \<open>The longest run of zero words, the first one of several; one word alone is not a run.\<close>

fun zero_run :: "nat \<Rightarrow> nat list \<Rightarrow> (nat \<times> nat) option \<Rightarrow> (nat \<times> nat) option \<Rightarrow> (nat \<times> nat) option" where
  "zero_run i [] cur best =
     (case cur of
        None \<Rightarrow> best
      | Some (cb, cl) \<Rightarrow> (case best of None \<Rightarrow> cur | Some (bb, bl) \<Rightarrow> if cl > bl then cur else best))"
| "zero_run i (x # xs) cur best =
     (if x = 0 then
        zero_run (i + 1) xs (case cur of None \<Rightarrow> Some (i, 1) | Some (cb, cl) \<Rightarrow> Some (cb, cl + 1)) best
      else zero_run (i + 1) xs None
        (case cur of
           None \<Rightarrow> best
         | Some (cb, cl) \<Rightarrow> (case best of None \<Rightarrow> cur | Some (bb, bl) \<Rightarrow> if cl > bl then cur else best)))"

definition best_run :: "nat list \<Rightarrow> (nat \<times> nat) option" where
  "best_run xs =
     (case zero_run 0 xs None None of
        None \<Rightarrow> None
      | Some (b, l) \<Rightarrow> if l < 2 then None else Some (b, l))"

fun ntop6_words :: "bytes \<Rightarrow> (nat \<times> nat) option \<Rightarrow> nat list \<Rightarrow> nat \<Rightarrow> nat list \<Rightarrow> string" where
  "ntop6_words src best ws i [] =
     (case best of Some (b, l) \<Rightarrow> if b + l = 8 then '':'' else [] | None \<Rightarrow> [])"
| "ntop6_words src best ws i (x # xs) =
     (case best of
        Some (b, l) \<Rightarrow>
          if b \<le> i \<and> i < b + l then (if i = b then '':'' else []) @ ntop6_words src best ws (i + 1) xs
          else (if i \<noteq> 0 then '':'' else []) @
            (if i = 6 \<and> b = 0 \<and> (l = 6 \<or> l = 5 \<and> ws ! 5 = 0xffff) then ntop4 (drop 12 src)
             else fmt_x x @ ntop6_words src best ws (i + 1) xs)
      | None \<Rightarrow> (if i \<noteq> 0 then '':'' else []) @ fmt_x x @ ntop6_words src best ws (i + 1) xs)"

definition ntop6 :: "bytes \<Rightarrow> string" where
  "ntop6 src =
     (let ws = map (\<lambda>i. 256 * unat (src ! (2 * i)) + unat (src ! (2 * i + 1))) [0..<8]
      in ntop6_words src (best_run ws) ws 0 ws)"

text \<open>
  \<open>inet_ntop\<close>: the outer \<open>None\<close> is a read outside of the memory behind \<open>src\<close>, the inner one the
  null pointer it returns for another family or a buffer that is too small.
\<close>

definition inet_ntop :: "u8 \<Rightarrow> bytes \<Rightarrow> nat \<Rightarrow> string option option" where
  "inet_ntop af src sz =
     (if af = AF_INET then
        if length src < 4 then None
        else Some (if length (ntop4 src) < sz then Some (ntop4 src) else None)
      else if af = AF_INET6 then
        if length src < 16 then None
        else Some (if length (ntop6 src) < sz then Some (ntop6 src) else None)
      else Some None)"

section \<open>Laws of the text of numbers\<close>

lemma digit_less:
  assumes "n < b" "b \<le> 16"
  shows "digit n \<in> set (take b ''0123456789abcdef'')"
proof -
  have "take b ''0123456789abcdef'' ! n = digit n" using assms by (simp add: digit_def)
  moreover have "n < length (take b ''0123456789abcdef'')" using assms by simp
  ultimately show ?thesis by (metis nth_mem)
qed

lemma digit_inj:
  assumes "m < 16" "n < 16" "digit m = digit n"
  shows "m = n"
proof -
  have "distinct ''0123456789abcdef''" by simp
  then show ?thesis using assms nth_eq_iff_index_eq [of "''0123456789abcdef''" m n] by (simp add: digit_def)
qed

lemma digits_set:
  assumes "2 \<le> b" "b \<le> 16"
  shows "set (digits b n) \<subseteq> set (take b ''0123456789abcdef'')"
  using assms
proof (induction b n rule: digits.induct)
  case (1 b n)
  show ?case
  proof (cases "n < b")
    case True
    then show ?thesis using 1(2,3) digit_less [of n b] by (subst digits.simps) simp
  next
    case False
    then have "set (digits b (n div b)) \<subseteq> set (take b ''0123456789abcdef'')" using 1 by simp
    moreover have "digit (n mod b) \<in> set (take b ''0123456789abcdef'')" using 1(2,3) by (intro digit_less) simp_all
    ultimately show ?thesis using False 1(2) by (subst digits.simps) simp
  qed
qed

lemma digits_inj:
  assumes "2 \<le> b" "b \<le> 16" "digits b m = digits b n"
  shows "m = n"
  using assms
proof (induction b m arbitrary: n rule: digits.induct)
  case (1 b m)
  have ne: "digits b x \<noteq> []" for x by (subst digits.simps) simp
  have low: "digits b x = [digit x]" if "x < b" for x
    using that 1(2,3) by (subst digits.simps) simp
  have high: "digits b x = digits b (x div b) @ [digit (x mod b)]" if "\<not> x < b" for x
    using that 1(2) by (subst digits.simps) simp
  have lt: "x mod b < 16" for x using 1(2,3) mod_less_divisor [of b x] by linarith
  consider "m < b" "n < b" | "m < b" "\<not> n < b" | "\<not> m < b" "n < b" | "\<not> m < b" "\<not> n < b" by blast
  then show ?case
  proof cases
    case 1
    then show ?thesis using low 1 \<open>b \<le> 16\<close> \<open>digits b m = digits b n\<close> digit_inj [of m n] by simp
  next
    case 2
    then show ?thesis using low high ne \<open>digits b m = digits b n\<close> by (metis append_self_conv2 butlast_snoc butlast.simps(2) self_append_conv2)
  next
    case 3
    then show ?thesis using low high ne \<open>digits b m = digits b n\<close> by (metis butlast_snoc butlast.simps(2))
  next
    case 4
    then have "digits b (m div b) = digits b (n div b)" "digit (m mod b) = digit (n mod b)"
      using high \<open>digits b m = digits b n\<close> by auto
    moreover have "m div b = n div b" using 4 1 calculation by simp
    moreover have "m mod b = n mod b" using digit_inj lt calculation by blast
    ultimately show ?thesis by (metis div_mult_mod_eq)
  qed
qed

lemma digits_length:
  assumes "2 \<le> b" "n < b ^ k" "k \<noteq> 0"
  shows "length (digits b n) \<le> k"
  using assms
proof (induction k arbitrary: n)
  case (Suc k)
  show ?case
  proof (cases "n < b")
    case True
    then show ?thesis by (subst digits.simps) simp
  next
    case False
    then have "k \<noteq> 0" using Suc by (cases k) auto
    moreover have "n div b < b ^ k" using Suc(2,3) by (simp add: less_mult_imp_div_less mult.commute)
    ultimately show ?thesis using Suc.IH [of "n div b"] Suc(2) False by (subst digits.simps) simp
  qed
qed simp

lemma fmt_u_inj [simp]: "fmt_u m = fmt_u n \<longleftrightarrow> m = n"
  using digits_inj [of 10] by (auto simp: fmt_u_def)

lemma fmt_u_chars: "set (fmt_u n) \<subseteq> set ''0123456789''"
proof -
  have t: "take 10 ''0123456789abcdef'' = ''0123456789''" by simp
  have "(2 :: nat) \<le> 10" "(10 :: nat) \<le> 16" by simp_all
  from digits_set [OF this, of n] show ?thesis unfolding fmt_u_def t .
qed

lemma fmt_u_sep [simp]: "CHR ''.'' \<notin> set (fmt_u n)" "CHR ''/'' \<notin> set (fmt_u n)" "CHR '' '' \<notin> set (fmt_u n)"
    "CHR '':'' \<notin> set (fmt_u n)"
  by (rule contra_subsetD [OF fmt_u_chars], simp)+

lemma fmt_u_length:
  "n < 256 \<Longrightarrow> length (fmt_u n) \<le> 3" "n < 4294967296 \<Longrightarrow> length (fmt_u n) \<le> 10"
  using digits_length [of 10 n 3] digits_length [of 10 n 10] by (simp_all add: fmt_u_def)

lemma unat_u8: "unat (x :: u8) < 256"
  by (rule order.strict_trans2 [OF unsigned_less]) simp

lemma unat_u32: "unat (x :: u32) < 4294967296"
  by (rule order.strict_trans2 [OF unsigned_less]) simp

lemma fmt_d_length: "length (fmt_d (sint (x :: u32))) \<le> 11"
proof -
  have "- (2 ^ 31) \<le> sint x" "sint x < 2 ^ 31" using sint_ge [of x] sint_lt [of x] by simp_all
  then have "nat (sint x) < 4294967296" "nat (- sint x) < 4294967296" by simp_all
  from this [THEN fmt_u_length(2)] show ?thesis by (simp add: fmt_d_def)
qed

lemma fmt_s_ntop:
  assumes "inet_ntop af src INET6_ADDRSTRLEN = Some s"
  shows "length (fmt_s s) < INET6_ADDRSTRLEN"
  using assms by (auto simp: inet_ntop_def fmt_s_def split: if_splits)

end
