(* ===== verification/Fpm.thy ===== *)
theory Fpm
  imports Netlink
begin

text \<open>
  The header of messages from the routing daemon, \<open>src/daemon/fpm.h\<close>: four bytes, version, type
  and the length of the whole message in network byte order. Lengths are \<open>size_t\<close>, 64 bits wide.
\<close>

abbreviation FPM_MAX_MSG_LEN :: u64 where "FPM_MAX_MSG_LEN \<equiv> 4096"
abbreviation FPM_MSG_ALIGNTO :: u64 where "FPM_MSG_ALIGNTO \<equiv> 4"
abbreviation FPM_MSG_HDR_LEN :: u64 where "FPM_MSG_HDR_LEN \<equiv> 4"

abbreviation FPM_MSG_TYPE_NONE :: u8 where "FPM_MSG_TYPE_NONE \<equiv> 0"
abbreviation FPM_MSG_TYPE_NETLINK :: u8 where "FPM_MSG_TYPE_NETLINK \<equiv> 1"
abbreviation FPM_MSG_TYPE_PROTOBUF :: u8 where "FPM_MSG_TYPE_PROTOBUF \<equiv> 2"

record fpm_msg_hdr =
  version :: u8
  msg_type :: u8
  msg_len :: u16

text \<open>The header at the start of a buffer: the field is read as the host reads it.\<close>

definition fpm_hdr_at :: "bytes \<Rightarrow> fpm_msg_hdr option" where
  "fpm_hdr_at buf = do {
     v \<leftarrow> byte_at buf 0;
     t \<leftarrow> byte_at buf 1;
     l \<leftarrow> u16_at buf 2;
     Some \<lparr>version = v, msg_type = t, msg_len = l\<rparr>
   }"

definition fpm_msg_align :: "u64 \<Rightarrow> u64" where
  "fpm_msg_align len = (len + FPM_MSG_ALIGNTO - 1) AND NOT (FPM_MSG_ALIGNTO - 1)"

definition fpm_data_len_to_msg_len :: "u64 \<Rightarrow> u64" where
  "fpm_data_len_to_msg_len data_len = data_len + FPM_MSG_HDR_LEN"

text \<open>The payload, as the offset from the header.\<close>

definition fpm_msg_data :: "nat \<Rightarrow> nat" where
  "fpm_msg_data hdr = hdr + 4"

definition fpm_msg_len :: "fpm_msg_hdr \<Rightarrow> u64" where
  "fpm_msg_len hdr = ucast (ntohs (msg_len hdr))"

definition fpm_msg_data_len :: "fpm_msg_hdr \<Rightarrow> u64" where
  "fpm_msg_data_len hdr = fpm_msg_len hdr - FPM_MSG_HDR_LEN"

text \<open>\<open>len\<close> is \<open>None\<close> for a null pointer; the result is \<open>None\<close> where the assertion fails.\<close>

definition fpm_msg_next :: "fpm_msg_hdr \<Rightarrow> nat \<Rightarrow> u64 option \<Rightarrow> (nat \<times> u64 option) option" where
  "fpm_msg_next hdr off len =
     (case len of
        None \<Rightarrow> Some (off + unat (fpm_msg_len hdr), None)
      | Some l \<Rightarrow>
          if l < fpm_msg_len hdr then None
          else Some (off + unat (fpm_msg_len hdr), Some (l - fpm_msg_len hdr)))"

definition fpm_msg_hdr_ok :: "fpm_msg_hdr \<Rightarrow> bool" where
  "fpm_msg_hdr_ok hdr =
     (if msg_type hdr = FPM_MSG_TYPE_NONE then False
      else if fpm_msg_len hdr < FPM_MSG_HDR_LEN \<or> fpm_msg_len hdr > FPM_MAX_MSG_LEN then False
      else if msg_type hdr = FPM_MSG_TYPE_NETLINK \<and> fpm_msg_align (fpm_msg_len hdr) \<noteq> fpm_msg_len hdr then False
      else True)"

definition fpm_msg_ok :: "fpm_msg_hdr \<Rightarrow> u64 \<Rightarrow> bool" where
  "fpm_msg_ok hdr len =
     (if len < FPM_MSG_HDR_LEN then False
      else if \<not> fpm_msg_hdr_ok hdr then False
      else if fpm_msg_len hdr > len then False
      else True)"

section \<open>Alignment\<close>

text \<open>Clearing the two lowest bits, on words of any length.\<close>

lemma word_clear_low: "(x :: 'a::len word) AND NOT (mask n) = push_bit n (drop_bit n x)"
  by (rule bit_word_eqI) (auto simp: bit_simps not_le)

lemma unat_clear_low:
  fixes x :: "'a::len word"
  shows "unat (x AND NOT (mask n)) = unat x div 2 ^ n * 2 ^ n"
proof -
  have "unat x div 2 ^ n * 2 ^ n < 2 ^ LENGTH('a)"
    by (rule le_less_trans [OF div_times_less_eq_dividend unsigned_less])
  then have "take_bit LENGTH('a) (push_bit n (drop_bit n (unat x))) = unat x div 2 ^ n * 2 ^ n"
    by (simp add: push_bit_eq_mult drop_bit_eq_div take_bit_nat_eq_self)
  then show ?thesis
    by (simp add: word_clear_low unsigned_push_bit_eq unsigned_drop_bit_eq take_bit_nat_eq_self [OF unsigned_less]
        del: push_bit_eq_mult drop_bit_eq_div)
qed

lemma unat_fpm_msg_align:
  assumes "unat len + 3 < 2 ^ 64"
  shows "unat (fpm_msg_align len) = (unat len + 3) div 4 * 4"
proof -
  have m: "(3 :: u64) = mask 2" by (simp add: mask_eq_exp_minus_1)
  have "unat (len + 3) = unat len + 3" using assms unat_add_lem [of len 3] by simp
  moreover have "fpm_msg_align len = (len + 3) AND NOT (mask 2)" unfolding fpm_msg_align_def m [symmetric] by (simp add: add.commute)
  ultimately show ?thesis using unat_clear_low [of "len + 3" 2] by simp
qed

text \<open>
  \<open>fpm_msg_align\<close> rounds up to a multiple of four and leaves multiples of four alone, for every
  length that does not reach the last four values of \<open>size_t\<close>.
\<close>

theorem fpm_msg_align_rounds_up:
  assumes "unat len + 3 < 2 ^ 64"
  shows "unat (fpm_msg_align len) = (unat len + 3) div 4 * 4 \<and> unat len \<le> unat (fpm_msg_align len) \<and>
    (4 dvd unat len \<longrightarrow> fpm_msg_align len = len)"
proof -
  note r = unat_fpm_msg_align [OF assms]
  have "unat len \<le> (unat len + 3) div 4 * 4" by presburger
  moreover have "(unat len + 3) div 4 * 4 = unat len" if "4 dvd unat len" using that by presburger
  ultimately show ?thesis using r by (simp add: word_unat_eq_iff)
qed

theorem fpm_msg_align_rounds_up_witness: "unat (fpm_msg_align 4093) = 4096"
  using fpm_msg_align_rounds_up [of 4093] by simp

section \<open>Headers\<close>

lemma unat_fpm_msg_len: "unat (fpm_msg_len hdr) = unat (ntohs (msg_len hdr))"
proof -
  have "unat (ntohs (msg_len hdr)) < 2 ^ 64" by (rule less_le_trans [OF unsigned_less]) simp
  then show ?thesis by (simp add: fpm_msg_len_def unsigned_ucast_eq take_bit_nat_eq_self)
qed

lemma fpm_hdr_okD:
  assumes "fpm_msg_hdr_ok hdr"
  shows "4 \<le> unat (fpm_msg_len hdr)" "unat (fpm_msg_len hdr) \<le> 4096" "msg_type hdr \<noteq> FPM_MSG_TYPE_NONE"
    "msg_type hdr = FPM_MSG_TYPE_NETLINK \<Longrightarrow> 4 dvd unat (fpm_msg_len hdr)"
proof -
  show l: "4 \<le> unat (fpm_msg_len hdr)" "unat (fpm_msg_len hdr) \<le> 4096" "msg_type hdr \<noteq> FPM_MSG_TYPE_NONE"
    using assms by (auto simp: fpm_msg_hdr_ok_def word_less_nat_alt split: if_splits)
  assume "msg_type hdr = FPM_MSG_TYPE_NETLINK"
  then have "fpm_msg_align (fpm_msg_len hdr) = fpm_msg_len hdr"
    using assms by (auto simp: fpm_msg_hdr_ok_def split: if_splits)
  then have "unat (fpm_msg_len hdr) = (unat (fpm_msg_len hdr) + 3) div 4 * 4"
    using unat_fpm_msg_align [of "fpm_msg_len hdr"] l(2) by simp
  then show "4 dvd unat (fpm_msg_len hdr)" by presburger
qed

lemma fpm_data_len:
  assumes "fpm_msg_hdr_ok hdr"
  shows "unat (fpm_msg_data_len hdr) = unat (fpm_msg_len hdr) - 4"
  using fpm_hdr_okD(1) [OF assms] by (simp add: fpm_msg_data_len_def unat_sub word_le_nat_alt)

text \<open>
  C34. A header that is accepted has a payload length that is in range: the subtraction in
  \<open>fpm_msg_data_len\<close> does not wrap, the payload and the header fit into the largest message, adding
  the header again gives the length of the message, and the payload of a netlink message is a
  multiple of four bytes long.
\<close>

theorem fpm_data_len_in_range:
  assumes "fpm_msg_hdr_ok hdr"
  shows "unat (fpm_msg_data_len hdr) + 4 = unat (fpm_msg_len hdr) \<and> unat (fpm_msg_data_len hdr) \<le> 4092 \<and>
    fpm_data_len_to_msg_len (fpm_msg_data_len hdr) = fpm_msg_len hdr \<and>
    (msg_type hdr = FPM_MSG_TYPE_NETLINK \<longrightarrow> 4 dvd unat (fpm_msg_data_len hdr))"
proof -
  note D = fpm_hdr_okD [OF assms]
  have "fpm_data_len_to_msg_len (fpm_msg_data_len hdr) = fpm_msg_len hdr"
    by (simp add: fpm_data_len_to_msg_len_def fpm_msg_data_len_def)
  then show ?thesis using D fpm_data_len [OF assms] by (auto simp: dvd_diff_nat)
qed

definition eg_hdr :: fpm_msg_hdr where
  "eg_hdr = \<lparr>version = 1, msg_type = FPM_MSG_TYPE_NETLINK, msg_len = 0x2800\<rparr>"

theorem fpm_data_len_in_range_witness: "unat (fpm_msg_data_len eg_hdr) = 36 \<and> 4 dvd unat (fpm_msg_data_len eg_hdr)"
proof -
  have "fpm_msg_hdr_ok eg_hdr" by code_simp
  from fpm_data_len_in_range [OF this] show ?thesis
    by (simp add: eg_hdr_def fpm_msg_len_def ntohs_def)
qed

lemma unat_high_byte: "unat (drop_bit 8 (x :: u16)) = unat x div 256"
proof -
  have "unat x < 2 ^ 16" by (rule less_le_trans [OF unsigned_less]) simp
  then have "take_bit 16 (unat x) = unat x" by (rule take_bit_nat_eq_self)
  then show ?thesis by (subst unsigned_drop_bit_eq) (simp add: drop_bit_eq_div)
qed

lemma ntohs_arith: "unat (ntohs x) = unat x mod 256 * 256 + unat x div 256"
proof -
  have lt: "unat x < 65536" by (rule less_le_trans [OF unsigned_less]) simp
  have "ntohs x = push_bit 8 x + drop_bit 8 x"
    unfolding ntohs_def by (rule disjunctive_add [symmetric]) (auto simp: bit_simps dest: bit_imp_le_length)
  moreover have p: "unat (push_bit 8 x) = unat x mod 256 * 256"
  proof -
    have "unat (push_bit 8 x) = take_bit 16 (push_bit 8 (unat x))" by (subst unsigned_push_bit_eq) simp
    then show ?thesis by (simp add: push_bit_eq_mult take_bit_eq_mod mult_mod_left)
  qed
  moreover note unat_high_byte [of x]
  moreover have "unat x mod 256 * 256 + unat x div 256 < 65536" using lt by linarith
  ultimately show ?thesis using unat_add_lem [of "push_bit 8 x" "drop_bit 8 x"] by simp
qed

definition fpm_hdr_bytes :: "u8 \<Rightarrow> u8 \<Rightarrow> u16 \<Rightarrow> bytes" where
  "fpm_hdr_bytes v t len = [v, t, ucast (drop_bit 8 len), ucast len]"

text \<open>
  The header survives the wire: reading the four bytes that a version, a type and a length are
  sent as gives a header with that version, type and length.
\<close>

theorem fpm_hdr_roundtrip:
  "\<exists>hdr. fpm_hdr_at (fpm_hdr_bytes v t len @ rest) = Some hdr \<and> version hdr = v \<and> msg_type hdr = t \<and>
     fpm_msg_len hdr = ucast len"
proof -
  let ?x = "of_nat (unat (ucast (drop_bit 8 len) :: u8) + 256 * unat (ucast len :: u8)) :: u16"
  have lt: "unat len < 65536" by (rule less_le_trans [OF unsigned_less]) simp
  have hi: "unat (ucast (drop_bit 8 len) :: u8) = unat len div 256"
  proof -
    have "unat len div 256 < 256" using lt by linarith
    with unat_high_byte [of len] show ?thesis by (simp add: unsigned_ucast_eq take_bit_nat_eq_self)
  qed
  have lo: "unat (ucast len :: u8) = unat len mod 256" by (simp add: unsigned_ucast_eq take_bit_eq_mod)
  have "unat len div 256 + 256 * (unat len mod 256) < 65536" using lt by linarith
  then have x: "unat ?x = unat len div 256 + 256 * (unat len mod 256)"
    unfolding hi lo by (subst unat_of_nat) simp
  have "unat (ntohs ?x) = unat len" unfolding ntohs_arith x using lt by (simp add: mult.commute)
  then have "ntohs ?x = len" by (simp add: word_unat_eq_iff)
  then show ?thesis
    by (simp add: fpm_hdr_at_def fpm_hdr_bytes_def byte_at_def u16_at_def fpm_msg_len_def)
qed

end
