(* ===== verification/Broker.thy ===== *)
theory Broker
  imports Broker_Prelude
begin

text \<open>
  The object broker of \<open>src/broker/broker.c\<close> and \<open>src/broker/broker.h\<close>.

  A broker keeps one queue. Objects stand in it in the order of their last change, each stamped
  with the broker's counter; a client is a node of the same queue that stands right behind the
  last object it has been given. The nodes of the queue are \<open>struct broker_obj\<close>s embedded in an
  object of the user or in a \<open>struct broker_client\<close>; \<open>node\<close> says which, and a structure that
  embeds one is a record that extends \<open>broker_obj\<close>.
\<close>

section \<open>Data\<close>

abbreviation BROKER_FLAGS_OBJ :: u32 where "BROKER_FLAGS_OBJ \<equiv> 0x1"
abbreviation BROKER_FLAGS_CLIENT :: u32 where "BROKER_FLAGS_CLIENT \<equiv> 0x2"
abbreviation BROKER_FLAGS_DELETE :: u32 where "BROKER_FLAGS_DELETE \<equiv> 0x4"

abbreviation ENOENT :: int where "ENOENT \<equiv> 2"
abbreviation ENOTEMPTY :: int where "ENOTEMPTY \<equiv> 39"

record broker_obj =
  obj_type :: u32
  flags :: u32
  obj_id :: u64

text \<open>\<open>struct broker_obj *\<close>: the header inside the object or inside the client at an address.\<close>

datatype node = Obj ptr | Cli ptr

record broker =
  b_obj_list :: "node list"
  type_count :: u64
  b_client_list :: "ptr list"
  brk_id :: u64
  imp_dels :: u64

record broker_client =
  cl_broker :: ptr
  cl_obj :: broker_obj
  cl_flags :: u32
  cl_id :: u64
  consumed :: u64
  name :: string

text \<open>The memory the broker works on: user objects \<open>'o\<close>, clients, brokers, and the globals.\<close>

record 'o broker_mem =
  objs :: "ptr \<rightharpoonup> 'o"
  clis :: "ptr \<rightharpoonup> broker_client"
  brks :: "ptr \<rightharpoonup> broker"
  broker_list_head :: "ptr list"
  inited :: bool

text \<open>
  The callbacks of a broker and of a client; \<open>None\<close> is a \<open>NULL\<close> function pointer. The C code
  keeps a copy of them in the broker and in the client; here they are arguments.
\<close>

record 'w broker_ops =
  obj_to_broker_obj :: "(ptr \<Rightarrow> int \<Rightarrow> node option) option"
  broker_obj_to_obj :: "('w \<Rightarrow> node \<Rightarrow> ptr option) option"
  lock_obj :: "('w \<Rightarrow> node \<Rightarrow> 'w option) option"
  unlock_obj :: "('w \<Rightarrow> node \<Rightarrow> 'w option) option"

record 'w broker_client_ops =
  add_obj :: "('w \<Rightarrow> node \<Rightarrow> (ptr \<times> 'w) option) option"
  del_obj :: "('w \<Rightarrow> node \<Rightarrow> (ptr \<times> 'w) option) option"

section \<open>Reading and writing through a header pointer\<close>

definition node_ok :: "('a broker_obj_scheme, 'z) broker_mem_scheme \<Rightarrow> node \<Rightarrow> bool" where
  "node_ok w n = (case n of Obj p \<Rightarrow> objs w p \<noteq> None | Cli c \<Rightarrow> clis w c \<noteq> None)"

definition get_flags :: "('a broker_obj_scheme, 'z) broker_mem_scheme \<Rightarrow> node \<Rightarrow> u32 option" where
  "get_flags w n =
     (case n of Obj p \<Rightarrow> map_option flags (objs w p)
      | Cli c \<Rightarrow> map_option (flags \<circ> cl_obj) (clis w c))"

definition get_id :: "('a broker_obj_scheme, 'z) broker_mem_scheme \<Rightarrow> node \<Rightarrow> u64 option" where
  "get_id w n =
     (case n of Obj p \<Rightarrow> map_option obj_id (objs w p)
      | Cli c \<Rightarrow> map_option (obj_id \<circ> cl_obj) (clis w c))"

definition upd_obj ::
  "ptr \<Rightarrow> ('o \<Rightarrow> 'o) \<Rightarrow> ('o, 'z) broker_mem_scheme \<Rightarrow> ('o, 'z) broker_mem_scheme option" where
  "upd_obj p f w =
     (case objs w p of None \<Rightarrow> None | Some ob \<Rightarrow> Some (w\<lparr>objs := (objs w)(p \<mapsto> f ob)\<rparr>))"

definition upd_cli ::
  "ptr \<Rightarrow> (broker_client \<Rightarrow> broker_client) \<Rightarrow> ('o, 'z) broker_mem_scheme
    \<Rightarrow> ('o, 'z) broker_mem_scheme option" where
  "upd_cli c f w =
     (case clis w c of None \<Rightarrow> None | Some cl \<Rightarrow> Some (w\<lparr>clis := (clis w)(c \<mapsto> f cl)\<rparr>))"

definition upd_brk ::
  "ptr \<Rightarrow> (broker \<Rightarrow> broker) \<Rightarrow> ('o, 'z) broker_mem_scheme \<Rightarrow> ('o, 'z) broker_mem_scheme option" where
  "upd_brk b f w =
     (case brks w b of None \<Rightarrow> None | Some br \<Rightarrow> Some (w\<lparr>brks := (brks w)(b \<mapsto> f br)\<rparr>))"

definition set_obj_type ::
  "node \<Rightarrow> u32 \<Rightarrow> ('a broker_obj_scheme, 'z) broker_mem_scheme
    \<Rightarrow> ('a broker_obj_scheme, 'z) broker_mem_scheme option" where
  "set_obj_type n v w =
     (case n of Obj p \<Rightarrow> upd_obj p (\<lambda>ob. ob\<lparr>obj_type := v\<rparr>) w
      | Cli c \<Rightarrow> upd_cli c (\<lambda>cl. cl\<lparr>cl_obj := (cl_obj cl)\<lparr>obj_type := v\<rparr>\<rparr>) w)"

definition set_flags ::
  "node \<Rightarrow> u32 \<Rightarrow> ('a broker_obj_scheme, 'z) broker_mem_scheme
    \<Rightarrow> ('a broker_obj_scheme, 'z) broker_mem_scheme option" where
  "set_flags n v w =
     (case n of Obj p \<Rightarrow> upd_obj p (\<lambda>ob. ob\<lparr>flags := v\<rparr>) w
      | Cli c \<Rightarrow> upd_cli c (\<lambda>cl. cl\<lparr>cl_obj := (cl_obj cl)\<lparr>flags := v\<rparr>\<rparr>) w)"

definition set_id ::
  "node \<Rightarrow> u64 \<Rightarrow> ('a broker_obj_scheme, 'z) broker_mem_scheme
    \<Rightarrow> ('a broker_obj_scheme, 'z) broker_mem_scheme option" where
  "set_id n v w =
     (case n of Obj p \<Rightarrow> upd_obj p (\<lambda>ob. ob\<lparr>obj_id := v\<rparr>) w
      | Cli c \<Rightarrow> upd_cli c (\<lambda>cl. cl\<lparr>cl_obj := (cl_obj cl)\<lparr>obj_id := v\<rparr>\<rparr>) w)"

text \<open>\<open>++broker->id\<close>, and the queue macros on the object queue of a broker.\<close>

definition next_id ::
  "ptr \<Rightarrow> ('o, 'z) broker_mem_scheme \<Rightarrow> (u64 \<times> ('o, 'z) broker_mem_scheme) option" where
  "next_id b w = do {
     br \<leftarrow> brks w b;
     let i = brk_id br + 1;
     Some (i, w\<lparr>brks := (brks w)(b \<mapsto> br\<lparr>brk_id := i\<rparr>)\<rparr>)
   }"

definition obj_list_remove ::
  "ptr \<Rightarrow> node \<Rightarrow> ('a broker_obj_scheme, 'z) broker_mem_scheme
    \<Rightarrow> ('a broker_obj_scheme, 'z) broker_mem_scheme option" where
  "obj_list_remove b n w = do {
     br \<leftarrow> brks w b;
     l \<leftarrow> circleq_remove (node_ok w) n (b_obj_list br);
     upd_brk b (\<lambda>br. br\<lparr>b_obj_list := l\<rparr>) w
   }"

definition obj_list_insert_tail ::
  "ptr \<Rightarrow> node \<Rightarrow> ('a broker_obj_scheme, 'z) broker_mem_scheme
    \<Rightarrow> ('a broker_obj_scheme, 'z) broker_mem_scheme option" where
  "obj_list_insert_tail b n w = do {
     br \<leftarrow> brks w b;
     l \<leftarrow> circleq_insert_tail (node_ok w) n (b_obj_list br);
     upd_brk b (\<lambda>br. br\<lparr>b_obj_list := l\<rparr>) w
   }"

definition obj_list_insert_head ::
  "ptr \<Rightarrow> node \<Rightarrow> ('a broker_obj_scheme, 'z) broker_mem_scheme
    \<Rightarrow> ('a broker_obj_scheme, 'z) broker_mem_scheme option" where
  "obj_list_insert_head b n w = do {
     br \<leftarrow> brks w b;
     l \<leftarrow> circleq_insert_head (node_ok w) n (b_obj_list br);
     upd_brk b (\<lambda>br. br\<lparr>b_obj_list := l\<rparr>) w
   }"

definition obj_list_insert_after ::
  "ptr \<Rightarrow> node \<Rightarrow> node \<Rightarrow> ('a broker_obj_scheme, 'z) broker_mem_scheme
    \<Rightarrow> ('a broker_obj_scheme, 'z) broker_mem_scheme option" where
  "obj_list_insert_after b a n w = do {
     br \<leftarrow> brks w b;
     l \<leftarrow> circleq_insert_after (node_ok w) a n (b_obj_list br);
     upd_brk b (\<lambda>br. br\<lparr>b_obj_list := l\<rparr>) w
   }"

section \<open>Brokers\<close>

definition broker_create ::
  "('a broker_obj_scheme, 'z) broker_mem_scheme broker_ops option \<Rightarrow> u64 \<Rightarrow> ptr
    \<Rightarrow> ('a broker_obj_scheme, 'z) broker_mem_scheme
    \<Rightarrow> (ptr \<times> ('a broker_obj_scheme, 'z) broker_mem_scheme) option" where
  "broker_create broker_ops count calloc_ret w =
     (case broker_ops of
        None \<Rightarrow> Some (NULL, w)
      | Some f \<Rightarrow>
          if obj_to_broker_obj f = None \<or> broker_obj_to_obj f = None \<or> lock_obj f = None
             \<or> unlock_obj f = None \<or> count = 0
          then Some (NULL, w)
          else if calloc_ret = NULL then Some (NULL, w)
          else do {
            let w = (if inited w then w else w\<lparr>inited := True, broker_list_head := []\<rparr>);
            l \<leftarrow> circleq_insert_head (\<lambda>b. brks w b \<noteq> None) calloc_ret (broker_list_head w);
            let w = w\<lparr>broker_list_head := l\<rparr>;
            Some (calloc_ret,
                  w\<lparr>brks := (brks w)(calloc_ret \<mapsto>
                      \<lparr>b_obj_list = [], type_count = count, b_client_list = [],
                       brk_id = 0, imp_dels = 0\<rparr>)\<rparr>)
          })"

definition broker_delete ::
  "ptr \<Rightarrow> ('a broker_obj_scheme, 'z) broker_mem_scheme
    \<Rightarrow> (int \<times> ('a broker_obj_scheme, 'z) broker_mem_scheme) option" where
  "broker_delete b w =
     (if b = NULL then Some (- ENOENT, w)
      else do {
        br \<leftarrow> brks w b;
        if b_client_list br \<noteq> [] then Some (- ENOTEMPTY, w)
        else if b_obj_list br \<noteq> [] then Some (- ENOTEMPTY, w)
        else Some (0, w\<lparr>brks := (brks w)(b := None)\<rparr>)
      })"

text \<open>The loop of \<open>no_clients_need_this\<close>: the least id of a client, from \<open>i\<close> down.\<close>

fun min_client_id ::
  "('a broker_obj_scheme, 'z) broker_mem_scheme \<Rightarrow> ptr list \<Rightarrow> u64 \<Rightarrow> u64 option" where
  "min_client_id w [] i = Some i"
| "min_client_id w (c # cs) i = do {
     cl \<leftarrow> clis w c;
     min_client_id w cs (if obj_id (cl_obj cl) < i then obj_id (cl_obj cl) else i)
   }"

definition no_clients_need_this ::
  "ptr \<Rightarrow> node \<Rightarrow> ('a broker_obj_scheme, 'z) broker_mem_scheme \<Rightarrow> bool option" where
  "no_clients_need_this b entry w = do {
     br \<leftarrow> brks w b;
     if b_client_list br = [] then Some True
     else do {
       i \<leftarrow> min_client_id w (b_client_list br) (NOT 0);
       e \<leftarrow> get_id w entry;
       if e \<le> i then Some True else Some False
     }
   }"

section \<open>Objects\<close>

definition broker_add_obj ::
  "('a broker_obj_scheme, 'z) broker_mem_scheme broker_ops \<Rightarrow> ptr \<Rightarrow> ptr \<Rightarrow> int
    \<Rightarrow> ('a broker_obj_scheme, 'z) broker_mem_scheme
    \<Rightarrow> ('a broker_obj_scheme, 'z) broker_mem_scheme option" where
  "broker_add_obj ops b obj ty w = do {
     conv \<leftarrow> obj_to_broker_obj ops;
     new \<leftarrow> conv obj ty;
     w \<leftarrow> set_obj_type new (word_of_int ty) w;
     w \<leftarrow> set_flags new BROKER_FLAGS_OBJ w;
     (i, w) \<leftarrow> next_id b w;
     w \<leftarrow> set_id new i w;
     lock \<leftarrow> lock_obj ops;
     w \<leftarrow> lock w new;
     obj_list_insert_tail b new w
   }"

definition broker_del_obj_now ::
  "('a broker_obj_scheme, 'z) broker_mem_scheme broker_ops \<Rightarrow> ptr \<Rightarrow> node
    \<Rightarrow> ('a broker_obj_scheme, 'z) broker_mem_scheme
    \<Rightarrow> ('a broker_obj_scheme, 'z) broker_mem_scheme option" where
  "broker_del_obj_now ops b entry w = do {
     w \<leftarrow> obj_list_remove b entry w;
     unlock \<leftarrow> unlock_obj ops;
     unlock w entry
   }"

definition broker_del_obj ::
  "('a broker_obj_scheme, 'z) broker_mem_scheme broker_ops \<Rightarrow> ptr \<Rightarrow> ptr \<Rightarrow> int
    \<Rightarrow> ('a broker_obj_scheme, 'z) broker_mem_scheme
    \<Rightarrow> ('a broker_obj_scheme, 'z) broker_mem_scheme option" where
  "broker_del_obj ops b obj ty w = do {
     conv \<leftarrow> obj_to_broker_obj ops;
     entry \<leftarrow> conv obj ty;
     br \<leftarrow> brks w b;
     if b_client_list br = [] then broker_del_obj_now ops b entry w
     else do {
       fl \<leftarrow> get_flags w entry;
       w \<leftarrow> set_flags entry (fl OR BROKER_FLAGS_DELETE) w;
       w \<leftarrow> obj_list_remove b entry w;
       w \<leftarrow> obj_list_insert_tail b entry w;
       (i, w) \<leftarrow> next_id b w;
       set_id entry i w
     }
   }"

definition broker_upd_obj ::
  "('a broker_obj_scheme, 'z) broker_mem_scheme broker_ops \<Rightarrow> ptr \<Rightarrow> ptr \<Rightarrow> int
    \<Rightarrow> ('a broker_obj_scheme, 'z) broker_mem_scheme
    \<Rightarrow> ('a broker_obj_scheme, 'z) broker_mem_scheme option" where
  "broker_upd_obj ops b obj ty w = do {
     conv \<leftarrow> obj_to_broker_obj ops;
     entry \<leftarrow> conv obj ty;
     fl \<leftarrow> get_flags w entry;
     w \<leftarrow> (if fl AND BROKER_FLAGS_DELETE \<noteq> 0
          then set_flags entry (fl AND NOT BROKER_FLAGS_DELETE) w else Some w);
     w \<leftarrow> obj_list_remove b entry w;
     w \<leftarrow> obj_list_insert_tail b entry w;
     (i, w) \<leftarrow> next_id b w;
     set_id entry i w
   }"

section \<open>Clients\<close>

text \<open>The loop of \<open>broker_get_next_data_obj\<close> over the nodes behind the given one.\<close>

fun first_data_obj ::
  "('a broker_obj_scheme, 'z) broker_mem_scheme \<Rightarrow> node list \<Rightarrow> node option option" where
  "first_data_obj w [] = Some None"
| "first_data_obj w (n # ns) = do {
     fl \<leftarrow> get_flags w n;
     if fl AND BROKER_FLAGS_OBJ \<noteq> 0 then Some (Some n) else first_data_obj w ns
   }"

definition broker_get_next_data_obj ::
  "ptr \<Rightarrow> node \<Rightarrow> ('a broker_obj_scheme, 'z) broker_mem_scheme \<Rightarrow> node option option" where
  "broker_get_next_data_obj b n w = do {
     br \<leftarrow> brks w b;
     if n \<in> set (b_obj_list br) then first_data_obj w (after n (b_obj_list br)) else None
   }"

definition broker_has_more_data ::
  "ptr \<Rightarrow> ('a broker_obj_scheme, 'z) broker_mem_scheme \<Rightarrow> bool option" where
  "broker_has_more_data c w = do {
     cl \<leftarrow> clis w c;
     nxt \<leftarrow> broker_get_next_data_obj (cl_broker cl) (Cli c) w;
     Some (nxt \<noteq> None)
   }"

definition broker_client_create ::
  "ptr \<Rightarrow> ('a broker_obj_scheme, 'z) broker_mem_scheme broker_client_ops option \<Rightarrow> string
    \<Rightarrow> ptr \<Rightarrow> bool \<Rightarrow> ('a broker_obj_scheme, 'z) broker_mem_scheme
    \<Rightarrow> (ptr \<times> ('a broker_obj_scheme, 'z) broker_mem_scheme) option" where
  "broker_client_create b client_ops nm calloc_ret strdup_ok w =
     (if client_ops = None then Some (NULL, w)
      else if calloc_ret = NULL then Some (NULL, w)
      else if \<not> strdup_ok then Some (NULL, w)
      else do {
        let c = calloc_ret;
        let w = w\<lparr>clis := (clis w)(c \<mapsto>
              \<lparr>cl_broker = b,
               cl_obj = \<lparr>obj_type = 0, flags = BROKER_FLAGS_CLIENT, obj_id = 0\<rparr>,
               cl_flags = 0, cl_id = 0, consumed = 0, name = nm\<rparr>)\<rparr>;
        br \<leftarrow> brks w b;
        cl \<leftarrow> circleq_insert_head (\<lambda>c. clis w c \<noteq> None) c (b_client_list br);
        w \<leftarrow> upd_brk b (\<lambda>br. br\<lparr>b_client_list := cl\<rparr>) w;
        w \<leftarrow> obj_list_insert_head b (Cli c) w;
        more \<leftarrow> broker_has_more_data c w;
        br \<leftarrow> brks w b;
        w \<leftarrow> (if \<not> more then set_id (Cli c) (brk_id br) w else Some w);
        Some (c, w)
      })"

text \<open>
  The walk of \<open>broker_client_delete\<close>: \<open>cur\<close> is the loop variable (\<open>None\<close> is the queue head, where
  the loop ends). A round that removes \<open>cur\<close> goes on from the node before it. Each round visits
  one node, so one unit of fuel per node and one for the final test are enough.
\<close>

fun client_delete_walk ::
  "nat \<Rightarrow> ('a broker_obj_scheme, 'z) broker_mem_scheme broker_ops \<Rightarrow> ptr \<Rightarrow> node option
    \<Rightarrow> ('a broker_obj_scheme, 'z) broker_mem_scheme
    \<Rightarrow> ('a broker_obj_scheme, 'z) broker_mem_scheme option" where
  "client_delete_walk fuel ops b None w = Some w"
| "client_delete_walk 0 ops b (Some n) w = None"
| "client_delete_walk (Suc fuel) ops b (Some n) w = do {
     fl \<leftarrow> get_flags w n;
     needed \<leftarrow> (if fl AND BROKER_FLAGS_OBJ \<noteq> 0 \<and> fl AND BROKER_FLAGS_DELETE \<noteq> 0
                then map_option Not (no_clients_need_this b n w) else Some True);
     br \<leftarrow> brks w b;
     if \<not> needed then do {
       temp \<leftarrow> circleq_prev (Some n) (b_obj_list br);
       w \<leftarrow> broker_del_obj_now ops b n w;
       br \<leftarrow> brks w b;
       nxt \<leftarrow> circleq_next temp (b_obj_list br);
       client_delete_walk fuel ops b nxt w
     } else do {
       nxt \<leftarrow> circleq_next (Some n) (b_obj_list br);
       client_delete_walk fuel ops b nxt w
     }
   }"

definition broker_client_delete ::
  "('a broker_obj_scheme, 'z) broker_mem_scheme broker_ops \<Rightarrow> ptr
    \<Rightarrow> ('a broker_obj_scheme, 'z) broker_mem_scheme
    \<Rightarrow> ('a broker_obj_scheme, 'z) broker_mem_scheme option" where
  "broker_client_delete ops c w = do {
     cl \<leftarrow> clis w c;
     let b = cl_broker cl;
     br \<leftarrow> brks w b;
     cs \<leftarrow> circleq_remove (\<lambda>c. clis w c \<noteq> None) c (b_client_list br);
     w \<leftarrow> upd_brk b (\<lambda>br. br\<lparr>b_client_list := cs\<rparr>) w;
     w \<leftarrow> obj_list_remove b (Cli c) w;
     let w = w\<lparr>clis := (clis w)(c := None)\<rparr>;
     br \<leftarrow> brks w b;
     client_delete_walk (Suc (length (b_obj_list br))) ops b (circleq_first (b_obj_list br)) w
   }"

definition broker_client_get_data ::
  "('a broker_obj_scheme, 'z) broker_mem_scheme broker_ops
    \<Rightarrow> ('a broker_obj_scheme, 'z) broker_mem_scheme broker_client_ops \<Rightarrow> ptr
    \<Rightarrow> ('a broker_obj_scheme, 'z) broker_mem_scheme
    \<Rightarrow> (ptr \<times> ('a broker_obj_scheme, 'z) broker_mem_scheme) option" where
  "broker_client_get_data ops client_ops c w =
     (if c = NULL then Some (NULL, w)
      else do {
        cl \<leftarrow> clis w c;
        let b = cl_broker cl;
        nxt \<leftarrow> broker_get_next_data_obj b (Cli c) w;
        case nxt of
          None \<Rightarrow> do {
            br \<leftarrow> brks w b;
            w \<leftarrow> set_id (Cli c) (brk_id br) w;
            Some (NULL, w)
          }
        | Some n \<Rightarrow> do {
            fl \<leftarrow> get_flags w n;
            cb \<leftarrow> (if fl AND BROKER_FLAGS_DELETE \<noteq> 0 then del_obj client_ops else add_obj client_ops);
            (d, w) \<leftarrow> cb w n;
            w \<leftarrow> obj_list_remove b (Cli c) w;
            w \<leftarrow> obj_list_insert_after b n (Cli c) w;
            i \<leftarrow> get_id w n;
            w \<leftarrow> set_id (Cli c) i w;
            fl \<leftarrow> get_flags w n;
            w \<leftarrow> (if fl AND BROKER_FLAGS_DELETE \<noteq> 0 then do {
                   free \<leftarrow> no_clients_need_this b n w;
                   if free then broker_del_obj_now ops b n w else Some w
                 } else Some w);
            w \<leftarrow> upd_cli c (\<lambda>cl. cl\<lparr>consumed := consumed cl + 1\<rparr>) w;
            Some (d, w)
          }
      })"

section \<open>Walking the queue from its newest node\<close>

definition broker_seq_start ::
  "ptr \<Rightarrow> ('o, 'z) broker_mem_scheme \<Rightarrow> node option option" where
  "broker_seq_start b w = do {
     br \<leftarrow> brks w b;
     Some (circleq_last (b_obj_list br))
   }"

definition broker_seq_next ::
  "ptr \<Rightarrow> node \<Rightarrow> ('o, 'z) broker_mem_scheme \<Rightarrow> node option option" where
  "broker_seq_next b n w = do {
     br \<leftarrow> brks w b;
     circleq_prev (Some n) (b_obj_list br)
   }"

end
