(* ===== verification/Broker_Laws.thy ===== *)
theory Broker_Laws
  imports Broker
begin

text \<open>
  What keeps a broker correct. \<open>broker_ok\<close> is the invariant of one broker: the object queue and
  the client queue agree, every node is allocated and carries the flags of its kind, the stamps
  order the queue, and every object marked as deleted is still owed to some client. The locale
  \<open>broker_callbacks\<close> is the contract of the callbacks a broker is created with; inside it every
  operation of \<open>broker.c\<close> is shown to run without a fault, with its exact effect.
\<close>

section \<open>Headers\<close>

text \<open>
  A header is read from the heap of the objects or from the heap of the clients, so everything
  said about queued nodes is said over these two heaps.
\<close>

type_synonym 'a obj_heap = "ptr \<rightharpoonup> 'a broker_obj_scheme"
type_synonym cli_heap = "ptr \<rightharpoonup> broker_client"

fun hflags :: "'a obj_heap \<Rightarrow> cli_heap \<Rightarrow> node \<Rightarrow> u32 option" where
  "hflags os cs (Obj p) = map_option flags (os p)"
| "hflags os cs (Cli c) = map_option (flags \<circ> cl_obj) (cs c)"

fun hid :: "'a obj_heap \<Rightarrow> cli_heap \<Rightarrow> node \<Rightarrow> u64 option" where
  "hid os cs (Obj p) = map_option obj_id (os p)"
| "hid os cs (Cli c) = map_option (obj_id \<circ> cl_obj) (cs c)"

fun alive :: "'a obj_heap \<Rightarrow> cli_heap \<Rightarrow> node \<Rightarrow> bool" where
  "alive os cs (Obj p) = (os p \<noteq> None)"
| "alive os cs (Cli c) = (cs c \<noteq> None)"

definition nid :: "'a obj_heap \<Rightarrow> cli_heap \<Rightarrow> node \<Rightarrow> u64" where
  "nid os cs n = (case hid os cs n of Some i \<Rightarrow> i | None \<Rightarrow> 0)"

definition ndel :: "'a obj_heap \<Rightarrow> cli_heap \<Rightarrow> node \<Rightarrow> bool" where
  "ndel os cs n = (case hflags os cs n of Some f \<Rightarrow> f AND BROKER_FLAGS_DELETE \<noteq> 0 | None \<Rightarrow> False)"

fun is_Obj :: "node \<Rightarrow> bool" where
  "is_Obj (Obj _) = True"
| "is_Obj (Cli _) = False"

fun kind_flags :: "node \<Rightarrow> u32 \<Rightarrow> bool" where
  "kind_flags (Obj _) f = (f = BROKER_FLAGS_OBJ \<or> f = BROKER_FLAGS_OBJ OR BROKER_FLAGS_DELETE)"
| "kind_flags (Cli _) f = (f = BROKER_FLAGS_CLIENT)"

lemma get_flags_eq [simp]: "get_flags w = hflags (objs w) (clis w)"
  by (rule ext) (auto simp: get_flags_def split: node.split)

lemma get_id_eq [simp]: "get_id w = hid (objs w) (clis w)"
  by (rule ext) (auto simp: get_id_def split: node.split)

lemma node_ok_eq [simp]: "node_ok w = alive (objs w) (clis w)"
  by (rule ext) (auto simp: node_ok_def split: node.split)

lemma kind_flags_OBJ_bit: "kind_flags n f \<Longrightarrow> (f AND BROKER_FLAGS_OBJ \<noteq> 0) = is_Obj n"
  by (cases n) auto

lemma is_Obj_conv: "is_Obj n \<longleftrightarrow> (\<exists>p. n = Obj p)"
  by (cases n) auto

lemma hdr_objs [simp]:
  "hflags (os(p \<mapsto> ob)) cs = (hflags os cs)(Obj p \<mapsto> flags ob)"
  "hid (os(p \<mapsto> ob)) cs = (hid os cs)(Obj p \<mapsto> obj_id ob)"
  "nid (os(p \<mapsto> ob)) cs = (nid os cs)(Obj p := obj_id ob)"
  "ndel (os(p \<mapsto> ob)) cs = (ndel os cs)(Obj p := flags ob AND BROKER_FLAGS_DELETE \<noteq> 0)"
  subgoal hf by (rule ext) (case_tac x; simp)
  subgoal hi by (rule ext) (case_tac x; simp)
  by (simp_all add: fun_eq_iff nid_def ndel_def hf hi)

lemma hdr_clis [simp]:
  "hflags os (cs(c \<mapsto> cl)) = (hflags os cs)(Cli c \<mapsto> flags (cl_obj cl))"
  "hid os (cs(c \<mapsto> cl)) = (hid os cs)(Cli c \<mapsto> obj_id (cl_obj cl))"
  "nid os (cs(c \<mapsto> cl)) = (nid os cs)(Cli c := obj_id (cl_obj cl))"
  "ndel os (cs(c \<mapsto> cl)) = (ndel os cs)(Cli c := flags (cl_obj cl) AND BROKER_FLAGS_DELETE \<noteq> 0)"
  subgoal hf by (rule ext) (case_tac x; simp)
  subgoal hi by (rule ext) (case_tac x; simp)
  by (simp_all add: fun_eq_iff nid_def ndel_def hf hi)

lemma alive_upd [simp]:
  "alive (os(p \<mapsto> ob)) cs n \<longleftrightarrow> n = Obj p \<or> alive os cs n"
  "alive os (cs(c \<mapsto> cl)) n \<longleftrightarrow> n = Cli c \<or> alive os cs n"
  by (cases n; auto)+

lemmas mem_defs = set_obj_type_def set_flags_def set_id_def next_id_def upd_obj_def upd_cli_def
  upd_brk_def obj_list_insert_tail_def obj_list_insert_head_def obj_list_insert_after_def
  obj_list_remove_def Let_def

section \<open>Queues ordered by a stamp\<close>

text \<open>
  An object is newer than everything in front of it; a client is not older than the objects in
  front of it. Two clients are not compared.
\<close>

definition stamp_le :: "(node \<Rightarrow> u64) \<Rightarrow> node \<Rightarrow> node \<Rightarrow> bool" where
  "stamp_le f m n =
     (if is_Obj n then f m < f n else is_Obj m \<longrightarrow> f m \<le> f n)"

definition in_order :: "(node \<Rightarrow> u64) \<Rightarrow> node list \<Rightarrow> bool" where
  "in_order f xs = sorted_wrt (stamp_le f) xs"

lemma in_order_cong: "(\<And>n. n \<in> set xs \<Longrightarrow> f n = g n) \<Longrightarrow> in_order f xs = in_order g xs"
  unfolding in_order_def
  by (rule iffI; erule sorted_wrt_mono_rel [rotated]) (auto simp: stamp_le_def)

lemma in_order_upd [simp]: "n \<notin> set xs \<Longrightarrow> in_order (f(n := k)) xs = in_order f xs"
  by (rule in_order_cong) auto

lemma in_order_append:
  "in_order f (xs @ ys) \<longleftrightarrow>
     in_order f xs \<and> in_order f ys \<and> (\<forall>x\<in>set xs. \<forall>y\<in>set ys. stamp_le f x y)"
  by (simp add: in_order_def sorted_wrt_append)

lemma in_order_Cons:
  "in_order f (x # xs) \<longleftrightarrow> (\<forall>y\<in>set xs. stamp_le f x y) \<and> in_order f xs"
  by (simp add: in_order_def)

lemma in_order_Nil [simp]: "in_order f []"
  by (simp add: in_order_def)

lemma in_order_remove1: "in_order f xs \<Longrightarrow> in_order f (remove1 n xs)"
  by (simp add: in_order_def sorted_wrt_remove1)

lemma in_order_filter: "in_order f xs \<Longrightarrow> in_order f (filter P xs)"
  by (simp add: in_order_def sorted_wrt_filter)

lemma in_order_snoc_new:
  assumes "in_order f xs" and "n \<notin> set xs" and "is_Obj n" and "\<And>m. m \<in> set xs \<Longrightarrow> f m < k"
  shows "in_order (f(n := k)) (xs @ [n])"
  using assms by (auto simp: in_order_append in_order_Cons stamp_le_def)

lemma in_order_move_to_tail:
  assumes "in_order f xs" and "distinct xs" and "is_Obj n" and "\<And>m. m \<in> set xs \<Longrightarrow> f m < k"
  shows "in_order (f(n := k)) (remove1 n xs @ [n])"
  using assms by (intro in_order_snoc_new in_order_remove1) (auto dest: notin_set_remove1)

lemma in_order_new_client:
  assumes "in_order f xs" and "Cli c \<notin> set xs"
    and "\<And>p. Obj p \<in> set xs \<Longrightarrow> k < f (Obj p)"
  shows "in_order (f(Cli c := k)) (Cli c # xs)"
proof -
  have "stamp_le (f(Cli c := k)) (Cli c) y" if "y \<in> set xs" for y
    using assms(2,3) that by (cases y) (auto simp: stamp_le_def)
  then show ?thesis using assms(1,2) by (simp add: in_order_Cons)
qed

lemma in_order_client_behind:
  assumes "in_order f xs" and "Cli c \<notin> set xs" and "n \<in> set xs" and "is_Obj n"
  shows "in_order (f(Cli c := f n)) (before n xs @ n # Cli c # after n xs)"
proof -
  let ?g = "f(Cli c := f n)"
  have split: "xs = before n xs @ n # after n xs" using assms(3) by (rule before_after)
  have io: "in_order ?g (before n xs @ n # after n xs)"
    using assms(1,2) split by simp
  have b: "stamp_le ?g m (Cli c)" if "m \<in> set (before n xs)" for m
  proof -
    have "stamp_le f m n"
      using sorted_wrt_before_after(1) [OF assms(1)[unfolded in_order_def] assms(3) that] .
    then show ?thesis using assms(2,4) that set_before [of n xs] by (auto simp: stamp_le_def)
  qed
  have a: "stamp_le ?g (Cli c) m" if "m \<in> set (after n xs)" for m
  proof -
    have "stamp_le f n m"
      using sorted_wrt_before_after(2) [OF assms(1)[unfolded in_order_def] assms(3) that] .
    then show ?thesis using assms(2) that set_after [of n xs] by (auto simp: stamp_le_def)
  qed
  have "stamp_le ?g n (Cli c)" using assms(4) by (cases n) (auto simp: stamp_le_def)
  with io a b show ?thesis by (auto simp: in_order_append in_order_Cons)
qed

lemma in_order_client_to_top:
  assumes "in_order f xs" and "Cli c \<in> set xs" and "distinct xs"
    and "\<And>m. m \<in> set (after (Cli c) xs) \<Longrightarrow> \<not> is_Obj m"
    and "\<And>m. m \<in> set xs \<Longrightarrow> f m \<le> k"
  shows "in_order (f(Cli c := k)) xs"
proof -
  let ?g = "f(Cli c := k)"
  have split: "xs = before (Cli c) xs @ Cli c # after (Cli c) xs" using assms(2) by (rule before_after)
  have io: "in_order f (before (Cli c) xs @ Cli c # after (Cli c) xs)"
    using assms(1) split by simp
  have "in_order ?g (before (Cli c) xs)" "in_order ?g (after (Cli c) xs)"
    using io not_in_after [OF assms(3), of "Cli c"]
    by (simp_all add: in_order_append in_order_Cons)
  moreover have "stamp_le ?g m (Cli c)" if "m \<in> set (before (Cli c) xs)" for m
    using assms(5) that set_before [of "Cli c" xs] by (auto simp: stamp_le_def)
  moreover have "stamp_le ?g (Cli c) m" if "m \<in> set (after (Cli c) xs)" for m
    using assms(4) [OF that] by (simp add: stamp_le_def)
  moreover have "stamp_le ?g m m'"
    if "m \<in> set (before (Cli c) xs)" "m' \<in> set (after (Cli c) xs)" for m m'
    using that io assms(4) not_in_after [OF assms(3), of "Cli c"]
    by (auto simp: in_order_append in_order_Cons stamp_le_def)
  ultimately have "in_order ?g (before (Cli c) xs @ Cli c # after (Cli c) xs)"
    by (auto simp: in_order_append in_order_Cons)
  with split show ?thesis by simp
qed

section \<open>The invariant of one broker\<close>

definition clients_agree :: "ptr \<Rightarrow> broker \<Rightarrow> (ptr \<rightharpoonup> broker_client) \<Rightarrow> bool" where
  "clients_agree b br cs \<longleftrightarrow>
     distinct (b_client_list br) \<and>
     (\<forall>c. Cli c \<in> set (b_obj_list br) \<longleftrightarrow> c \<in> set (b_client_list br)) \<and>
     (\<forall>c \<in> set (b_client_list br). \<exists>cl. cs c = Some cl \<and> cl_broker cl = b \<and> c \<noteq> NULL)"

definition node_wf :: "broker \<Rightarrow> 'a obj_heap \<Rightarrow> cli_heap \<Rightarrow> node \<Rightarrow> bool" where
  "node_wf br os cs n \<longleftrightarrow>
     (\<exists>f i. hflags os cs n = Some f \<and> hid os cs n = Some i \<and> kind_flags n f \<and> i \<le> brk_id br
        \<and> (is_Obj n \<longrightarrow> 0 < i))"

definition owed :: "broker \<Rightarrow> 'a obj_heap \<Rightarrow> cli_heap \<Rightarrow> node \<Rightarrow> bool" where
  "owed br os cs n \<longleftrightarrow> (\<exists>c \<in> set (b_client_list br). nid os cs (Cli c) < nid os cs n)"

definition broker_wf :: "ptr \<Rightarrow> broker \<Rightarrow> 'a obj_heap \<Rightarrow> cli_heap \<Rightarrow> bool" where
  "broker_wf b br os cs \<longleftrightarrow>
     distinct (b_obj_list br) \<and> clients_agree b br cs \<and>
     (\<forall>n \<in> set (b_obj_list br). node_wf br os cs n) \<and>
     in_order (nid os cs) (b_obj_list br)"

definition no_garbage :: "broker \<Rightarrow> 'a obj_heap \<Rightarrow> cli_heap \<Rightarrow> bool" where
  "no_garbage br os cs \<longleftrightarrow> (\<forall>n \<in> set (b_obj_list br). ndel os cs n \<longrightarrow> owed br os cs n)"

definition broker_ok :: "ptr \<Rightarrow> broker \<Rightarrow> 'a obj_heap \<Rightarrow> cli_heap \<Rightarrow> bool" where
  "broker_ok b br os cs \<longleftrightarrow> broker_wf b br os cs \<and> no_garbage br os cs"

lemma node_wf_ok: "node_wf br os cs n \<Longrightarrow> alive os cs n"
  by (cases n) (auto simp: node_wf_def)

lemma broker_wfD:
  assumes "broker_wf b br os cs"
  shows "distinct (b_obj_list br)" "clients_agree b br cs"
    "\<And>n. n \<in> set (b_obj_list br) \<Longrightarrow> node_wf br os cs n"
    "in_order (nid os cs) (b_obj_list br)"
  using assms by (auto simp: broker_wf_def)

lemma broker_wf_nodes: "broker_wf b br os cs \<Longrightarrow> \<forall>n \<in> set (b_obj_list br). alive os cs n"
  by (auto simp: broker_wf_def node_wf_ok)

lemma broker_wf_clients: "broker_wf b br os cs \<Longrightarrow> \<forall>c \<in> set (b_client_list br). cs c \<noteq> None"
  by (auto simp: broker_wf_def clients_agree_def)

lemma broker_wf_client:
  assumes "broker_wf b br os cs" and "c \<in> set (b_client_list br)"
  obtains cl where "cs c = Some cl" "cl_broker cl = b" "c \<noteq> NULL" "Cli c \<in> set (b_obj_list br)"
  using assms by (auto simp: broker_wf_def clients_agree_def)

lemma broker_wf_no_obj:
  assumes "broker_wf b br os cs" and "n \<in> set (b_obj_list br)"
  shows "set (remove1 n (b_obj_list br)) = set (b_obj_list br) - {n}"
  using broker_wfD(1) [OF assms(1)] by (rule set_remove1_eq)

lemma node_wfD:
  assumes "node_wf br os cs n"
  shows "hid os cs n = Some (nid os cs n)" "nid os cs n \<le> brk_id br" "is_Obj n \<Longrightarrow> 0 < nid os cs n"
  using assms by (auto simp: node_wf_def nid_def)

text \<open>The invariant looks at the headers of the queued nodes and the owners of the clients.\<close>

definition same_node ::
  "'a obj_heap \<Rightarrow> cli_heap \<Rightarrow> 'b obj_heap \<Rightarrow> cli_heap \<Rightarrow> node \<Rightarrow> bool" where
  "same_node os cs os' cs' n \<longleftrightarrow>
     hflags os' cs' n = hflags os cs n \<and> hid os' cs' n = hid os cs n \<and>
     (\<forall>c. n = Cli c \<longrightarrow> map_option cl_broker (cs' c) = map_option cl_broker (cs c))"

lemma same_node_nid: "same_node os cs os' cs' n \<Longrightarrow> nid os' cs' n = nid os cs n"
  by (simp add: same_node_def nid_def)

lemma same_node_ndel: "same_node os cs os' cs' n \<Longrightarrow> ndel os' cs' n = ndel os cs n"
  by (simp add: same_node_def ndel_def)

lemma same_node_wf: "same_node os cs os' cs' n \<Longrightarrow> node_wf br os' cs' n = node_wf br os cs n"
  by (simp add: same_node_def node_wf_def)

lemma clients_agree_same:
  assumes "clients_agree b br cs" and "\<And>n. n \<in> set (b_obj_list br) \<Longrightarrow> same_node os cs os' cs' n"
  shows "clients_agree b br cs'"
  unfolding clients_agree_def
proof (intro conjI ballI)
  fix c assume c: "c \<in> set (b_client_list br)"
  with assms(1) have "Cli c \<in> set (b_obj_list br)" by (auto simp: clients_agree_def)
  from assms(2) [OF this] have "map_option cl_broker (cs' c) = map_option cl_broker (cs c)"
    by (simp add: same_node_def)
  with assms(1) c show "\<exists>cl. cs' c = Some cl \<and> cl_broker cl = b \<and> c \<noteq> NULL"
    by (fastforce simp: clients_agree_def)
qed (use assms(1) in \<open>auto simp: clients_agree_def\<close>)

lemma broker_wf_same:
  assumes "broker_wf b br os cs" and same: "\<And>n. n \<in> set (b_obj_list br) \<Longrightarrow> same_node os cs os' cs' n"
  shows "broker_wf b br os' cs'"
proof -
  note wfD = broker_wfD [OF assms(1)]
  have "in_order (nid os' cs') (b_obj_list br)"
    using wfD(4) same by (subst in_order_cong [of _ _ "nid os cs"]) (auto simp: same_node_nid)
  then show ?thesis
    using wfD(1,3) clients_agree_same [OF wfD(2) same] same_node_wf [OF same]
    by (auto simp: broker_wf_def)
qed

lemma owed_same:
  assumes "clients_agree b br cs" and same: "\<And>n. n \<in> set (b_obj_list br) \<Longrightarrow> same_node os cs os' cs' n"
    and "n \<in> set (b_obj_list br)"
  shows "owed br os' cs' n = owed br os cs n"
proof -
  have "nid os' cs' (Cli c) = nid os cs (Cli c)" if "c \<in> set (b_client_list br)" for c
    using assms(1) that by (intro same_node_nid same) (auto simp: clients_agree_def)
  then show ?thesis
    using same_node_nid [OF same [OF assms(3)]] by (auto simp: owed_def)
qed

lemma broker_ok_same:
  assumes "broker_ok b br os cs" and same: "\<And>n. n \<in> set (b_obj_list br) \<Longrightarrow> same_node os cs os' cs' n"
  shows "broker_ok b br os' cs'"
proof -
  have wf: "broker_wf b br os cs" using assms(1) by (simp add: broker_ok_def)
  show ?thesis
    using assms(1) broker_wf_same [OF wf same] owed_same [OF broker_wfD(2) [OF wf] same]
      same_node_ndel [OF same]
    by (auto simp: broker_ok_def no_garbage_def)
qed

section \<open>Reading the queue\<close>

lemma first_data_obj_find:
  "\<forall>n \<in> set ns. node_wf br (objs w) (clis w) n \<Longrightarrow> first_data_obj w ns = Some (find is_Obj ns)"
proof (induction ns)
  case (Cons n ns)
  then obtain f where "hflags (objs w) (clis w) n = Some f" "kind_flags n f" by (auto simp: node_wf_def)
  with Cons show ?case by (simp add: kind_flags_OBJ_bit)
qed simp

lemma min_client_id_le:
  "\<forall>c \<in> set cs. clis w c \<noteq> None \<Longrightarrow>
     \<exists>m. min_client_id w cs i = Some m \<and>
         (\<forall>e. e \<le> m \<longleftrightarrow> e \<le> i \<and> (\<forall>c \<in> set cs. e \<le> nid (objs w) (clis w) (Cli c)))"
proof (induction cs arbitrary: i)
  case (Cons c cs)
  then obtain cl where cl: "clis w c = Some cl" by auto
  let ?j = "obj_id (cl_obj cl)"
  from Cons.IH [of "if ?j < i then ?j else i"] Cons.prems obtain m where
    m: "min_client_id w cs (if ?j < i then ?j else i) = Some m"
    "\<forall>e. e \<le> m \<longleftrightarrow> e \<le> (if ?j < i then ?j else i) \<and> (\<forall>c \<in> set cs. e \<le> nid (objs w) (clis w) (Cli c))"
    by (metis list.set_intros(2))
  have "nid (objs w) (clis w) (Cli c) = ?j" by (simp add: nid_def cl)
  with m cl show ?case by (auto split: if_splits)
qed simp

lemma no_clients_need_this_eq:
  assumes "brks w b = Some br" and "\<forall>c \<in> set (b_client_list br). clis w c \<noteq> None"
    and "hid (objs w) (clis w) n = Some e"
  shows "no_clients_need_this b n w = Some (\<not> owed br (objs w) (clis w) n)"
proof -
  have e: "nid (objs w) (clis w) n = e" by (simp add: nid_def assms(3))
  obtain m where m: "min_client_id w (b_client_list br) (NOT 0) = Some m"
    "\<forall>e. e \<le> m \<longleftrightarrow> e \<le> NOT 0 \<and> (\<forall>c \<in> set (b_client_list br). e \<le> nid (objs w) (clis w) (Cli c))"
    using min_client_id_le [OF assms(2)] by blast
  have "(e \<le> m) = (\<not> owed br (objs w) (clis w) n)"
    using m(2) by (auto simp: owed_def e not_less)
  then show ?thesis
    using assms m(1) by (auto simp: no_clients_need_this_def owed_def)
qed

lemma next_data_eq:
  assumes "brks w b = Some br" and "broker_wf b br (objs w) (clis w)" and "n \<in> set (b_obj_list br)"
  shows "broker_get_next_data_obj b n w = Some (find is_Obj (after n (b_obj_list br)))"
proof -
  have "\<forall>n \<in> set (after n (b_obj_list br)). node_wf br (objs w) (clis w) n"
    using assms(2) set_after [of n "b_obj_list br"] by (auto simp: broker_wf_def)
  then show ?thesis
    using assms(1,3) by (simp add: broker_get_next_data_obj_def first_data_obj_find)
qed

text \<open>The node of a client separates what it has been given from what it has not.\<close>

lemma client_separates:
  assumes "broker_wf b br os cs" and "Cli c \<in> set (b_obj_list br)" and "Obj p \<in> set (b_obj_list br)"
  shows "Obj p \<in> set (after (Cli c) (b_obj_list br)) \<longleftrightarrow> nid os cs (Cli c) < nid os cs (Obj p)"
proof -
  note okD = broker_wfD [OF assms(1)]
  have split: "b_obj_list br = before (Cli c) (b_obj_list br) @ Cli c # after (Cli c) (b_obj_list br)"
    using assms(2) by (rule before_after)
  have "stamp_le (nid os cs) (Cli c) (Obj p)" if "Obj p \<in> set (after (Cli c) (b_obj_list br))"
    using sorted_wrt_before_after(2) [OF okD(4)[unfolded in_order_def] assms(2) that] .
  moreover have "stamp_le (nid os cs) (Obj p) (Cli c)" if "Obj p \<in> set (before (Cli c) (b_obj_list br))"
    using sorted_wrt_before_after(1) [OF okD(4)[unfolded in_order_def] assms(2) that] .
  moreover have "Obj p \<in> set (before (Cli c) (b_obj_list br)) \<or> Obj p \<in> set (after (Cli c) (b_obj_list br))"
    using assms(3) by (subst (asm) split) auto
  ultimately show ?thesis by (auto simp: stamp_le_def)
qed

lemma flags_idem: "flags ob = f \<Longrightarrow> ob\<lparr>flags := f\<rparr> = ob"
  by (cases ob) simp

section \<open>The contract of the callbacks\<close>

text \<open>
  \<open>same_ext\<close>: two objects that differ in stamp and flags only. \<open>owned x w\<close> is whatever the user
  keeps true of his part of the objects and of the memory, so that every allocated object can be
  released once; \<open>owned None w\<close> says it of all objects, \<open>owned (Some p) w\<close> of all objects but
  \<open>p\<close>. \<open>fresh_obj p w\<close> says that \<open>p\<close> becomes such an object by being locked.
\<close>

definition same_ext :: "'a broker_obj_scheme \<Rightarrow> 'a broker_obj_scheme \<Rightarrow> bool" where
  "same_ext ob ob' \<longleftrightarrow> broker_obj.more ob' = broker_obj.more ob \<and> obj_type ob' = obj_type ob"

lemma same_ext_simps [simp]:
  "same_ext ob ob" "same_ext ob (ob\<lparr>flags := f\<rparr>)" "same_ext ob (ob\<lparr>obj_id := i\<rparr>)"
  "same_ext ob (ob\<lparr>flags := f, obj_id := i\<rparr>)"
  by (simp_all add: same_ext_def)

definition same_exts ::
  "('a broker_obj_scheme, 'z) broker_mem_scheme \<Rightarrow> ('a broker_obj_scheme, 'z) broker_mem_scheme \<Rightarrow> bool" where
  "same_exts w w' \<longleftrightarrow>
     broker_mem.more w' = broker_mem.more w \<and> (\<forall>p. rel_option same_ext (objs w p) (objs w' p))"

text \<open>Unlinking an object and releasing it, for a broker whose \<open>unlock_obj\<close> acts as \<open>rel\<close>.\<close>

definition release_step ::
  "(ptr \<Rightarrow> ('o, 'z) broker_mem_scheme \<Rightarrow> ('o, 'z) broker_mem_scheme) \<Rightarrow> ptr \<Rightarrow> ptr
    \<Rightarrow> ('o, 'z) broker_mem_scheme \<Rightarrow> ('o, 'z) broker_mem_scheme" where
  "release_step rel b p w =
     rel p (w\<lparr>brks := (brks w)(b := map_option
       (\<lambda>br. br\<lparr>b_obj_list := remove1 (Obj p) (b_obj_list br)\<rparr>) (brks w b))\<rparr>)"

locale broker_callbacks =
  fixes ops :: "('a broker_obj_scheme, 'z) broker_mem_scheme broker_ops"
    and ty :: int
    and grab :: "'a broker_obj_scheme \<Rightarrow> 'a broker_obj_scheme"
    and release :: "ptr \<Rightarrow> ('a broker_obj_scheme, 'z) broker_mem_scheme
                    \<Rightarrow> ('a broker_obj_scheme, 'z) broker_mem_scheme"
    and owned :: "ptr option \<Rightarrow> ('a broker_obj_scheme, 'z) broker_mem_scheme \<Rightarrow> bool"
    and fresh_obj :: "ptr \<Rightarrow> ('a broker_obj_scheme, 'z) broker_mem_scheme \<Rightarrow> bool"
  assumes conv: "\<exists>f. obj_to_broker_obj ops = Some f \<and> (\<forall>p. p \<noteq> NULL \<longrightarrow> f p ty = Some (Obj p))"
    and lock: "\<exists>f. lock_obj ops = Some f \<and>
      (\<forall>w p ob. objs w p = Some ob \<and> obj_type ob = word_of_int ty \<longrightarrow>
         f w (Obj p) = Some (w\<lparr>objs := (objs w)(p \<mapsto> grab ob)\<rparr>))"
    and unlock: "\<exists>f. unlock_obj ops = Some f \<and>
      (\<forall>w p x. owned x w \<and> x \<noteq> Some p \<and> objs w p \<noteq> None \<longrightarrow> f w (Obj p) = Some (release p w))"
    and grab_hdr: "flags (grab ob) = flags ob" "obj_id (grab ob) = obj_id ob"
    and release_mem: "objs (release p w) = (objs w)(p := None)" "clis (release p w) = clis w"
      "brks (release p w) = brks w" "broker_list_head (release p w) = broker_list_head w"
      "inited (release p w) = inited w"
    and owned_release: "owned x w \<Longrightarrow> x \<noteq> Some p \<Longrightarrow> objs w p \<noteq> None \<Longrightarrow> owned x (release p w)"
    and owned_same: "owned x w \<Longrightarrow> same_exts w w' \<Longrightarrow> owned x w'"
    and owned_grab: "fresh_obj p w \<Longrightarrow> objs w p = Some ob \<Longrightarrow>
      broker_mem.more w' = broker_mem.more w \<Longrightarrow>
      objs w' = (objs w)(p \<mapsto> grab (ob\<lparr>obj_type := word_of_int ty, flags := f, obj_id := i\<rparr>)) \<Longrightarrow>
      owned None w'"
begin

text \<open>A call through a function pointer of the table, in the form the operations have it.\<close>

lemma conv_call:
  "p \<noteq> NULL \<Longrightarrow> Option.bind (obj_to_broker_obj ops) (\<lambda>f. Option.bind (f p ty) k) = k (Obj p)"
  using conv by auto

lemma lock_call:
  "objs w p = Some ob \<Longrightarrow> obj_type ob = word_of_int ty \<Longrightarrow>
     Option.bind (lock_obj ops) (\<lambda>f. Option.bind (f w (Obj p)) k) =
       k (w\<lparr>objs := (objs w)(p \<mapsto> grab ob)\<rparr>)"
  using lock by auto

lemma unlock_call:
  "owned x w \<Longrightarrow> x \<noteq> Some p \<Longrightarrow> objs w p \<noteq> None \<Longrightarrow>
     Option.bind (unlock_obj ops) (\<lambda>f. f w (Obj p)) = Some (release p w)"
  using unlock by force

lemma broker_add_obj_eq:
  assumes "brks w b = Some br" and "broker_wf b br (objs w) (clis w)" and "objs w p = Some ob" and "p \<noteq> NULL"
    and "Obj p \<notin> set (b_obj_list br)"
  shows "broker_add_obj ops b p ty w =
    Some (w\<lparr>objs := (objs w)(p \<mapsto> grab (ob\<lparr>obj_type := word_of_int ty, flags := BROKER_FLAGS_OBJ,
                                         obj_id := brk_id br + 1\<rparr>)),
            brks := (brks w)(b \<mapsto> br\<lparr>brk_id := brk_id br + 1,
                                     b_obj_list := b_obj_list br @ [Obj p]\<rparr>)\<rparr>)"
  using assms broker_wf_nodes [OF assms(2)]
  by (simp add: broker_add_obj_def conv_call lock_call mem_defs circleq_simps)

lemma broker_del_obj_mark_eq:
  assumes "brks w b = Some br" and "broker_wf b br (objs w) (clis w)" and "objs w p = Some ob" and "p \<noteq> NULL"
    and "Obj p \<in> set (b_obj_list br)" and "b_client_list br \<noteq> []"
  shows "broker_del_obj ops b p ty w =
    Some (w\<lparr>objs := (objs w)(p \<mapsto> ob\<lparr>flags := flags ob OR BROKER_FLAGS_DELETE,
                                    obj_id := brk_id br + 1\<rparr>),
            brks := (brks w)(b \<mapsto> br\<lparr>b_obj_list := remove1 (Obj p) (b_obj_list br) @ [Obj p],
                                     brk_id := brk_id br + 1\<rparr>)\<rparr>)"
  using assms broker_wf_nodes [OF assms(2)]
  by (simp add: broker_del_obj_def conv_call mem_defs circleq_simps broker_wf_no_obj)

lemma broker_del_obj_none_eq:
  assumes "brks w b = Some br" and "p \<noteq> NULL" and "b_client_list br = []"
  shows "broker_del_obj ops b p ty w = broker_del_obj_now ops b (Obj p) w"
  using assms by (simp add: broker_del_obj_def conv_call)

lemma broker_upd_obj_eq:
  assumes "brks w b = Some br" and "broker_wf b br (objs w) (clis w)" and "objs w p = Some ob" and "p \<noteq> NULL"
    and "Obj p \<in> set (b_obj_list br)"
  shows "broker_upd_obj ops b p ty w =
    Some (w\<lparr>objs := (objs w)(p \<mapsto> ob\<lparr>flags := flags ob AND NOT BROKER_FLAGS_DELETE,
                                    obj_id := brk_id br + 1\<rparr>),
            brks := (brks w)(b \<mapsto> br\<lparr>b_obj_list := remove1 (Obj p) (b_obj_list br) @ [Obj p],
                                     brk_id := brk_id br + 1\<rparr>)\<rparr>)"
proof -
  have "flags ob = 1 \<or> flags ob = 5"
    using broker_wfD(3) [OF assms(2,5)] assms(3) by (auto simp: node_wf_def)
  then show ?thesis
    using assms broker_wf_nodes [OF assms(2)]
    by (auto simp add: broker_upd_obj_def conv_call mem_defs circleq_simps broker_wf_no_obj
        flags_idem)
qed

lemma release_step_mem [simp]:
  "objs (release_step release b p w) = (objs w)(p := None)" "clis (release_step release b p w) = clis w"
  "brks (release_step release b p w) = (brks w)(b := map_option
     (\<lambda>br. br\<lparr>b_obj_list := remove1 (Obj p) (b_obj_list br)\<rparr>) (brks w b))"
  "broker_list_head (release_step release b p w) = broker_list_head w"
  "inited (release_step release b p w) = inited w"
  by (simp_all add: release_step_def release_mem)

lemma owned_brks: "owned x w \<Longrightarrow> owned x (w\<lparr>brks := bs\<rparr>)"
  by (erule owned_same) (simp add: same_exts_def option.rel_refl)

lemma owned_clis: "owned x w \<Longrightarrow> owned x (w\<lparr>clis := cs\<rparr>)"
  by (erule owned_same) (simp add: same_exts_def option.rel_refl)

lemma owned_release_step:
  "owned x w \<Longrightarrow> x \<noteq> Some p \<Longrightarrow> objs w p \<noteq> None \<Longrightarrow> owned x (release_step release b p w)"
  by (simp add: release_step_def owned_release owned_brks)

lemma broker_del_obj_now_step:
  assumes "brks w b = Some br" and "broker_wf b br (objs w) (clis w)" and "owned x w"
    and "x \<noteq> Some p" and "Obj p \<in> set (b_obj_list br)"
  shows "broker_del_obj_now ops b (Obj p) w = Some (release_step release b p w)"
proof -
  have "objs w p \<noteq> None" using broker_wf_nodes [OF assms(2)] assms(5) by fastforce
  then show ?thesis
    using assms broker_wf_nodes [OF assms(2)]
    by (simp add: broker_del_obj_now_def unlock_call [where x = x] mem_defs circleq_simps owned_brks
        release_step_def)
qed

end

section \<open>Releasing the objects nobody waits for\<close>


text \<open>The marked objects of a stretch of the queue that no client waits for.\<close>

fun garbage :: "broker \<Rightarrow> 'a obj_heap \<Rightarrow> cli_heap \<Rightarrow> node list \<Rightarrow> ptr list" where
  "garbage br os cs [] = []"
| "garbage br os cs (Cli c # ns) = garbage br os cs ns"
| "garbage br os cs (Obj p # ns) =
     (if ndel os cs (Obj p) \<and> \<not> owed br os cs (Obj p) then p # garbage br os cs ns
      else garbage br os cs ns)"

lemma set_garbage:
  "set (garbage br os cs ns) =
     {p. Obj p \<in> set ns \<and> ndel os cs (Obj p) \<and> \<not> owed br os cs (Obj p)}"
  by (induction br os cs ns rule: garbage.induct) auto

lemma distinct_garbage: "distinct ns \<Longrightarrow> distinct (garbage br os cs ns)"
  by (induction br os cs ns rule: garbage.induct) (auto simp: set_garbage)

lemma garbage_cong:
  "(\<And>p. Obj p \<in> set ns \<Longrightarrow> ndel os cs (Obj p) = ndel os' cs' (Obj p)
       \<and> owed br os cs (Obj p) = owed br' os' cs' (Obj p)) \<Longrightarrow>
     garbage br os cs ns = garbage br' os' cs' ns"
proof (induction ns)
  case (Cons n ns)
  then show ?case by (cases n) auto
qed simp

lemma circleq_next_after_prev:
  assumes "distinct (xs @ ys)"
  shows "circleq_next (circleq_last xs) (xs @ ys) = Some (circleq_first ys)"
proof (cases xs rule: rev_cases)
  case (snoc zs z)
  then show ?thesis using assms by (auto simp: circleq_next_def circleq_last_def)
qed (simp add: circleq_next_def circleq_last_def)

lemma same_node_free:
  "n \<noteq> Obj p \<Longrightarrow> same_node os cs (os(p := None)) cs n"
  by (cases n) (auto simp: same_node_def)

lemma nid_free: "n \<noteq> Obj p \<Longrightarrow> nid (os(p := None)) cs n = nid os cs n"
  by (cases n) (auto simp: nid_def)

lemma owed_free: "n \<noteq> Obj p \<Longrightarrow> owed br (os(p := None)) cs n = owed br os cs n"
  by (simp add: owed_def nid_free)

lemma broker_wf_unlink:
  assumes "broker_wf b br os cs"
  shows "broker_wf b (br\<lparr>b_obj_list := remove1 (Obj p) (b_obj_list br)\<rparr>) (os(p := None)) cs"
proof (rule broker_wf_same [where os = os and cs = cs])
  note wfD = broker_wfD [OF assms]
  show "broker_wf b (br\<lparr>b_obj_list := remove1 (Obj p) (b_obj_list br)\<rparr>) os cs"
    using wfD by (auto simp: broker_wf_def clients_agree_def node_wf_def in_order_remove1
        dest: notin_set_remove1)
  show "same_node os cs (os(p := None)) cs n"
    if "n \<in> set (b_obj_list (br\<lparr>b_obj_list := remove1 (Obj p) (b_obj_list br)\<rparr>))" for n
    using that wfD(1) by (intro same_node_free) auto
qed

context broker_callbacks
begin

text \<open>One step of the walk: over a node that stays, and over an object that is released.\<close>

lemma walked_node:
  assumes b: "brks w b = Some br" and wf: "broker_wf b br (objs w) (clis w)" and n: "n \<in> set (b_obj_list br)"
  obtains f where "hflags (objs w) (clis w) n = Some f" "kind_flags n f"
    "no_clients_need_this b n w = Some (\<not> owed br (objs w) (clis w) n)"
proof -
  from broker_wfD(3) [OF wf n] obtain f i where
    hdr: "hflags (objs w) (clis w) n = Some f" "hid (objs w) (clis w) n = Some i" "kind_flags n f"
    by (auto simp: node_wf_def)
  show ?thesis
    by (rule that [OF hdr(1,3)]) (rule no_clients_need_this_eq [OF b broker_wf_clients [OF wf] hdr(2)])
qed

lemma walk_keeps:
  assumes b: "brks w b = Some br" and wf: "broker_wf b br (objs w) (clis w)" and l: "b_obj_list br = front @ n # rest"
    and stays: "\<not> (is_Obj n \<and> ndel (objs w) (clis w) n \<and> \<not> owed br (objs w) (clis w) n)"
  shows "client_delete_walk (Suc k) ops b (Some n) w = client_delete_walk k ops b (circleq_first rest) w"
proof -
  have n: "n \<in> set (b_obj_list br)" "n \<notin> set front" using broker_wfD(1) [OF wf] l by auto
  from b wf n(1) obtain f where f: "hflags (objs w) (clis w) n = Some f" "kind_flags n f"
    "no_clients_need_this b n w = Some (\<not> owed br (objs w) (clis w) n)" by (rule walked_node)
  have "circleq_next (Some n) (b_obj_list br) = Some (circleq_first rest)"
    using n l by (simp add: circleq_next_def)
  then show ?thesis using stays f b by (auto simp: kind_flags_OBJ_bit ndel_def)
qed

lemma walk_releases:
  assumes b: "brks w b = Some br" and wf: "broker_wf b br (objs w) (clis w)" and l: "b_obj_list br = front @ Obj p # rest"
    and own: "owned None w" and goes: "ndel (objs w) (clis w) (Obj p)" "\<not> owed br (objs w) (clis w) (Obj p)"
  shows "client_delete_walk (Suc k) ops b (Some (Obj p)) w = client_delete_walk k ops b (circleq_first rest) (release_step release b p w)"
proof -
  have n: "Obj p \<in> set (b_obj_list br)" "Obj p \<notin> set front" using broker_wfD(1) [OF wf] l by auto
  from b wf n(1) obtain f where f: "hflags (objs w) (clis w) (Obj p) = Some f" "kind_flags (Obj p) f"
    "no_clients_need_this b (Obj p) w = Some (\<not> owed br (objs w) (clis w) (Obj p))" by (rule walked_node)
  have "broker_del_obj_now ops b (Obj p) w = Some (release_step release b p w)"
    using n by (intro broker_del_obj_now_step [OF b wf own]) auto
  moreover have "circleq_prev (Some (Obj p)) (b_obj_list br) = Some (circleq_last front)"
    using n l by (simp add: circleq_prev_def)
  moreover have "circleq_next (circleq_last front) (front @ rest) = Some (circleq_first rest)"
    using broker_wfD(1) [OF wf] l by (intro circleq_next_after_prev) auto
  moreover have "remove1 (Obj p) (b_obj_list br) = front @ rest" using n l by (simp add: remove1_append)
  ultimately show ?thesis using goes f b by (auto simp: kind_flags_OBJ_bit ndel_def)
qed

lemma client_delete_walk_eq:
  assumes "brks w b = Some br" and "b_obj_list br = front @ rest"
    and "broker_wf b br (objs w) (clis w)" and "owned None w"
  shows "client_delete_walk (Suc (length rest)) ops b (circleq_first rest) w =
    Some (fold (release_step release b) (garbage br (objs w) (clis w) rest) w)"
  using assms
proof (induction rest arbitrary: w br front)
  case Nil
  then show ?case by (simp add: circleq_first_def)
next
  case (Cons n rest)
  note wf = broker_wfD [OF Cons.prems(3)]
  show ?case
  proof (cases "is_Obj n \<and> ndel (objs w) (clis w) n \<and> \<not> owed br (objs w) (clis w) n")
    case False
    have "garbage br (objs w) (clis w) (n # rest) = garbage br (objs w) (clis w) rest"
      using False by (cases n) auto
    moreover have "client_delete_walk (Suc (length rest)) ops b (circleq_first rest) w =
      Some (fold (release_step release b) (garbage br (objs w) (clis w) rest) w)"
      using Cons.prems by (intro Cons.IH [of w br "front @ [n]"]) auto
    ultimately show ?thesis
      using walk_keeps [OF Cons.prems(1,3,2) False] by (simp add: circleq_first_def del: client_delete_walk.simps)
  next
    case True
    then obtain p where p: "n = Obj p" by (auto simp: is_Obj_conv)
    let ?w = "release_step release b p w"
    let ?br = "br\<lparr>b_obj_list := remove1 (Obj p) (b_obj_list br)\<rparr>"
    have n: "Obj p \<in> set (b_obj_list br)" "Obj p \<notin> set front" using wf(1) Cons.prems(2) p by auto
    have list: "b_obj_list ?br = front @ rest" using n Cons.prems(2) p by (simp add: remove1_append)
    have br: "brks ?w b = Some ?br" using Cons.prems(1) by simp
    have wf': "broker_wf b ?br (objs ?w) (clis ?w)"
      using broker_wf_unlink [OF Cons.prems(3)] by simp
    have "objs w p \<noteq> None" using wf(3) [OF n(1)] by (auto simp: node_wf_def)
    then have own: "owned None ?w" using Cons.prems(4) by (intro owned_release_step) auto
    have "garbage ?br (objs ?w) (clis ?w) rest = garbage br (objs w) (clis w) rest"
      using wf(1) Cons.prems(2) p by (intro garbage_cong) (auto simp: ndel_def owed_def nid_def)
    with Cons.IH [OF br list wf' own] have "client_delete_walk (Suc (length rest)) ops b (circleq_first rest) ?w =
        Some (fold (release_step release b) (garbage br (objs w) (clis w) rest) ?w)" by (simp only:)
    moreover have "garbage br (objs w) (clis w) (n # rest) = p # garbage br (objs w) (clis w) rest" using True p by simp
    ultimately show ?thesis
      using walk_releases [OF Cons.prems(1,3) _ Cons.prems(4), of front p rest "Suc (length rest)"] Cons.prems(2) True p
      by (simp add: circleq_first_def del: client_delete_walk.simps)
  qed
qed

end

section \<open>Every change of the queue keeps the invariant\<close>

lemma broker_okD:
  assumes "broker_ok b br os cs"
  shows "broker_wf b br os cs" "no_garbage br os cs"
  using assms by (simp_all add: broker_ok_def)

lemma ndel_Cli:
  assumes "broker_wf b br os cs" and "Cli c \<in> set (b_obj_list br)"
  shows "\<not> ndel os cs (Cli c)"
  using broker_wfD(3) [OF assms] by (auto simp: node_wf_def ndel_def)

lemma broker_wf_below:
  assumes "broker_wf b br os cs" and "brk_id br \<noteq> - 1" and "n \<in> set (b_obj_list br)"
  shows "nid os cs n < brk_id br + 1"
  using node_wfD(2) [OF broker_wfD(3) [OF assms(1,3)]] word_lt_Suc [OF assms(2)]
  by (rule order.strict_trans1)

text \<open>Stamping an object and moving it to the newest end: add, update and mark as deleted.\<close>

lemma broker_wf_stamp:
  assumes "broker_wf b br os cs" and "brk_id br \<noteq> - 1"
    and "flags ob = 1 \<or> flags ob = 5" and "obj_id ob = brk_id br + 1"
  shows "broker_wf b (br\<lparr>b_obj_list := remove1 (Obj p) (b_obj_list br) @ [Obj p],
                        brk_id := brk_id br + 1\<rparr>) (os(p \<mapsto> ob)) cs"
proof -
  note wfD = broker_wfD [OF assms(1)]
  let ?br = "br\<lparr>b_obj_list := remove1 (Obj p) (b_obj_list br) @ [Obj p], brk_id := brk_id br + 1\<rparr>"
  have new: "0 < brk_id br + 1" using word_lt_Suc [OF assms(2)] by (metis word_greater_zero_iff word_not_simps(1))
  have rest: "set (remove1 (Obj p) (b_obj_list br)) = set (b_obj_list br) - {Obj p}"
    using wfD(1) by (rule set_remove1_eq)
  have "in_order ((nid os cs)(Obj p := brk_id br + 1)) (remove1 (Obj p) (b_obj_list br) @ [Obj p])"
    using wfD(4,1) broker_wf_below [OF assms(1,2)] by (intro in_order_move_to_tail) auto
  moreover have "node_wf ?br (os(p \<mapsto> ob)) cs n" if "n \<in> set (b_obj_list ?br)" for n
  proof (cases "n = Obj p")
    case True
    then show ?thesis using assms(3,4) new by (auto simp: node_wf_def)
  next
    case False
    with that rest have n: "n \<in> set (b_obj_list br)" by auto
    have "nid os cs n \<le> brk_id br + 1" using broker_wf_below [OF assms(1,2) n] by simp
    with wfD(3) [OF n] False show ?thesis by (auto simp: node_wf_def nid_def)
  qed
  ultimately show ?thesis
    using wfD(1,2) assms(4) by (auto simp: broker_wf_def clients_agree_def)
qed

lemma broker_ok_stamp:
  assumes ok: "broker_ok b br os cs" and "brk_id br \<noteq> - 1"
    and "flags ob = 1 \<or> flags ob = 5 \<and> b_client_list br \<noteq> []" and "obj_id ob = brk_id br + 1"
  shows "broker_ok b (br\<lparr>b_obj_list := remove1 (Obj p) (b_obj_list br) @ [Obj p],
                        brk_id := brk_id br + 1\<rparr>) (os(p \<mapsto> ob)) cs"
proof -
  note wf = broker_okD(1) [OF ok]
  let ?br = "br\<lparr>b_obj_list := remove1 (Obj p) (b_obj_list br) @ [Obj p], brk_id := brk_id br + 1\<rparr>"
  have below: "nid os cs (Cli c) < brk_id br + 1" if "c \<in> set (b_client_list br)" for c
    using broker_wf_client [OF wf that] broker_wf_below [OF wf assms(2)] by blast
  have "owed ?br (os(p \<mapsto> ob)) cs n" if n: "n \<in> set (b_obj_list ?br)" "ndel (os(p \<mapsto> ob)) cs n" for n
  proof (cases "n = Obj p")
    case True
    with n(2) assms(3) have "b_client_list br \<noteq> []" by auto
    then obtain c where "c \<in> set (b_client_list br)" by (cases "b_client_list br") auto
    with below True assms(4) show ?thesis by (auto simp: owed_def)
  next
    case False
    with n have "n \<in> set (b_obj_list br)" "ndel os cs n" by (auto dest: notin_set_remove1)
    with broker_okD(2) [OF ok] have "owed br os cs n" by (simp add: no_garbage_def)
    with False show ?thesis by (auto simp: owed_def)
  qed
  moreover have "broker_wf b ?br (os(p \<mapsto> ob)) cs"
    using wf assms(2,3,4) by (intro broker_wf_stamp) auto
  ultimately show ?thesis by (simp add: broker_ok_def no_garbage_def)
qed

text \<open>Unlinking an object.\<close>

lemma broker_ok_unlink:
  assumes "broker_ok b br os cs"
  shows "broker_ok b (br\<lparr>b_obj_list := remove1 (Obj p) (b_obj_list br)\<rparr>) (os(p := None)) cs"
proof -
  have "ndel (os(p := None)) cs n \<longrightarrow> ndel os cs n" for n
    by (cases n) (auto simp: ndel_def)
  then show ?thesis
    using broker_okD [OF assms] broker_wfD(1) [OF broker_okD(1) [OF assms]]
    by (auto simp: broker_ok_def broker_wf_unlink no_garbage_def owed_def nid_free)
qed

text \<open>A new client at the oldest end.\<close>

definition new_client :: "ptr \<Rightarrow> string \<Rightarrow> u64 \<Rightarrow> broker_client" where
  "new_client b nm i =
     \<lparr>cl_broker = b, cl_obj = \<lparr>obj_type = 0, flags = BROKER_FLAGS_CLIENT, obj_id = i\<rparr>,
      cl_flags = 0, cl_id = 0, consumed = 0, name = nm\<rparr>"

lemma new_client_simps [simp]:
  "cl_broker (new_client b nm i) = b" "flags (cl_obj (new_client b nm i)) = 2"
  "obj_id (cl_obj (new_client b nm i)) = i" "consumed (new_client b nm i) = 0"
  by (simp_all add: new_client_def)

lemma broker_ok_new_client:
  assumes ok: "broker_ok b br os cs" and "cs c = None" and "c \<noteq> NULL"
    and i: "i = (if \<exists>p. Obj p \<in> set (b_obj_list br) then 0 else brk_id br)"
  shows "broker_ok b (br\<lparr>b_client_list := c # b_client_list br, b_obj_list := Cli c # b_obj_list br\<rparr>)
           os (cs(c \<mapsto> new_client b nm i))"
proof -
  note wf = broker_okD(1) [OF ok]
  note wfD = broker_wfD [OF wf]
  have new: "c \<notin> set (b_client_list br)" "Cli c \<notin> set (b_obj_list br)"
    using broker_wf_clients [OF wf] wfD(2) assms(2) by (auto simp: clients_agree_def)
  have "in_order ((nid os cs)(Cli c := i)) (Cli c # b_obj_list br)"
    using wfD(4) new(2)
  proof (rule in_order_new_client)
    show "i < nid os cs (Obj p)" if "Obj p \<in> set (b_obj_list br)" for p
      using that node_wfD(3) [OF wfD(3) [OF that]] i by auto
  qed
  moreover have "i \<le> brk_id br" using i by simp
  moreover have "n \<noteq> Cli c" if "n \<in> set (b_obj_list br)" for n using that new(2) by auto
  ultimately have "broker_wf b (br\<lparr>b_client_list := c # b_client_list br, b_obj_list := Cli c # b_obj_list br\<rparr>)
      os (cs(c \<mapsto> new_client b nm i))"
    using wfD new assms(3) by (auto simp: broker_wf_def clients_agree_def node_wf_def)
  then show ?thesis
    using broker_okD(2) [OF ok] new by (fastforce simp: broker_ok_def no_garbage_def owed_def)
qed

text \<open>A client that has found nothing behind it takes the broker's stamp.\<close>

definition client_at :: "u64 \<Rightarrow> broker_client \<Rightarrow> broker_client" where
  "client_at i cl = cl\<lparr>cl_obj := (cl_obj cl)\<lparr>obj_id := i\<rparr>\<rparr>"

lemma client_at_simps [simp]:
  "cl_broker (client_at i cl) = cl_broker cl" "flags (cl_obj (client_at i cl)) = flags (cl_obj cl)"
  "obj_id (cl_obj (client_at i cl)) = i" "consumed (client_at i cl) = consumed cl"
  by (simp_all add: client_at_def)

lemma broker_wf_client_flags:
  assumes "broker_wf b br os cs" and "Cli c \<in> set (b_obj_list br)" and "cs c = Some cl"
  shows "flags (cl_obj cl) = 2" "obj_id (cl_obj cl) \<le> brk_id br" "cl_broker cl = b" "c \<noteq> NULL"
  using broker_wfD(3) [OF assms(1,2)] broker_wfD(2) [OF assms(1)] assms(2,3)
  by (auto simp: node_wf_def clients_agree_def)

lemma broker_ok_client_to_top:
  assumes ok: "broker_ok b br os cs" and c: "Cli c \<in> set (b_obj_list br)" "cs c = Some cl"
    and none: "find is_Obj (after (Cli c) (b_obj_list br)) = None"
  shows "broker_ok b br os (cs(c \<mapsto> client_at (brk_id br) cl))"
proof -
  note wf = broker_okD(1) [OF ok]
  note wfD = broker_wfD [OF wf]
  have tail: "\<not> is_Obj m" if "m \<in> set (after (Cli c) (b_obj_list br))" for m
    using none that by (simp add: find_None_iff)
  have "in_order ((nid os cs)(Cli c := brk_id br)) (b_obj_list br)"
    using wfD(4) c(1) wfD(1) tail node_wfD(2) [OF wfD(3)] by (rule in_order_client_to_top)
  then have "broker_wf b br os (cs(c \<mapsto> client_at (brk_id br) cl))"
    using wfD broker_wf_client_flags [OF wf c] by (auto simp: broker_wf_def clients_agree_def node_wf_def)
  moreover have "owed br os (cs(c \<mapsto> client_at (brk_id br) cl)) n"
    if n: "n \<in> set (b_obj_list br)" "ndel os (cs(c \<mapsto> client_at (brk_id br) cl)) n" for n
  proof -
    have "ndel os cs n"
      using n(2) broker_wf_client_flags(1) [OF wf c] by (simp split: if_splits)
    then obtain q where q: "n = Obj q" using ndel_Cli [OF wf] n(1) by (cases n) auto
    obtain d where d: "d \<in> set (b_client_list br)" "nid os cs (Cli d) < nid os cs n"
      using broker_okD(2) [OF ok] n(1) \<open>ndel os cs n\<close> by (auto simp: no_garbage_def owed_def)
    have "d \<noteq> c"
      using client_separates [OF wf c(1)] d(2) n(1) q tail by fastforce
    with d q show ?thesis by (auto simp: owed_def)
  qed
  ultimately show ?thesis by (simp add: broker_ok_def no_garbage_def)
qed

text \<open>A client that is given the object \<open>p\<close> moves right behind it.\<close>

definition jump :: "ptr \<Rightarrow> ptr \<Rightarrow> node list \<Rightarrow> node list" where
  "jump c p xs = (let ys = remove1 (Cli c) xs in before (Obj p) ys @ Obj p # Cli c # after (Obj p) ys)"

lemma set_jump:
  assumes "distinct xs" and "Cli c \<in> set xs" and "Obj p \<in> set xs"
  shows "set (jump c p xs) = set xs" and "distinct (jump c p xs)"
proof -
  let ?ys = "remove1 (Cli c) xs"
  have "Obj p \<in> set ?ys" using assms by simp
  then have split: "?ys = before (Obj p) ?ys @ Obj p # after (Obj p) ?ys" by (rule before_after)
  have d: "distinct ?ys" "Cli c \<notin> set ?ys" "set ?ys = set xs - {Cli c}" using assms by simp_all
  from d(1) have dd: "distinct (before (Obj p) ?ys @ Obj p # after (Obj p) ?ys)"
    by (subst (asm) split)
  have s: "set (before (Obj p) ?ys @ Obj p # after (Obj p) ?ys) = set xs - {Cli c}"
    by (subst split [symmetric]) (rule d(3))
  show "set (jump c p xs) = set xs" using s assms(2) by (auto simp: jump_def Let_def)
  show "distinct (jump c p xs)" using dd s by (auto simp: jump_def Let_def)
qed

lemma broker_wf_jump:
  assumes wf: "broker_wf b br os cs" and c: "Cli c \<in> set (b_obj_list br)" "cs c = Some cl"
    and p: "Obj p \<in> set (b_obj_list br)" and i: "i = nid os cs (Obj p)"
  shows "broker_wf b (br\<lparr>b_obj_list := jump c p (b_obj_list br)\<rparr>) os (cs(c \<mapsto> client_at i cl))"
proof -
  note wfD = broker_wfD [OF wf]
  note sj = set_jump [OF wfD(1) c(1) p]
  have "in_order ((nid os cs)(Cli c := nid os cs (Obj p))) (jump c p (b_obj_list br))"
    unfolding jump_def Let_def
    using wfD(4,1) p by (intro in_order_client_behind in_order_remove1) auto
  moreover have "i \<le> brk_id br" using node_wfD(2) [OF wfD(3) [OF p]] i by simp
  ultimately show ?thesis
    using wfD sj i broker_wf_client_flags [OF wf c] by (auto simp: broker_wf_def clients_agree_def node_wf_def)
qed

lemma jump_no_garbage:
  assumes ok: "broker_ok b br os cs" and c: "Cli c \<in> set (b_obj_list br)" "cs c = Some cl"
    and nxt: "find is_Obj (after (Cli c) (b_obj_list br)) = Some (Obj p)"
    and n: "n \<in> set (b_obj_list br)" "ndel os cs n" "n \<noteq> Obj p"
  shows "owed br os (cs(c \<mapsto> client_at (nid os cs (Obj p)) cl)) n"
proof -
  note wf = broker_okD(1) [OF ok]
  obtain q where q: "n = Obj q" using ndel_Cli [OF wf] n by (cases n) auto
  obtain d where d: "d \<in> set (b_client_list br)" "nid os cs (Cli d) < nid os cs n"
    using broker_okD(2) [OF ok] n by (auto simp: no_garbage_def owed_def)
  show ?thesis
  proof (cases "d = c")
    case True
    have qin: "Obj q \<in> set (after (Cli c) (b_obj_list br))"
      using client_separates [OF wf c(1)] d(2) n(1) q True by simp
    obtain ms ns where ms: "after (Cli c) (b_obj_list br) = ms @ Obj p # ns" "\<forall>m \<in> set ms. \<not> is_Obj m"
      using find_SomeD [OF nxt] by blast
    have "Obj q \<in> set ns" using qin ms q n(3) by auto
    moreover have "in_order (nid os cs) (after (Cli c) (b_obj_list br))"
      using broker_wfD(4) [OF wf] before_after [OF c(1)]
      by (metis in_order_append in_order_Cons)
    ultimately have "nid os cs (Obj p) < nid os cs (Obj q)"
      using ms(1) by (auto simp: in_order_append in_order_Cons stamp_le_def)
    with d True q show ?thesis by (auto simp: owed_def)
  next
    case False
    with d q show ?thesis by (auto simp: owed_def)
  qed
qed

section \<open>The client operations\<close>

lemma find_is_Obj_None: "find is_Obj xs = None \<longleftrightarrow> (\<forall>p. Obj p \<notin> set xs)"
  by (auto simp: find_None_iff is_Obj_conv)

lemma find_is_Obj_ex: "(\<exists>n. find is_Obj xs = Some n) \<longleftrightarrow> (\<exists>p. Obj p \<in> set xs)"
  using find_is_Obj_None [of xs] by (cases "find is_Obj xs") auto

lemma find_is_Obj_Some: "find is_Obj xs = Some n \<Longrightarrow> \<exists>p. n = Obj p \<and> Obj p \<in> set xs"
  using find_SomeD [of is_Obj xs n] by (auto simp: is_Obj_conv)

lemma broker_client_create_eq:
  assumes b: "brks w b = Some br" and ok: "broker_ok b br (objs w) (clis w)"
    and c: "clis w c = None" "c \<noteq> NULL"
    and i: "i = (if \<exists>p. Obj p \<in> set (b_obj_list br) then 0 else brk_id br)"
  shows "broker_client_create b (Some co) nm c True w =
    Some (c, w\<lparr>clis := (clis w)(c \<mapsto> new_client b nm i),
               brks := (brks w)(b \<mapsto> br\<lparr>b_client_list := c # b_client_list br,
                                        b_obj_list := Cli c # b_obj_list br\<rparr>)\<rparr>)"
proof -
  note wf = broker_okD(1) [OF ok]
  let ?br = "br\<lparr>b_client_list := c # b_client_list br, b_obj_list := Cli c # b_obj_list br\<rparr>"
  let ?cl = "\<lparr>cl_broker = b, cl_obj = \<lparr>obj_type = 0, flags = BROKER_FLAGS_CLIENT, obj_id = 0\<rparr>,
              cl_flags = 0, cl_id = 0, consumed = 0, name = nm\<rparr>"
  let ?w = "w\<lparr>clis := (clis w)(c \<mapsto> ?cl), brks := (brks w)(b \<mapsto> ?br)\<rparr>"
  have "\<forall>n \<in> set (b_obj_list br). node_wf br (objs ?w) (clis ?w) n"
    using broker_wfD(3) [OF wf] broker_wfD(2) [OF wf] c broker_wf_clients [OF wf]
    by (auto simp: node_wf_def clients_agree_def)
  then have first: "first_data_obj ?w (b_obj_list br) = Some (find is_Obj (b_obj_list br))"
    by (rule first_data_obj_find)
  have "\<forall>c \<in> set (b_client_list br). clis w c \<noteq> None" using broker_wf_clients [OF wf] .
  then have heads: "\<forall>d \<in> set (b_client_list br). ((clis w)(c \<mapsto> ?cl)) d \<noteq> None" by auto
  have more: "broker_has_more_data c ?w = Some (\<exists>p. Obj p \<in> set (b_obj_list br))"
    using first by (auto simp: broker_has_more_data_def broker_get_next_data_obj_def find_is_Obj_ex)
  show ?thesis
    using b heads more broker_wf_nodes [OF wf] i c(2)
    by (simp add: broker_client_create_def mem_defs circleq_simps new_client_def)
qed

text \<open>What is left in memory after client \<open>c\<close> has been given the object \<open>p\<close>.\<close>

definition given ::
  "(ptr \<Rightarrow> ('a broker_obj_scheme, 'z) broker_mem_scheme \<Rightarrow> ('a broker_obj_scheme, 'z) broker_mem_scheme)
    \<Rightarrow> ptr \<Rightarrow> broker \<Rightarrow> ptr \<Rightarrow> broker_client \<Rightarrow> ptr
    \<Rightarrow> ('a broker_obj_scheme, 'z) broker_mem_scheme \<Rightarrow> ('a broker_obj_scheme, 'z) broker_mem_scheme" where
  "given rel b br c cl p w =
     (let i = nid (objs w) (clis w) (Obj p);
          w' = w\<lparr>brks := (brks w)(b \<mapsto> br\<lparr>b_obj_list := jump c p (b_obj_list br)\<rparr>),
                 clis := (clis w)(c \<mapsto> client_at i cl)\<rparr>;
          w'' = (if ndel (objs w) (clis w) (Obj p) \<and> \<not> owed br (objs w') (clis w') (Obj p)
                 then release_step rel b p w' else w')
      in w''\<lparr>clis := (clis w)(c \<mapsto> (client_at i cl)\<lparr>consumed := consumed cl + 1\<rparr>)\<rparr>)"

context broker_callbacks
begin

lemma get_data_none_eq:
  assumes b: "brks w b = Some br" and wf: "broker_wf b br (objs w) (clis w)"
    and c: "Cli c \<in> set (b_obj_list br)" "clis w c = Some cl"
    and none: "find is_Obj (after (Cli c) (b_obj_list br)) = None"
  shows "broker_client_get_data ops co c w =
    Some (NULL, w\<lparr>clis := (clis w)(c \<mapsto> client_at (brk_id br) cl)\<rparr>)"
  using broker_wf_client_flags [OF wf c] next_data_eq [OF b wf c(1)] b c none
  by (simp add: broker_client_get_data_def mem_defs client_at_def)

lemma get_data_some_eq:
  assumes b: "brks w b = Some br" and wf: "broker_wf b br (objs w) (clis w)" and own: "owned None w1"
    and c: "Cli c \<in> set (b_obj_list br)" "clis w c = Some cl"
    and nxt: "find is_Obj (after (Cli c) (b_obj_list br)) = Some (Obj p)"
    and cb: "(if ndel (objs w) (clis w) (Obj p) then del_obj co else add_obj co) = Some f"
      "f w (Obj p) = Some (d, w1)"
    and reads: "objs w1 = objs w" "clis w1 = clis w" "brks w1 = brks w"
  shows "broker_client_get_data ops co c w = Some (d, given release b br c cl p w1)"
proof -
  note wfD = broker_wfD [OF wf]
  have p: "Obj p \<in> set (b_obj_list br)" using find_is_Obj_Some [OF nxt] in_set_afterD by fastforce
  obtain ob where ob: "objs w p = Some ob" "obj_id ob = nid (objs w) (clis w) (Obj p)"
    and nd: "ndel (objs w) (clis w) (Obj p) = (flags ob AND BROKER_FLAGS_DELETE \<noteq> 0)"
    using wfD(3) [OF p] by (auto simp: node_wf_def ndel_def nid_def)
  let ?cl = "client_at (nid (objs w) (clis w) (Obj p)) cl"
  let ?br = "br\<lparr>b_obj_list := jump c p (b_obj_list br)\<rparr>"
  let ?w = "w1\<lparr>brks := (brks w)(b \<mapsto> ?br), clis := (clis w)(c \<mapsto> ?cl)\<rparr>"
  have rm: "set (remove1 (Cli c) (b_obj_list br)) = set (b_obj_list br) - {Cli c}"
    using wfD(1) by (rule set_remove1_eq)
  have wf': "broker_wf b ?br (objs ?w) (clis ?w)"
    using broker_wf_jump [OF wf c p refl] reads by simp
  have bw: "brks ?w b = Some ?br" by simp
  have own': "owned None ?w" using own by (simp add: owned_brks owned_clis)
  have need: "no_clients_need_this b (Obj p) ?w = Some (\<not> owed ?br (objs ?w) (clis ?w) (Obj p))"
    using bw broker_wf_clients [OF wf'] by (rule no_clients_need_this_eq) (use ob reads in auto)
  have del: "broker_del_obj_now ops b (Obj p) ?w = Some (release_step release b p ?w)"
    using set_jump(1) [OF wfD(1) c(1) p] p by (intro broker_del_obj_now_step [OF bw wf' own']) auto
  have ow: "owed ?br x y n = owed br x y n" for x :: "'a obj_heap" and y n by (simp add: owed_def)
  show ?thesis
    using broker_wf_client_flags [OF wf c] next_data_eq [OF b wf c(1)] b c nxt cb nd ob p rm
      broker_wf_nodes [OF wf] need del reads
    by (simp add: broker_client_get_data_def mem_defs circleq_simps given_def ow
        jump_def [unfolded Let_def, symmetric] client_at_def [symmetric])
qed

end

section \<open>Deleting a client\<close>

definition without_client :: "ptr \<Rightarrow> broker \<Rightarrow> broker" where
  "without_client c br =
     br\<lparr>b_client_list := remove1 c (b_client_list br), b_obj_list := remove1 (Cli c) (b_obj_list br)\<rparr>"

definition without_objs :: "ptr list \<Rightarrow> broker \<Rightarrow> broker" where
  "without_objs ps br = br\<lparr>b_obj_list := fold remove1 (map Obj ps) (b_obj_list br)\<rparr>"

lemma without_objs_simps [simp]:
  "b_client_list (without_objs ps br) = b_client_list br" "brk_id (without_objs ps br) = brk_id br"
  "without_objs [] br = br"
  by (simp_all add: without_objs_def)

lemma without_objs_Cons:
  "without_objs (p # ps) br = without_objs ps (br\<lparr>b_obj_list := remove1 (Obj p) (b_obj_list br)\<rparr>)"
  by (simp add: without_objs_def)

lemma without_client_simps [simp]:
  "b_client_list (without_client c br) = remove1 c (b_client_list br)"
  "b_obj_list (without_client c br) = remove1 (Cli c) (b_obj_list br)"
  "brk_id (without_client c br) = brk_id br"
  by (simp_all add: without_client_def)

lemma set_without_objs:
  "distinct (b_obj_list br) \<Longrightarrow> set (b_obj_list (without_objs ps br)) = set (b_obj_list br) - Obj ` set ps"
proof (induction ps arbitrary: br)
  case (Cons p ps)
  then show ?case
    using Cons.IH [of "br\<lparr>b_obj_list := remove1 (Obj p) (b_obj_list br)\<rparr>"]
    by (auto simp: without_objs_Cons)
qed simp

definition free_all :: "ptr list \<Rightarrow> (ptr \<rightharpoonup> 'o) \<Rightarrow> (ptr \<rightharpoonup> 'o)" where
  "free_all ps os = (\<lambda>q. if q \<in> set ps then None else os q)"

lemma free_all_Nil [simp]: "free_all [] os = os"
  by (simp add: free_all_def)

lemma free_all_Cons: "free_all ps (os(p := None)) = free_all (p # ps) os"
  by (auto simp: free_all_def fun_eq_iff)

lemma broker_wf_without_objs:
  "broker_wf b br os cs \<Longrightarrow> broker_wf b (without_objs ps br) (free_all ps os) cs"
proof (induction ps arbitrary: br os)
  case (Cons p ps)
  from Cons.IH [OF broker_wf_unlink [OF Cons.prems, of p]] show ?case
    unfolding without_objs_Cons free_all_Cons .
qed simp

lemma broker_wf_without_client:
  assumes "broker_wf b br os cs"
  shows "broker_wf b (without_client c br) os (cs(c := None))"
proof (rule broker_wf_same [where os = os and cs = cs])
  note wfD = broker_wfD [OF assms]
  show "broker_wf b (without_client c br) os cs"
    using wfD by (auto simp: broker_wf_def clients_agree_def node_wf_def in_order_remove1)
  show "same_node os cs os (cs(c := None)) n"
    if "n \<in> set (b_obj_list (without_client c br))" for n
  proof -
    have "n \<noteq> Cli c" using that wfD(1) by auto
    then show ?thesis by (cases n) (auto simp: same_node_def)
  qed
qed

lemma nid_free_all: "n \<notin> Obj ` set ps \<Longrightarrow> nid (free_all ps os) cs n = nid os cs n"
  by (cases n) (auto simp: nid_def free_all_def)

lemma ndel_free_all: "ndel (free_all ps os) cs n \<Longrightarrow> ndel os cs n"
  by (cases n) (auto simp: ndel_def free_all_def split: if_splits)

lemma broker_ok_collected:
  assumes wf: "broker_wf b br os cs" and ps: "ps = garbage br os cs (b_obj_list br)"
  shows "broker_ok b (without_objs ps br) (free_all ps os) cs"
proof -
  have "owed (without_objs ps br) (free_all ps os) cs n"
    if n: "n \<in> set (b_obj_list (without_objs ps br))" "ndel (free_all ps os) cs n" for n
  proof -
    have n': "n \<in> set (b_obj_list br)" "n \<notin> Obj ` set ps" "ndel os cs n"
      using n set_without_objs [OF broker_wfD(1) [OF wf]] ndel_free_all by auto
    obtain q where q: "n = Obj q" using ndel_Cli [OF wf] n' by (cases n) auto
    have "owed br os cs n" using n' q by (auto simp: ps set_garbage)
    moreover have "nid (free_all ps os) cs (Cli c) = nid os cs (Cli c)" for c
      by (rule nid_free_all) auto
    ultimately show ?thesis using nid_free_all [OF n'(2), of os cs] by (auto simp: owed_def)
  qed
  then show ?thesis
    using broker_wf_without_objs [OF wf] by (simp add: broker_ok_def no_garbage_def)
qed

context broker_callbacks
begin

lemma fold_release_mem:
  "objs (fold (release_step release b) ps w) = free_all ps (objs w)"
  "clis (fold (release_step release b) ps w) = clis w"
  "brks (fold (release_step release b) ps w) = (brks w)(b := map_option (without_objs ps) (brks w b))"
  "broker_list_head (fold (release_step release b) ps w) = broker_list_head w"
  "inited (fold (release_step release b) ps w) = inited w"
proof (induction ps arbitrary: w)
  case Nil
  case 3 show ?case by (cases "brks w b") (auto simp: fun_eq_iff)
next
  case (Cons p ps)
  case 3 show ?case
    using Cons.IH(3) by (cases "brks w b") (auto simp: fun_eq_iff without_objs_Cons)
qed (simp_all add: free_all_Cons)

lemma fold_release_owned:
  "owned None w \<Longrightarrow> distinct ps \<Longrightarrow> \<forall>p \<in> set ps. objs w p \<noteq> None \<Longrightarrow>
     owned None (fold (release_step release b) ps w)"
proof (induction ps arbitrary: w)
  case (Cons p ps)
  have "owned None (release_step release b p w)" using Cons.prems by (intro owned_release_step) auto
  then show ?case using Cons.prems by (auto intro!: Cons.IH)
qed simp

lemma broker_client_delete_eq:
  assumes b: "brks w b = Some br" and wf: "broker_wf b br (objs w) (clis w)" and own: "owned None w"
    and c: "c \<in> set (b_client_list br)"
    and w0: "w0 = w\<lparr>brks := (brks w)(b \<mapsto> without_client c br), clis := (clis w)(c := None)\<rparr>"
  shows "broker_client_delete ops c w =
    Some (fold (release_step release b)
            (garbage (without_client c br) (objs w) ((clis w)(c := None)) (b_obj_list (without_client c br))) w0)"
proof -
  obtain cl where cl: "clis w c = Some cl" "cl_broker cl = b" "Cli c \<in> set (b_obj_list br)"
    using broker_wf_client [OF wf c] by metis
  have walk: "client_delete_walk (Suc (length (b_obj_list (without_client c br)))) ops b
      (circleq_first (b_obj_list (without_client c br))) w0 =
    Some (fold (release_step release b)
            (garbage (without_client c br) (objs w0) (clis w0) (b_obj_list (without_client c br))) w0)"
  proof (rule client_delete_walk_eq [where front = "[]"])
    show "broker_wf b (without_client c br) (objs w0) (clis w0)"
      using broker_wf_without_client [OF wf] by (simp add: w0)
    show "owned None w0" using own by (simp add: w0 owned_brks owned_clis)
  qed (simp_all add: w0)
  have mid: "w\<lparr>brks := (brks w)(b \<mapsto> br\<lparr>b_client_list := remove1 c (b_client_list br),
      b_obj_list := remove1 (Cli c) (b_obj_list br)\<rparr>), clis := (clis w)(c := None)\<rparr> = w0"
    by (simp add: w0 without_client_def)
  show ?thesis
    using walk b c cl broker_wf_nodes [OF wf] broker_wf_clients [OF wf]
    by (simp add: broker_client_delete_def mem_defs circleq_simps mid w0)
qed

end

section \<open>All brokers\<close>

definition unqueued :: "(ptr \<rightharpoonup> broker) \<Rightarrow> ptr \<Rightarrow> bool" where
  "unqueued bs p \<longleftrightarrow> (\<forall>b br. bs b = Some br \<longrightarrow> Obj p \<notin> set (b_obj_list br))"

definition brokers_ok :: "(ptr \<rightharpoonup> broker) \<Rightarrow> 'a obj_heap \<Rightarrow> cli_heap \<Rightarrow> bool" where
  "brokers_ok bs os cs \<longleftrightarrow>
     (\<forall>b br. bs b = Some br \<longrightarrow> broker_ok b br os cs) \<and>
     (\<forall>b br b' br' p. bs b = Some br \<longrightarrow> bs b' = Some br' \<longrightarrow>
        Obj p \<in> set (b_obj_list br) \<longrightarrow> Obj p \<in> set (b_obj_list br') \<longrightarrow> b = b')"

lemma brokers_okD:
  assumes "brokers_ok bs os cs"
  shows "bs b = Some br \<Longrightarrow> broker_ok b br os cs"
    "bs b = Some br \<Longrightarrow> bs b' = Some br' \<Longrightarrow> Obj p \<in> set (b_obj_list br) \<Longrightarrow>
       Obj p \<in> set (b_obj_list br') \<Longrightarrow> b = b'"
  using assms unfolding brokers_ok_def by blast+

lemma brokers_ok_client:
  assumes "brokers_ok bs os cs" and "bs b = Some br" and "Cli c \<in> set (b_obj_list br)"
  obtains cl where "cs c = Some cl" "cl_broker cl = b" "c \<noteq> NULL" "c \<in> set (b_client_list br)"
  using broker_wfD(2) [OF broker_okD(1) [OF brokers_okD(1) [OF assms(1,2)]]] assms(3)
  by (auto simp: clients_agree_def)

text \<open>
  Changing broker \<open>b\<close> leaves the others alone when only the heap cells of its own nodes change.
\<close>

lemma brokers_ok_upd:
  assumes ok: "brokers_ok bs os cs" and b: "bs b = Some br" and ok': "broker_ok b br' os' cs'"
    and others: "\<And>b1 br1 n. bs b1 = Some br1 \<Longrightarrow> b1 \<noteq> b \<Longrightarrow> n \<in> set (b_obj_list br1) \<Longrightarrow>
      same_node os cs os' cs' n"
    and new: "\<And>p. Obj p \<in> set (b_obj_list br') \<Longrightarrow> Obj p \<in> set (b_obj_list br) \<or> unqueued bs p"
  shows "brokers_ok (bs(b \<mapsto> br')) os' cs'"
  unfolding brokers_ok_def
proof (intro conjI allI impI)
  fix b1 br1
  assume b1: "(bs(b \<mapsto> br')) b1 = Some br1"
  show "broker_ok b1 br1 os' cs'"
  proof (cases "b1 = b")
    case False
    with b1 have "bs b1 = Some br1" by simp
    with False show ?thesis
      using others by (intro broker_ok_same [OF brokers_okD(1) [OF ok]]) auto
  qed (use b1 ok' in auto)
next
  fix b1 br1 b2 br2 p
  assume "(bs(b \<mapsto> br')) b1 = Some br1" "(bs(b \<mapsto> br')) b2 = Some br2"
    "Obj p \<in> set (b_obj_list br1)" "Obj p \<in> set (b_obj_list br2)"
  then show "b1 = b2"
    using new [of p] b brokers_okD(2) [OF ok] unfolding unqueued_def
    by (cases "b1 = b"; cases "b2 = b") (simp, fastforce+)
qed

lemma other_obj:
  assumes "brokers_ok bs os cs" and "bs b = Some br"
    and "Obj p \<in> set (b_obj_list br) \<or> unqueued bs p"
    and "bs b1 = Some br1" and "b1 \<noteq> b" and "n \<in> set (b_obj_list br1)"
  shows "n \<noteq> Obj p"
  using brokers_okD(2) [OF assms(1)] assms(2-6) unfolding unqueued_def by fast

lemma other_cli:
  assumes "brokers_ok bs os cs" and "bs b = Some br"
    and "cs c = None \<or> Cli c \<in> set (b_obj_list br)"
    and "bs b1 = Some br1" and "b1 \<noteq> b" and "n \<in> set (b_obj_list br1)"
  shows "n \<noteq> Cli c"
  using brokers_ok_client [OF assms(1,4), of c] brokers_ok_client [OF assms(1,2), of c] assms(3,5,6)
  by (metis option.distinct(1) option.inject)

lemma same_node_upd: "n \<noteq> Obj p \<Longrightarrow> n \<noteq> Cli c \<Longrightarrow> same_node os cs (os(p := x)) (cs(c := y)) n"
  by (cases n) (auto simp: same_node_def)

lemma same_node_other_obj:
  assumes "brokers_ok bs os cs" and "bs b = Some br"
    and "Obj p \<in> set (b_obj_list br) \<or> unqueued bs p"
    and "bs b1 = Some br1" and "b1 \<noteq> b" and "n \<in> set (b_obj_list br1)"
  shows "same_node os cs (os(p := x)) cs n"
  using other_obj [OF assms] by (cases n) (auto simp: same_node_def)

lemma same_node_other_cli:
  assumes "brokers_ok bs os cs" and "bs b = Some br"
    and "cs c = None \<or> Cli c \<in> set (b_obj_list br)"
    and "bs b1 = Some br1" and "b1 \<noteq> b" and "n \<in> set (b_obj_list br1)"
  shows "same_node os cs os (cs(c := x)) n"
  using other_cli [OF assms] by (cases n) (auto simp: same_node_def)

lemma brokers_ok_stamp:
  assumes ok: "brokers_ok bs os cs" and b: "bs b = Some br" and "brk_id br \<noteq> - 1"
    and p: "Obj p \<in> set (b_obj_list br) \<or> unqueued bs p"
    and "flags ob = 1 \<or> flags ob = 5 \<and> b_client_list br \<noteq> []" and "obj_id ob = brk_id br + 1"
  shows "brokers_ok (bs(b \<mapsto> br\<lparr>b_obj_list := remove1 (Obj p) (b_obj_list br) @ [Obj p],
                                brk_id := brk_id br + 1\<rparr>)) (os(p \<mapsto> ob)) cs"
  using ok b
proof (rule brokers_ok_upd)
  show "broker_ok b (br\<lparr>b_obj_list := remove1 (Obj p) (b_obj_list br) @ [Obj p],
    brk_id := brk_id br + 1\<rparr>) (os(p \<mapsto> ob)) cs"
    using assms(3,5,6) by (intro broker_ok_stamp brokers_okD(1) [OF ok b])
qed (use same_node_other_obj [OF ok b p] p in \<open>auto dest: set_remove1_subset [THEN subsetD]\<close>)

lemma brokers_ok_unlink:
  assumes ok: "brokers_ok bs os cs" and b: "bs b = Some br" and p: "Obj p \<in> set (b_obj_list br)"
  shows "brokers_ok (bs(b \<mapsto> br\<lparr>b_obj_list := remove1 (Obj p) (b_obj_list br)\<rparr>)) (os(p := None)) cs"
  using ok b
proof (rule brokers_ok_upd)
  show "broker_ok b (br\<lparr>b_obj_list := remove1 (Obj p) (b_obj_list br)\<rparr>) (os(p := None)) cs"
    by (intro broker_ok_unlink brokers_okD(1) [OF ok b])
qed (use same_node_other_obj [OF ok b] p in \<open>auto dest: set_remove1_subset [THEN subsetD]\<close>)

lemma brokers_ok_new_client:
  assumes ok: "brokers_ok bs os cs" and b: "bs b = Some br" and c: "cs c = None" "c \<noteq> NULL"
    and "i = (if \<exists>p. Obj p \<in> set (b_obj_list br) then 0 else brk_id br)"
  shows "brokers_ok (bs(b \<mapsto> br\<lparr>b_client_list := c # b_client_list br, b_obj_list := Cli c # b_obj_list br\<rparr>))
           os (cs(c \<mapsto> new_client b nm i))"
  using ok b
proof (rule brokers_ok_upd)
  show "broker_ok b (br\<lparr>b_client_list := c # b_client_list br, b_obj_list := Cli c # b_obj_list br\<rparr>)
    os (cs(c \<mapsto> new_client b nm i))"
    using assms(5) by (intro broker_ok_new_client brokers_okD(1) [OF ok b] c)
qed (use same_node_other_cli [OF ok b] c in auto)

lemma brokers_ok_client_to_top:
  assumes ok: "brokers_ok bs os cs" and b: "bs b = Some br"
    and c: "Cli c \<in> set (b_obj_list br)" "cs c = Some cl"
    and "find is_Obj (after (Cli c) (b_obj_list br)) = None"
  shows "brokers_ok bs os (cs(c \<mapsto> client_at (brk_id br) cl))"
proof -
  have "brokers_ok (bs(b \<mapsto> br)) os (cs(c \<mapsto> client_at (brk_id br) cl))"
    using ok b
  proof (rule brokers_ok_upd)
    show "broker_ok b br os (cs(c \<mapsto> client_at (brk_id br) cl))"
      using assms(5) by (intro broker_ok_client_to_top brokers_okD(1) [OF ok b] c)
  qed (use same_node_other_cli [OF ok b] c in auto)
  with b show ?thesis by (simp add: map_upd_triv)
qed

lemma brokers_ok_alloc:
  assumes "brokers_ok bs os cs" and "unqueued bs p"
  shows "brokers_ok bs (os(p := x)) cs"
proof -
  have "same_node os cs (os(p := x)) cs n" if "bs b = Some br" "n \<in> set (b_obj_list br)" for b br n
    using assms(2) that by (cases n) (auto simp: same_node_def unqueued_def)
  then show ?thesis
    using assms(1) broker_ok_same unfolding brokers_ok_def by (metis (no_types, lifting))
qed

lemma unqueuedI: "brokers_ok bs os cs \<Longrightarrow> os p = None \<Longrightarrow> unqueued bs p"
  unfolding unqueued_def
  using broker_wf_nodes broker_okD(1) brokers_okD(1) by (metis alive.simps(1))

lemma brokers_ok_jump:
  assumes ok: "brokers_ok bs os cs" and b: "bs b = Some br"
    and c: "Cli c \<in> set (b_obj_list br)" "cs c = Some cl"
    and nxt: "find is_Obj (after (Cli c) (b_obj_list br)) = Some (Obj p)"
    and cl': "cl_broker cl' = b" "cl_obj cl' = cl_obj (client_at (nid os cs (Obj p)) cl)"
    and keep: "ndel os cs (Obj p) \<Longrightarrow> owed br os (cs(c \<mapsto> client_at (nid os cs (Obj p)) cl)) (Obj p)"
  shows "brokers_ok (bs(b \<mapsto> br\<lparr>b_obj_list := jump c p (b_obj_list br)\<rparr>)) os (cs(c \<mapsto> cl'))"
  using ok b
proof (rule brokers_ok_upd)
  note bok = brokers_okD(1) [OF ok b]
  note wf = broker_okD(1) [OF bok]
  have p: "Obj p \<in> set (b_obj_list br)" using find_is_Obj_Some [OF nxt] in_set_afterD by fastforce
  note sj = set_jump [OF broker_wfD(1) [OF wf] c(1) p]
  let ?br = "br\<lparr>b_obj_list := jump c p (b_obj_list br)\<rparr>"
  let ?cs = "cs(c \<mapsto> client_at (nid os cs (Obj p)) cl)"
  have "owed ?br os ?cs n" if n: "n \<in> set (b_obj_list ?br)" "ndel os ?cs n" for n
  proof -
    have "ndel os cs n" using n(2) broker_wf_client_flags(1) [OF wf c] by (simp split: if_splits)
    then show ?thesis
      using keep jump_no_garbage [OF bok c nxt] n(1) sj(1) by (cases "n = Obj p") (auto simp: owed_def)
  qed
  then have "broker_ok b ?br os ?cs"
    using broker_wf_jump [OF wf c p refl] by (simp add: broker_ok_def no_garbage_def)
  then show "broker_ok b ?br os (cs(c \<mapsto> cl'))"
    by (rule broker_ok_same) (use cl' broker_wf_client_flags [OF wf c] in \<open>auto simp: same_node_def\<close>)
  show "\<And>q. Obj q \<in> set (b_obj_list ?br) \<Longrightarrow> Obj q \<in> set (b_obj_list br) \<or> unqueued bs q"
    using sj(1) by simp
qed (use same_node_other_cli [OF ok b] c in auto)

text \<open>A client that takes a marked object nobody else waits for, and the object goes.\<close>

lemma brokers_ok_jump_release:
  assumes ok: "brokers_ok bs os cs" and b: "bs b = Some br"
    and c: "Cli c \<in> set (b_obj_list br)" "cs c = Some cl"
    and nxt: "find is_Obj (after (Cli c) (b_obj_list br)) = Some (Obj p)"
    and cl': "cl_broker cl' = b" "cl_obj cl' = cl_obj (client_at (nid os cs (Obj p)) cl)"
  shows "brokers_ok (bs(b \<mapsto> br\<lparr>b_obj_list := remove1 (Obj p) (jump c p (b_obj_list br))\<rparr>))
           (os(p := None)) (cs(c \<mapsto> cl'))"
  using ok b
proof (rule brokers_ok_upd)
  note bok = brokers_okD(1) [OF ok b]
  note wf = broker_okD(1) [OF bok]
  have p: "Obj p \<in> set (b_obj_list br)" using find_is_Obj_Some [OF nxt] in_set_afterD by fastforce
  note sj = set_jump [OF broker_wfD(1) [OF wf] c(1) p]
  let ?br = "br\<lparr>b_obj_list := remove1 (Obj p) (jump c p (b_obj_list br))\<rparr>"
  let ?cs = "cs(c \<mapsto> client_at (nid os cs (Obj p)) cl)"
  have set_eq: "set (b_obj_list ?br) = set (b_obj_list br) - {Obj p}" using sj by simp
  have "owed ?br (os(p := None)) ?cs n"
    if n: "n \<in> set (b_obj_list ?br)" "ndel (os(p := None)) ?cs n" for n
  proof -
    have n': "n \<in> set (b_obj_list br)" "n \<noteq> Obj p" using n(1) set_eq by auto
    have same: "same_node os ?cs (os(p := None)) ?cs n" using n'(2) by (rule same_node_free)
    have "ndel os ?cs n" using n(2) same_node_ndel [OF same] by simp
    then have "ndel os cs n" using broker_wf_client_flags(1) [OF wf c] by (simp split: if_splits)
    from jump_no_garbage [OF bok c nxt n'(1) this n'(2)] have "owed br os ?cs n" .
    then have "owed br (os(p := None)) ?cs n" using owed_free [OF n'(2)] by metis
    then show ?thesis by (simp add: owed_def)
  qed
  moreover have "broker_wf b ?br (os(p := None)) ?cs"
    using broker_wf_unlink [OF broker_wf_jump [OF wf c p refl], of p] by simp
  ultimately have "broker_ok b ?br (os(p := None)) ?cs"
    by (simp add: broker_ok_def no_garbage_def)
  then show "broker_ok b ?br (os(p := None)) (cs(c \<mapsto> cl'))"
    by (rule broker_ok_same) (use cl' broker_wf_client_flags [OF wf c] in \<open>auto simp: same_node_def\<close>)
  show "\<And>q. Obj q \<in> set (b_obj_list ?br) \<Longrightarrow> Obj q \<in> set (b_obj_list br) \<or> unqueued bs q"
    using set_eq by auto
  show "same_node os cs (os(p := None)) (cs(c \<mapsto> cl')) n"
    if "bs b1 = Some br1" "b1 \<noteq> b" "n \<in> set (b_obj_list br1)" for b1 br1 n
    using other_cli [OF ok b _ that, of c] other_obj [OF ok b _ that, of p] c p
    by (intro same_node_upd) auto
qed

lemma brokers_ok_without_client:
  assumes ok: "brokers_ok bs os cs" and b: "bs b = Some br" and c: "c \<in> set (b_client_list br)"
    and br': "br' = without_client c br" and cs': "cs' = cs(c := None)"
    and ps: "ps = garbage br' os cs' (b_obj_list br')"
  shows "brokers_ok (bs(b \<mapsto> without_objs ps br')) (free_all ps os) cs'"
  using ok b
proof (rule brokers_ok_upd)
  note wf = broker_okD(1) [OF brokers_okD(1) [OF ok b]]
  obtain cl where cl: "cs c = Some cl" "Cli c \<in> set (b_obj_list br)"
    using broker_wf_client [OF wf c] by metis
  have wf': "broker_wf b br' os cs'" unfolding br' cs' by (rule broker_wf_without_client [OF wf])
  show "broker_ok b (without_objs ps br') (free_all ps os) cs'"
    using wf' ps by (rule broker_ok_collected)
  have sub: "set (b_obj_list (without_objs ps br')) \<subseteq> set (b_obj_list br)" "\<forall>p \<in> set ps. Obj p \<in> set (b_obj_list br)"
    using set_without_objs [OF broker_wfD(1) [OF wf']] set_remove1_subset [of "Cli c" "b_obj_list br"]
    by (auto simp: br' ps set_garbage)
  then show "\<And>q. Obj q \<in> set (b_obj_list (without_objs ps br')) \<Longrightarrow> Obj q \<in> set (b_obj_list br) \<or> unqueued bs q"
    by auto
  show "same_node os cs (free_all ps os) cs' n"
    if "bs b1 = Some br1" "b1 \<noteq> b" "n \<in> set (b_obj_list br1)" for b1 br1 n
  proof -
    have "n \<notin> Obj ` set ps" using sub(2) brokers_okD(2) [OF ok that(1) b] that(2,3) by auto
    then show ?thesis
      using same_node_other_cli [OF ok b _ that, of c] cl
      by (cases n) (auto simp: same_node_def free_all_def cs')
  qed
qed

lemma brokers_ok_new_broker:
  assumes "brokers_ok bs os cs" and "bs b = None"
    and "b_obj_list br = []" and "b_client_list br = []"
  shows "brokers_ok (bs(b \<mapsto> br)) os cs"
proof -
  have "broker_ok b br os cs"
    using assms(3,4) by (simp add: broker_ok_def broker_wf_def no_garbage_def clients_agree_def)
  then show ?thesis
    using assms(1,3) unfolding brokers_ok_def by (auto split: if_splits)
qed

section \<open>Has a client more to read?\<close>

lemma has_more_data_find:
  assumes "brks w b = Some br" and "broker_wf b br (objs w) (clis w)" and "c \<in> set (b_client_list br)"
  shows "broker_has_more_data c w = Some (\<exists>p. Obj p \<in> set (after (Cli c) (b_obj_list br)))"
proof -
  obtain cl where cl: "clis w c = Some cl" "cl_broker cl = b" "Cli c \<in> set (b_obj_list br)"
    using broker_wf_client [OF assms(2,3)] by metis
  then show ?thesis
    using next_data_eq [OF assms(1,2) cl(3)] find_is_Obj_ex [of "after (Cli c) (b_obj_list br)"]
    by (auto simp: broker_has_more_data_def)
qed

text \<open>
  In a well-formed broker a client has more data exactly when some queued object carries a
  larger stamp than the client: the position in the queue, which \<open>broker_has_more_data\<close> looks at,
  and the stamps, which \<open>data_available_for_client\<close> and \<open>no_clients_need_this\<close> look at, agree.
\<close>

theorem has_more_data_stamps:
  assumes "brks w b = Some br" and "broker_wf b br (objs w) (clis w)" and "c \<in> set (b_client_list br)"
  shows "broker_has_more_data c w =
    Some (\<exists>p. Obj p \<in> set (b_obj_list br) \<and> nid (objs w) (clis w) (Cli c) < nid (objs w) (clis w) (Obj p))"
proof -
  have c: "Cli c \<in> set (b_obj_list br)" using broker_wf_client [OF assms(2,3)] by metis
  show ?thesis
    using has_more_data_find [OF assms] client_separates [OF assms(2) c] in_set_afterD by fastforce
qed

definition eg_broker :: broker where
  "eg_broker = \<lparr>b_obj_list = [Obj 2, Cli 3, Obj 4], type_count = 1, b_client_list = [3],
                brk_id = 9, imp_dels = 0\<rparr>"

definition eg_mem :: "broker_obj broker_mem" where
  "eg_mem =
     \<lparr>objs = [2 \<mapsto> \<lparr>obj_type = 0, flags = 1, obj_id = 5\<rparr>, 4 \<mapsto> \<lparr>obj_type = 0, flags = 5, obj_id = 9\<rparr>],
      clis = [3 \<mapsto> new_client 1 ''dp'' 5], brks = [1 \<mapsto> eg_broker], broker_list_head = [1], inited = True\<rparr>"

lemma eg_mem_wf: "broker_wf 1 eg_broker (objs eg_mem) (clis eg_mem)"
  by (auto simp: broker_wf_def clients_agree_def node_wf_def eg_broker_def eg_mem_def in_order_def
      stamp_le_def nid_def)

theorem has_more_data_stamps_witness: "broker_has_more_data 3 eg_mem = Some True"
proof -
  have "Obj 4 \<in> set (b_obj_list eg_broker) \<and>
      nid (objs eg_mem) (clis eg_mem) (Cli 3) < nid (objs eg_mem) (clis eg_mem) (Obj 4)"
    by (simp add: eg_broker_def eg_mem_def)
  moreover have "brks eg_mem 1 = Some eg_broker" "3 \<in> set (b_client_list eg_broker)"
    by (simp_all add: eg_broker_def eg_mem_def)
  ultimately show ?thesis
    using has_more_data_stamps [OF _ eg_mem_wf, of 3] by auto
qed

end
