(* ===== verification/Route_Broker.thy ===== *)
theory Route_Broker
  imports Broker_Laws
begin

text \<open>
  The route broker of \<open>src/broker/route_broker.c\<close>: three brokers, one per priority, a hash table
  from topics to routes, and the publish operation that keeps them in step. A \<open>struct rib_route\<close>
  is a record that extends \<open>broker_obj\<close>, so the object heap of the brokers is the heap of routes.

  The hash table is \<open>zhash\<close> of czmq, which is not part of the sources: \<open>zhash_ops\<close> is a
  parameter and the locale \<open>zhash\<close> states what its manual promises. The payload of a route is a
  pointer into the heap \<open>datas\<close>; the callbacks that copy, free and name payloads are the table
  \<open>object_cbs\<close> (\<open>struct object_broker_init\<close>).
\<close>

section \<open>Data\<close>

abbreviation ROUTE_TOPIC_LEN :: nat where "ROUTE_TOPIC_LEN \<equiv> 204"
abbreviation ROUTE_PRIORITY_MAX :: nat where "ROUTE_PRIORITY_MAX \<equiv> 3"
abbreviation ROUTE_CONNECTED :: int where "ROUTE_CONNECTED \<equiv> 0"
abbreviation ROUTE_IGP :: int where "ROUTE_IGP \<equiv> 1"
abbreviation ROUTE_OTHER :: int where "ROUTE_OTHER \<equiv> 2"
abbreviation ROUTE_BROKER_ROUTE :: int where "ROUTE_BROKER_ROUTE \<equiv> 0"
abbreviation ROUTE_BROKER_TYPES_MAX :: int where "ROUTE_BROKER_TYPES_MAX \<equiv> 1"
abbreviation ETIMEDOUT :: int where "ETIMEDOUT \<equiv> 110"

record rib_route = broker_obj +
  refcount :: u32
  pri :: u32
  topic :: string
  data :: ptr

record route_broker_client =
  client :: "ptr list"
  client_cond :: bool
  errors :: u64

record ('d, 'h) route_mem = "rib_route broker_mem" +
  datas :: "ptr \<rightharpoonup> 'd"
  route_hashtbl :: "'h option"
  route_broker :: "ptr list"
  rclis :: "ptr \<rightharpoonup> route_broker_client"
  client_list_head :: "ptr list"
  processed_msg :: u64
  ignored_msg :: u64
  dropped_msg :: u64

record 'h zhash_ops =
  zhash_new :: "'h option"
  zhash_lookup :: "'h \<Rightarrow> string \<Rightarrow> ptr"
  zhash_insert :: "'h \<Rightarrow> string \<Rightarrow> ptr \<Rightarrow> 'h"
  zhash_delete :: "'h \<Rightarrow> string \<Rightarrow> 'h"

text \<open>
  \<open>topic_gen obj len\<close> is the return code, what was written to the buffer, and the delete flag.
  \<open>copy_obj m d\<close> copies the payload \<open>d\<close> into the memory \<open>m\<close> that \<open>malloc\<close> returned.
\<close>

record 'd object_cbs =
  topic_gen :: "'d \<Rightarrow> nat \<Rightarrow> (int \<times> string \<times> bool) option"
  copy_obj :: "ptr \<Rightarrow> 'd \<Rightarrow> (ptr \<rightharpoonup> 'd) \<Rightarrow> (ptr \<times> (ptr \<rightharpoonup> 'd)) option"
  free_obj :: "ptr \<Rightarrow> (ptr \<rightharpoonup> 'd) \<Rightarrow> (ptr \<rightharpoonup> 'd) option"

section \<open>Routes\<close>

definition rib_route_create :: "ptr \<Rightarrow> ('d, 'h) route_mem \<Rightarrow> ptr \<times> ('d, 'h) route_mem" where
  "rib_route_create calloc_ret w =
     (if calloc_ret = NULL then (NULL, w)
      else (calloc_ret, w\<lparr>objs := (objs w)(calloc_ret \<mapsto>
              \<lparr>obj_type = 0, flags = 0, obj_id = 0, refcount = 0, pri = 0, topic = [], data = NULL\<rparr>)\<rparr>))"

definition free_data :: "'d object_cbs \<Rightarrow> ptr \<Rightarrow> ('d, 'h) route_mem \<Rightarrow> ('d, 'h) route_mem option" where
  "free_data cb d w = do {
     ds \<leftarrow> free_obj cb d (datas w);
     Some (w\<lparr>datas := ds\<rparr>)
   }"

definition free_route :: "ptr \<Rightarrow> ('d, 'h) route_mem \<Rightarrow> ('d, 'h) route_mem option" where
  "free_route p w = (if objs w p = None then None else Some (w\<lparr>objs := (objs w)(p := None)\<rparr>))"

definition rib_route_delete ::
  "'h zhash_ops \<Rightarrow> 'd object_cbs \<Rightarrow> ptr \<Rightarrow> ('d, 'h) route_mem \<Rightarrow> ('d, 'h) route_mem option" where
  "rib_route_delete zh cb obj w = do {
     r \<leftarrow> objs w obj;
     let rc = refcount r - 1;
     let w = w\<lparr>objs := (objs w)(obj \<mapsto> r\<lparr>refcount := rc\<rparr>)\<rparr>;
     if rc = 0 then do {
       h \<leftarrow> route_hashtbl w;
       let w = w\<lparr>route_hashtbl := Some (zhash_delete zh h (topic r))\<rparr>;
       w \<leftarrow> free_data cb (data r) w;
       free_route obj w
     } else Some w
   }"

definition rib_route_to_broker_obj :: "ptr \<Rightarrow> int \<Rightarrow> node option" where
  "rib_route_to_broker_obj obj ty =
     (if obj = NULL then None else if ty > ROUTE_BROKER_TYPES_MAX then None else Some (Obj obj))"

definition broker_obj_to_rib_route :: "('d, 'h) route_mem \<Rightarrow> node \<Rightarrow> ptr option" where
  "broker_obj_to_rib_route w n =
     (case n of
        Cli _ \<Rightarrow> None
      | Obj p \<Rightarrow> do {
          r \<leftarrow> objs w p;
          if obj_type r \<le> 1 then Some p else None
        })"

definition rib_route_lock :: "('d, 'h) route_mem \<Rightarrow> node \<Rightarrow> ('d, 'h) route_mem option" where
  "rib_route_lock w b_obj = do {
     obj \<leftarrow> broker_obj_to_rib_route w b_obj;
     upd_obj obj (\<lambda>r. r\<lparr>refcount := refcount r + 1\<rparr>) w
   }"

definition rib_route_unlock ::
  "'h zhash_ops \<Rightarrow> 'd object_cbs \<Rightarrow> ('d, 'h) route_mem \<Rightarrow> node \<Rightarrow> ('d, 'h) route_mem option" where
  "rib_route_unlock zh cb w b_obj = do {
     obj \<leftarrow> broker_obj_to_rib_route w b_obj;
     rib_route_delete zh cb obj w
   }"

definition route_broker_ops ::
  "'h zhash_ops \<Rightarrow> 'd object_cbs \<Rightarrow> ('d, 'h) route_mem broker_ops" where
  "route_broker_ops zh cb =
     \<lparr>obj_to_broker_obj = Some rib_route_to_broker_obj,
      broker_obj_to_obj = Some broker_obj_to_rib_route,
      lock_obj = Some rib_route_lock,
      unlock_obj = Some (rib_route_unlock zh cb)\<rparr>"

section \<open>Initialising and destroying\<close>

text \<open>
  The loop over the priorities: \<open>calloc_rets\<close> are the addresses the three calls of
  \<open>broker_create\<close> get. A broker that is not created fails the assertion.
\<close>

fun route_broker_init_loop ::
  "'h zhash_ops \<Rightarrow> 'd object_cbs \<Rightarrow> ptr list \<Rightarrow> ptr list \<Rightarrow> ('d, 'h) route_mem
    \<Rightarrow> ('d, 'h) route_mem option" where
  "route_broker_init_loop zh cb [] created w = Some (w\<lparr>route_broker := created\<rparr>)"
| "route_broker_init_loop zh cb (m # ms) created w = do {
     (b, w) \<leftarrow> broker_create (Some (route_broker_ops zh cb)) (word_of_int ROUTE_BROKER_TYPES_MAX) m w;
     if b = NULL then None else route_broker_init_loop zh cb ms (created @ [b]) w
   }"

definition route_broker_init ::
  "'h zhash_ops \<Rightarrow> 'd object_cbs \<Rightarrow> ptr \<Rightarrow> ptr \<Rightarrow> ptr \<Rightarrow> ('d, 'h) route_mem
    \<Rightarrow> (int \<times> ('d, 'h) route_mem) option" where
  "route_broker_init zh cb m0 m1 m2 w = do {
     let w = w\<lparr>client_list_head := []\<rparr>;
     w \<leftarrow> route_broker_init_loop zh cb [m0, m1, m2] [] w;
     h \<leftarrow> zhash_new zh;
     Some (0, w\<lparr>route_hashtbl := Some h\<rparr>)
   }"

fun route_broker_destroy_loop ::
  "ptr list \<Rightarrow> ('d, 'h) route_mem \<Rightarrow> (int \<times> ('d, 'h) route_mem) option" where
  "route_broker_destroy_loop [] w = Some (0, w)"
| "route_broker_destroy_loop (b # bs) w = do {
     (rc, w) \<leftarrow> broker_delete b w;
     if rc \<noteq> 0 then Some (rc, w) else route_broker_destroy_loop bs w
   }"

definition route_broker_destroy :: "('d, 'h) route_mem \<Rightarrow> (int \<times> ('d, 'h) route_mem) option" where
  "route_broker_destroy w = do {
     (rc, w) \<leftarrow> route_broker_destroy_loop (route_broker w) w;
     if rc \<noteq> 0 then Some (rc, w) else Some (0, w\<lparr>route_hashtbl := None\<rparr>)
   }"

section \<open>Clients\<close>

definition arr :: "'x list \<Rightarrow> int \<Rightarrow> 'x option" where
  "arr xs i = (if 0 \<le> i \<and> i < int (length xs) then Some (xs ! nat i) else None)"

definition route_broker_client_get ::
  "'d object_cbs \<Rightarrow> ptr \<Rightarrow> ('d, 'h) route_mem \<Rightarrow> node \<Rightarrow> (ptr \<times> ('d, 'h) route_mem) option" where
  "route_broker_client_get cb malloc_ret w b_obj = do {
     obj \<leftarrow> broker_obj_to_rib_route w b_obj;
     r \<leftarrow> objs w obj;
     if data r = NULL then None
     else do {
       d \<leftarrow> datas w (data r);
       (p, ds) \<leftarrow> copy_obj cb malloc_ret d (datas w);
       Some (p, w\<lparr>datas := ds\<rparr>)
     }
   }"

definition route_broker_client_ops ::
  "'d object_cbs \<Rightarrow> ptr \<Rightarrow> ('d, 'h) route_mem broker_client_ops" where
  "route_broker_client_ops cb malloc_ret =
     \<lparr>add_obj = Some (route_broker_client_get cb malloc_ret),
      del_obj = Some (route_broker_client_get cb malloc_ret)\<rparr>"

text \<open>The loop of \<open>data_available_for_client\<close>, over the priorities \<open>is\<close> that are left.\<close>

fun data_available_loop ::
  "('d, 'h) route_mem \<Rightarrow> route_broker_client \<Rightarrow> int list \<Rightarrow> int option" where
  "data_available_loop w rcl [] = Some (- 1)"
| "data_available_loop w rcl (i # is) = do {
     c \<leftarrow> arr (client rcl) i;
     cl \<leftarrow> clis w c;
     b \<leftarrow> arr (route_broker w) i;
     br \<leftarrow> brks w b;
     if obj_id (cl_obj cl) \<noteq> brk_id br then Some i else data_available_loop w rcl is
   }"

definition data_available_for_client :: "ptr \<Rightarrow> ('d, 'h) route_mem \<Rightarrow> int option" where
  "data_available_for_client rclient w = do {
     rcl \<leftarrow> rclis w rclient;
     data_available_loop w rcl [0, 1, 2]
   }"

text \<open>
  \<open>Got d bc\<close>: data (or \<open>NULL\<close>) from the client \<open>bc\<close> of one level; \<open>Timed_out\<close>: \<open>NULL\<close> after the
  wait; \<open>Blocked\<close>: still waiting when the given wake-ups are used up.
\<close>

datatype get_result = Got ptr ptr | Timed_out | Blocked

text \<open>
  \<open>waits\<close> are the returns of \<open>pthread_cond_timedwait\<close>: its result and the memory found when the
  mutex has been taken again.
\<close>

fun route_broker_client_get_data ::
  "'h zhash_ops \<Rightarrow> 'd object_cbs \<Rightarrow> ptr \<Rightarrow> ptr \<Rightarrow> (int \<times> ('d, 'h) route_mem) list
    \<Rightarrow> ('d, 'h) route_mem \<Rightarrow> (get_result \<times> ('d, 'h) route_mem) option" where
  "route_broker_client_get_data zh cb rclient malloc_ret waits w = do {
     level \<leftarrow> data_available_for_client rclient w;
     if level < 0 then
       (case waits of
          [] \<Rightarrow> Some (Blocked, w)
        | (rc, w') # waits' \<Rightarrow>
            if rc = ETIMEDOUT then Some (Timed_out, w')
            else route_broker_client_get_data zh cb rclient malloc_ret waits' w')
     else do {
       rcl \<leftarrow> rclis w rclient;
       c \<leftarrow> arr (client rcl) level;
       (d, w) \<leftarrow> broker_client_get_data (route_broker_ops zh cb) (route_broker_client_ops cb malloc_ret) c w;
       Some (Got d c, w)
     }
   }"

definition route_broker_client_free_data ::
  "'d object_cbs \<Rightarrow> ptr \<Rightarrow> ptr \<Rightarrow> ('d, 'h) route_mem \<Rightarrow> ('d, 'h) route_mem option" where
  "route_broker_client_free_data cb rclient obj w = free_data cb obj w"

text \<open>
  Creating a client: the loop stores what \<open>broker_client_create\<close> returns for each level. The test
  \<open>!rclient->client\<close> behind each call looks at the array and not at the entry, so it never fails.
\<close>

fun client_create_loop ::
  "'d object_cbs \<Rightarrow> string \<Rightarrow> ptr list \<Rightarrow> (ptr \<times> bool) list \<Rightarrow> ptr list \<Rightarrow> ('d, 'h) route_mem
    \<Rightarrow> (ptr list \<times> ('d, 'h) route_mem) option" where
  "client_create_loop cb nm [] ms cs w = Some (cs, w)"
| "client_create_loop cb nm (b # bs) [] cs w = None"
| "client_create_loop cb nm (b # bs) (m # ms) cs w = do {
     (c, w) \<leftarrow> broker_client_create b (Some (route_broker_client_ops cb NULL)) nm (fst m) (snd m) w;
     client_create_loop cb nm bs ms (cs @ [c]) w
   }"

fun client_delete_loop ::
  "'h zhash_ops \<Rightarrow> 'd object_cbs \<Rightarrow> ptr list \<Rightarrow> ('d, 'h) route_mem \<Rightarrow> ('d, 'h) route_mem option" where
  "client_delete_loop zh cb [] w = Some w"
| "client_delete_loop zh cb (c # cs) w = do {
     w \<leftarrow> broker_client_delete (route_broker_ops zh cb) c w;
     client_delete_loop zh cb cs w
   }"

definition route_broker_client_create ::
  "'h zhash_ops \<Rightarrow> 'd object_cbs \<Rightarrow> string option \<Rightarrow> ptr \<Rightarrow> (ptr \<times> bool) list \<Rightarrow> int
    \<Rightarrow> ('d, 'h) route_mem \<Rightarrow> (ptr \<times> ('d, 'h) route_mem) option" where
  "route_broker_client_create zh cb nm calloc_ret ms cond_init_ret w =
     (case nm of
        None \<Rightarrow> Some (NULL, w)
      | Some nm \<Rightarrow>
          if calloc_ret = NULL then Some (NULL, w)
          else do {
            (cs, w) \<leftarrow> client_create_loop cb nm (route_broker w) ms [] w;
            if cond_init_ret \<noteq> 0 then do {
              w \<leftarrow> client_delete_loop zh cb (filter (\<lambda>c. c \<noteq> NULL) cs) w;
              Some (NULL, w)
            } else do {
              let w = w\<lparr>rclis := (rclis w)(calloc_ret \<mapsto>
                          \<lparr>client = cs, client_cond = False, errors = 0\<rparr>)\<rparr>;
              l \<leftarrow> circleq_insert_head (\<lambda>c. rclis w c \<noteq> None) calloc_ret (client_list_head w);
              Some (calloc_ret, w\<lparr>client_list_head := l\<rparr>)
            }
          })"

text \<open>
  Deleting a client has two parts: the clients of the levels go while the mutex is held, the
  client itself leaves the list of clients after the mutex has been released.
\<close>

definition client_delete_locked ::
  "'h zhash_ops \<Rightarrow> 'd object_cbs \<Rightarrow> ptr \<Rightarrow> ('d, 'h) route_mem \<Rightarrow> ('d, 'h) route_mem option" where
  "client_delete_locked zh cb rclient w = do {
     rcl \<leftarrow> rclis w rclient;
     client_delete_loop zh cb (client rcl) w
   }"

definition client_delete_unlink :: "ptr \<Rightarrow> ('d, 'h) route_mem \<Rightarrow> ('d, 'h) route_mem option" where
  "client_delete_unlink rclient w = do {
     l \<leftarrow> circleq_remove (\<lambda>c. rclis w c \<noteq> None) rclient (client_list_head w);
     Some (w\<lparr>client_list_head := l, rclis := (rclis w)(rclient := None)\<rparr>)
   }"

definition route_broker_client_delete ::
  "'h zhash_ops \<Rightarrow> 'd object_cbs \<Rightarrow> ptr \<Rightarrow> ('d, 'h) route_mem \<Rightarrow> ('d, 'h) route_mem option" where
  "route_broker_client_delete zh cb rclient w = do {
     w \<leftarrow> client_delete_locked zh cb rclient w;
     client_delete_unlink rclient w
   }"

fun wake_clients_loop :: "ptr list \<Rightarrow> ('d, 'h) route_mem \<Rightarrow> ('d, 'h) route_mem option" where
  "wake_clients_loop [] w = Some w"
| "wake_clients_loop (rc # rcs) w = do {
     rcl \<leftarrow> rclis w rc;
     level \<leftarrow> data_available_for_client rc w;
     let w = (if level \<ge> 0 then w\<lparr>rclis := (rclis w)(rc \<mapsto> rcl\<lparr>client_cond := True\<rparr>)\<rparr> else w);
     wake_clients_loop rcs w
   }"

definition route_broker_wake_clients :: "('d, 'h) route_mem \<Rightarrow> ('d, 'h) route_mem option" where
  "route_broker_wake_clients w = wake_clients_loop (client_list_head w) w"


section \<open>Publishing\<close>

text \<open>\<open>free_obj(hashed->data); hashed->data = route->data;\<close>\<close>

definition swap_data ::
  "'d object_cbs \<Rightarrow> ptr \<Rightarrow> ptr \<Rightarrow> ('d, 'h) route_mem \<Rightarrow> ('d, 'h) route_mem option" where
  "swap_data cb hashed route w = do {
     hr \<leftarrow> objs w hashed;
     w \<leftarrow> free_data cb (data hr) w;
     r \<leftarrow> objs w route;
     upd_obj hashed (\<lambda>hr. hr\<lparr>data := data r\<rparr>) w
   }"

definition hash_insert ::
  "'h zhash_ops \<Rightarrow> ptr \<Rightarrow> ('d, 'h) route_mem \<Rightarrow> ('d, 'h) route_mem option" where
  "hash_insert zh route w = do {
     r \<leftarrow> objs w route;
     h \<leftarrow> route_hashtbl w;
     Some (w\<lparr>route_hashtbl := Some (zhash_insert zh h (topic r) route)\<rparr>)
   }"

text \<open>The two halves of \<open>object_broker_publish\<close> behind the lookup. \<open>hashed\<close> may be \<open>NULL\<close>.\<close>

definition publish_delete ::
  "'h zhash_ops \<Rightarrow> 'd object_cbs \<Rightarrow> ptr \<Rightarrow> ptr \<Rightarrow> int \<Rightarrow> ('d, 'h) route_mem
    \<Rightarrow> ('d, 'h) route_mem option" where
  "publish_delete zh cb hashed route p w =
     (if hashed \<noteq> NULL then do {
        hr \<leftarrow> objs w hashed;
        if pri hr > word_of_int p then do {
          b' \<leftarrow> arr (route_broker w) (uint (pri hr));
          w \<leftarrow> broker_del_obj_now (route_broker_ops zh cb) b' (Obj hashed) w;
          b \<leftarrow> arr (route_broker w) p;
          w \<leftarrow> broker_add_obj (route_broker_ops zh cb) b route ROUTE_BROKER_ROUTE w;
          broker_del_obj (route_broker_ops zh cb) b route ROUTE_BROKER_ROUTE w
        } else do {
          w \<leftarrow> swap_data cb hashed route w;
          b' \<leftarrow> arr (route_broker w) (uint (pri hr));
          w \<leftarrow> broker_del_obj (route_broker_ops zh cb) b' hashed ROUTE_BROKER_ROUTE w;
          free_route route w
        }
      } else do {
        r \<leftarrow> objs w route;
        w \<leftarrow> free_data cb (data r) w;
        free_route route w
      })"

definition publish_add ::
  "'h zhash_ops \<Rightarrow> 'd object_cbs \<Rightarrow> ptr \<Rightarrow> ptr \<Rightarrow> int \<Rightarrow> ('d, 'h) route_mem
    \<Rightarrow> ('d, 'h) route_mem option" where
  "publish_add zh cb hashed route p w =
     (if hashed \<noteq> NULL then do {
        hr \<leftarrow> objs w hashed;
        if pri hr > word_of_int p then do {
          b' \<leftarrow> arr (route_broker w) (uint (pri hr));
          w \<leftarrow> broker_del_obj_now (route_broker_ops zh cb) b' (Obj hashed) w;
          b \<leftarrow> arr (route_broker w) p;
          w \<leftarrow> broker_add_obj (route_broker_ops zh cb) b route ROUTE_BROKER_ROUTE w;
          hash_insert zh route w
        } else if pri hr < word_of_int p \<or> pri hr = word_of_int p then do {
          w \<leftarrow> swap_data cb hashed route w;
          w \<leftarrow> free_route route w;
          b' \<leftarrow> arr (route_broker w) (uint (pri hr));
          broker_upd_obj (route_broker_ops zh cb) b' hashed ROUTE_BROKER_ROUTE w
        } else Some w
      } else do {
        b \<leftarrow> arr (route_broker w) p;
        w \<leftarrow> broker_add_obj (route_broker_ops zh cb) b route ROUTE_BROKER_ROUTE w;
        hash_insert zh route w
      })"

text \<open>
  The object that is published is the payload \<open>d\<close>; \<open>route_calloc\<close> and \<open>copy_malloc\<close> are what the
  allocator returns for the route and for the copy of the payload.
\<close>

definition object_broker_publish ::
  "'h zhash_ops \<Rightarrow> 'd object_cbs \<Rightarrow> 'd \<Rightarrow> int \<Rightarrow> ptr \<Rightarrow> ptr \<Rightarrow> ('d, 'h) route_mem
    \<Rightarrow> ('d, 'h) route_mem option" where
  "object_broker_publish zh cb d p route_calloc copy_malloc w = do {
     let w = w\<lparr>processed_msg := processed_msg w + 1\<rparr>;
     let (route, w) = rib_route_create route_calloc w;
     if route = NULL then Some (w\<lparr>dropped_msg := dropped_msg w + 1\<rparr>)
     else do {
       (data_copy, ds) \<leftarrow> copy_obj cb copy_malloc d (datas w);
       let w = w\<lparr>datas := ds\<rparr>;
       if data_copy = NULL then free_route route (w\<lparr>dropped_msg := dropped_msg w + 1\<rparr>)
       else do {
         w \<leftarrow> upd_obj route (\<lambda>r. r\<lparr>data := data_copy, pri := word_of_int p\<rparr>) w;
         dc \<leftarrow> datas w data_copy;
         (rc, t, del) \<leftarrow> topic_gen cb dc ROUTE_TOPIC_LEN;
         w \<leftarrow> upd_obj route (\<lambda>r. r\<lparr>topic := t\<rparr>) w;
         if rc \<le> 0 then do {
           let w = w\<lparr>ignored_msg := ignored_msg w + 1\<rparr>;
           w \<leftarrow> free_data cb data_copy w;
           free_route route w
         } else do {
           h \<leftarrow> route_hashtbl w;
           let hashed = zhash_lookup zh h t;
           w \<leftarrow> (if del then publish_delete zh cb hashed route p w
                else publish_add zh cb hashed route p w);
           route_broker_wake_clients w
         }
       }
     }
   }"

section \<open>Showing the queues\<close>

definition route_broker_seq_first :: "('d, 'h) route_mem \<Rightarrow> (node option \<times> int) option" where
  "route_broker_seq_first w = do {
     b \<leftarrow> arr (route_broker w) 0;
     n \<leftarrow> broker_seq_start b w;
     Some (n, 0)
   }"

definition route_broker_seq_next ::
  "node \<Rightarrow> int \<Rightarrow> ('d, 'h) route_mem \<Rightarrow> (node option \<times> int) option" where
  "route_broker_seq_next obj p w = do {
     b \<leftarrow> arr (route_broker w) p;
     n \<leftarrow> broker_seq_next b obj w;
     if n = None \<and> p < int ROUTE_PRIORITY_MAX - 1 then do {
       b \<leftarrow> arr (route_broker w) (p + 1);
       n \<leftarrow> broker_seq_start b w;
       Some (n, p + 1)
     } else Some (n, p)
   }"

text \<open>The lines \<open>cli_out\<close> is called with, by format.\<close>

datatype show_line =
    Processed_line u64 | Ignored_line u64 | Dropped_line u64
  | Errors_line ptr u64
  | Priority_line int u64
  | Obj_line u64 bool string
  | Client_line u64 string u64 u64
  | Total_line u64

definition route_broker_seq_show ::
  "node \<Rightarrow> bool \<Rightarrow> ('d, 'h) route_mem \<Rightarrow> show_line list option" where
  "route_broker_seq_show b_obj show_obj w = do {
     fl \<leftarrow> get_flags w b_obj;
     i \<leftarrow> get_id w b_obj;
     if fl AND BROKER_FLAGS_OBJ \<noteq> 0 then
       (if show_obj then do {
          p \<leftarrow> broker_obj_to_rib_route w b_obj;
          r \<leftarrow> objs w p;
          Some [Obj_line i (fl AND BROKER_FLAGS_DELETE \<noteq> 0) (topic r)]
        } else Some [])
     else (case b_obj of
         Obj _ \<Rightarrow> None
       | Cli c \<Rightarrow> do {
           cl \<leftarrow> clis w c;
           br \<leftarrow> brks w (cl_broker cl);
           Some [Client_line i (name cl) (consumed cl) (brk_id br - i)]
         })
   }"

fun client_errors_loop :: "ptr list \<Rightarrow> ('d, 'h) route_mem \<Rightarrow> show_line list option" where
  "client_errors_loop [] w = Some []"
| "client_errors_loop (rc # rcs) w = do {
     rcl \<leftarrow> rclis w rc;
     ls \<leftarrow> client_errors_loop rcs w;
     Some ((if errors rcl \<noteq> 0 then [Errors_line rc (errors rcl)] else []) @ ls)
   }"

text \<open>
  The loop of \<open>route_broker_show_internal\<close> with the loop variables \<open>obj\<close>, \<open>pri\<close>, \<open>pri_last\<close> and
  \<open>count\<close>. It visits each node once at most, so a unit of fuel per queued node is enough.
\<close>

fun show_loop ::
  "nat \<Rightarrow> node option \<Rightarrow> int \<Rightarrow> int \<Rightarrow> u64 \<Rightarrow> bool \<Rightarrow> ('d, 'h) route_mem
    \<Rightarrow> (show_line list \<times> u64) option" where
  "show_loop fuel None p p_last count detail w = Some ([], count)"
| "show_loop 0 (Some n) p p_last count detail w = None"
| "show_loop (Suc fuel) (Some n) p p_last count detail w = do {
     b \<leftarrow> arr (route_broker w) p;
     br \<leftarrow> brks w b;
     let hdr = (if p \<noteq> p_last then [Priority_line p (brk_id br)] else []);
     ls \<leftarrow> route_broker_seq_show n detail w;
     (n', p') \<leftarrow> route_broker_seq_next n p w;
     (rest, count) \<leftarrow> show_loop fuel n' p' p (count + 1) detail w;
     Some (hdr @ ls @ rest, count)
   }"

definition queued_nodes :: "('d, 'h) route_mem \<Rightarrow> nat" where
  "queued_nodes w =
     sum_list (map (\<lambda>b. case brks w b of None \<Rightarrow> 0 | Some br \<Rightarrow> length (b_obj_list br)) (route_broker w))"

definition route_broker_show_internal :: "bool \<Rightarrow> ('d, 'h) route_mem \<Rightarrow> show_line list option" where
  "route_broker_show_internal detail w = do {
     errs \<leftarrow> client_errors_loop (client_list_head w) w;
     b \<leftarrow> arr (route_broker w) 0;
     br \<leftarrow> brks w b;
     (n, p) \<leftarrow> route_broker_seq_first w;
     (ls, count) \<leftarrow> show_loop (queued_nodes w) n p 0 0 detail w;
     Some ([Processed_line (processed_msg w)]
           @ (if ignored_msg w \<noteq> 0 then [Ignored_line (ignored_msg w)] else [])
           @ (if dropped_msg w \<noteq> 0 then [Dropped_line (dropped_msg w)] else [])
           @ errs @ [Priority_line 0 (brk_id br)] @ ls @ [Total_line count])
   }"

definition route_broker_show :: "('d, 'h) route_mem \<Rightarrow> show_line list option" where
  "route_broker_show w = route_broker_show_internal True w"

definition route_broker_show_summary :: "('d, 'h) route_mem \<Rightarrow> show_line list option" where
  "route_broker_show_summary w = route_broker_show_internal False w"

end
