(* ===== verification/Topic.thy ===== *)
theory Topic
  imports Netlink Route_Broker
begin

text \<open>
  The topic of a route message, \<open>src/broker/topic.c\<close>: a text that names the route, so that an
  update and a delete find the entry of the route they belong to.

  Attributes are found by \<open>mnl_attr_parse\<close> of libmnl, which is not part of the sources: it is a
  parameter \<open>mnl\<close> that gives, for a message and the length of the family header, the value the
  call returns and the attributes it hands to the callback, each by its type and the offset of its
  payload. \<open>build\<close> is the configuration of the kernel headers the file is compiled with.
\<close>

type_synonym attr = "u16 \<times> nat"
type_synonym mnl_parse = "bytes \<Rightarrow> nat \<Rightarrow> int \<times> attr list"

record build =
  rta_max :: nat
  mpls_route :: bool
  rtdmn :: "(u16 \<times> u32) option"

abbreviation MNL_CB_OK :: int where "MNL_CB_OK \<equiv> 1"
abbreviation RTA_DST :: u16 where "RTA_DST \<equiv> 1"
abbreviation RTA_SRC :: u16 where "RTA_SRC \<equiv> 2"
abbreviation RTA_IIF :: u16 where "RTA_IIF \<equiv> 3"
abbreviation RTA_OIF :: u16 where "RTA_OIF \<equiv> 4"
abbreviation RTA_TABLE :: u16 where "RTA_TABLE \<equiv> 15"

definition anyaddr :: bytes where "anyaddr = replicate 16 0"

section \<open>Attributes\<close>

definition route_attr :: "build \<Rightarrow> attr \<Rightarrow> (u16 \<rightharpoonup> nat) \<Rightarrow> int \<times> (u16 \<rightharpoonup> nat)" where
  "route_attr b a tb = (MNL_CB_OK, if unat (fst a) \<le> rta_max b then tb(fst a \<mapsto> snd a) else tb)"

text \<open>\<open>mnl_attr_parse(nlh, sizeof(*rtm), route_attr, tb)\<close> on an empty table.\<close>

definition parse_attrs :: "build \<Rightarrow> mnl_parse \<Rightarrow> bytes \<Rightarrow> int \<times> (u16 \<rightharpoonup> nat)" where
  "parse_attrs b mnl d =
     (case mnl d SIZEOF_RTMSG of
        (ret, as) \<Rightarrow> (ret, fold (\<lambda>a tb. snd (route_attr b a tb)) as Map.empty))"

text \<open>\<open>tb[t] ? mnl_attr_get_payload(tb[t]) : anyaddr\<close>, as the memory from there on.\<close>

definition addr_attr :: "bytes \<Rightarrow> (u16 \<rightharpoonup> nat) \<Rightarrow> u16 \<Rightarrow> bytes" where
  "addr_attr d tb t = (case tb t of Some off \<Rightarrow> drop off d | None \<Rightarrow> anyaddr)"

text \<open>\<open>tb[t] ? mnl_attr_get_u32(tb[t]) : dflt\<close>.\<close>

definition u32_attr :: "bytes \<Rightarrow> (u16 \<rightharpoonup> nat) \<Rightarrow> u16 \<Rightarrow> u32 \<Rightarrow> u32 option" where
  "u32_attr d tb t dflt = (case tb t of Some off \<Rightarrow> u32_at d off | None \<Rightarrow> Some dflt)"

section \<open>Topics\<close>

definition mroute_ntop :: "u8 \<Rightarrow> bytes \<Rightarrow> nat \<Rightarrow> string option option" where
  "mroute_ntop af src sz =
     (if af = RTNL_FAMILY_IPMR then inet_ntop AF_INET src sz
      else if af = RTNL_FAMILY_IP6MR then inet_ntop AF_INET6 src sz
      else Some None)"

text \<open>The return code and what is in the buffer; nothing was written when the code is \<open>- 1\<close>.\<close>

definition mroute_topic :: "build \<Rightarrow> mnl_parse \<Rightarrow> bytes \<Rightarrow> nat \<Rightarrow> (int \<times> string) option" where
  "mroute_topic b mnl d len = do {
     table \<leftarrow> rtm_table d;
     if table = RT_TABLE_LOCAL then Some (- 1, [])
     else do {
       let (ret, tb) = parse_attrs b mnl d;
       if ret \<noteq> MNL_CB_OK then Some (- 1, [])
       else do {
         let mcastgrp = addr_attr d tb RTA_DST;
         let origin = addr_attr d tb RTA_SRC;
         ifindex \<leftarrow> u32_attr d tb RTA_IIF 0;
         oifindex \<leftarrow> u32_attr d tb RTA_OIF 0;
         tableid \<leftarrow> u32_attr d tb RTA_TABLE (ucast table);
         rd \<leftarrow> (case rtdmn b of
                None \<Rightarrow> Some []
              | Some (rta, main) \<Rightarrow> map_option (\<lambda>rd_id. fmt_u (unat rd_id) @ '' '') (u32_attr d tb rta main));
         family \<leftarrow> rtm_family d;
         b1 \<leftarrow> mroute_ntop family mcastgrp INET6_ADDRSTRLEN;
         dst_len \<leftarrow> rtm_dst_len d;
         b2 \<leftarrow> mroute_ntop family origin INET6_ADDRSTRLEN;
         src_len \<leftarrow> rtm_src_len d;
         Some (snprintf len (''route '' @ fmt_d (sint ifindex) @ '' '' @ fmt_d (sint oifindex) @ '' '' @
                 fmt_s b1 @ ''/'' @ fmt_u (unat dst_len) @ '' '' @ fmt_s b2 @ ''/'' @
                 fmt_u (unat src_len) @ '' '' @ rd @ fmt_u (unat tableid)))
       }
     }
   }"

definition mpls_ls_get_label :: "u32 \<Rightarrow> u32" where
  "mpls_ls_get_label ls = drop_bit 12 (ntohl ls AND 0xFFFFF000)"

definition mplsroute_topic :: "build \<Rightarrow> mnl_parse \<Rightarrow> bytes \<Rightarrow> nat \<Rightarrow> (int \<times> string) option" where
  "mplsroute_topic b mnl d len = do {
     let (ret, tb) = parse_attrs b mnl d;
     if ret \<noteq> MNL_CB_OK then Some (- 1, [])
     else (case tb RTA_DST of
         None \<Rightarrow> Some (- 1, [])
       | Some off \<Rightarrow> do {
           in_label \<leftarrow> u32_at d off;
           Some (snprintf len (''route-mpls '' @ fmt_u (unat (mpls_ls_get_label in_label))))
         })
   }"

text \<open>The rest of \<open>route_topic\<close>, for routes that are neither MPLS nor multicast.\<close>

definition unicast_topic :: "build \<Rightarrow> mnl_parse \<Rightarrow> bytes \<Rightarrow> nat \<Rightarrow> (int \<times> string) option" where
  "unicast_topic b mnl d len = do {
     rtype \<leftarrow> rtm_type d;
     if rtype = RTN_BROADCAST then Some (- 1, [])
     else do {
       rflags \<leftarrow> rtm_flags d;
       if rflags AND RTM_F_CLONED \<noteq> 0 then Some (- 1, [])
       else do {
         let (ret, tb) = parse_attrs b mnl d;
         if ret \<noteq> MNL_CB_OK then Some (- 1, [])
         else do {
           let dest = addr_attr d tb RTA_DST;
           table \<leftarrow> rtm_table d;
           tableid \<leftarrow> u32_attr d tb RTA_TABLE (ucast table);
           rd \<leftarrow> (case rtdmn b of
                  None \<Rightarrow> Some []
                | Some (rta, main) \<Rightarrow> map_option (\<lambda>rd_id. '' '' @ fmt_u (unat rd_id)) (u32_attr d tb rta main));
           family \<leftarrow> rtm_family d;
           b1 \<leftarrow> inet_ntop family dest INET6_ADDRSTRLEN;
           dst_len \<leftarrow> rtm_dst_len d;
           scope \<leftarrow> rtm_scope d;
           Some (snprintf len (''r '' @ fmt_s b1 @ ''/'' @ fmt_u (unat dst_len) @ '' '' @
                   fmt_u (unat scope) @ '' '' @ fmt_u (unat tableid) @ rd))
         }
       }
     }
   }"

definition route_topic :: "build \<Rightarrow> mnl_parse \<Rightarrow> bytes \<Rightarrow> nat \<Rightarrow> (int \<times> string \<times> bool) option" where
  "route_topic b mnl d len = do {
     ty \<leftarrow> nlmsg_type d;
     if ty \<noteq> RTM_NEWROUTE \<and> ty \<noteq> RTM_DELROUTE then Some (- 1, [], False)
     else do {
       let del = (ty = RTM_DELROUTE);
       family \<leftarrow> rtm_family d;
       rtype \<leftarrow> rtm_type d;
       (rc, t) \<leftarrow> (if mpls_route b \<and> family = AF_MPLS then mplsroute_topic b mnl d len
                   else if rtype = RTN_MULTICAST then mroute_topic b mnl d len
                   else unicast_topic b mnl d len);
       Some (rc, t, del)
     }
   }"

section \<open>No topic is cut off\<close>

lemma fmt_s_mroute:
  assumes "mroute_ntop af src INET6_ADDRSTRLEN = Some s"
  shows "length (fmt_s s) < INET6_ADDRSTRLEN"
proof (cases "af = RTNL_FAMILY_IPMR \<or> af = RTNL_FAMILY_IP6MR")
  case True
  then show ?thesis using assms fmt_s_ntop [of _ src s] by (auto simp: mroute_ntop_def split: if_splits)
next
  case False
  then have "s = None" using assms by (simp add: mroute_ntop_def)
  then show ?thesis by (simp add: fmt_s_def)
qed

lemma snprintf_fits: "length s < len \<Longrightarrow> snprintf len s = (int (length s), s)"
  by (simp add: snprintf_def)

definition printed :: "nat \<Rightarrow> nat \<Rightarrow> int \<times> string \<Rightarrow> bool" where
  "printed len k r \<longleftrightarrow> (\<exists>s. length s \<le> k \<and> r = snprintf len s)"

lemma printedI: "length s \<le> k \<Longrightarrow> printed len k (snprintf len s)"
  unfolding printed_def by blast

lemma u8_text: "length (fmt_u (unat (x :: u8))) \<le> 3"
  by (rule fmt_u_length(1) [OF unat_u8])

lemma u32_text: "length (fmt_u (unat (x :: u32))) \<le> 10"
  by (rule fmt_u_length(2) [OF unat_u32])

lemma mplsroute_printed:
  assumes "mplsroute_topic b mnl d len = Some r"
  shows "r = (- 1, []) \<or> printed len 160 r"
proof -
  have "length (''route-mpls '' @ fmt_u (unat (mpls_ls_get_label l))) \<le> 160" for l
    using u32_text [of "mpls_ls_get_label l"] by simp
  then show ?thesis
    using assms unfolding mplsroute_topic_def Let_def
    by (cases "parse_attrs b mnl d") (auto simp: Option.bind_eq_Some_conv intro!: printedI split: if_splits option.splits)
qed

text \<open>What \<open>unicast_topic\<close> prints, and where the parts come from.\<close>

lemma unicast_topicE:
  assumes "unicast_topic b mnl d len = Some r"
  obtains (ignored) "r = (- 1, [])"
  | (line) tb table t rd family a l s where
      "parse_attrs b mnl d = (MNL_CB_OK, tb)" "rtm_table d = Some table" "u32_attr d tb RTA_TABLE (ucast table) = Some t"
      "(case rtdmn b of None \<Rightarrow> Some [] | Some (rta, main) \<Rightarrow>
          map_option (\<lambda>rd_id. '' '' @ fmt_u (unat rd_id)) (u32_attr d tb rta main)) = Some rd"
      "rtm_family d = Some family" "inet_ntop family (addr_attr d tb RTA_DST) INET6_ADDRSTRLEN = Some a"
      "rtm_dst_len d = Some l" "rtm_scope d = Some s"
      "r = snprintf len (''r '' @ fmt_s a @ ''/'' @ fmt_u (unat l) @ '' '' @ fmt_u (unat s) @ '' '' @ fmt_u (unat t) @ rd)"
proof (cases "parse_attrs b mnl d")
  case (Pair ret tb)
  show ?thesis
    using assms ignored line [of tb]
    unfolding unicast_topic_def Let_def Pair Option.bind_eq_Some_conv
    by (auto simp: Option.bind_eq_Some_conv split: if_splits)
qed

lemma unicast_printed:
  assumes "unicast_topic b mnl d len = Some r"
  shows "r = (- 1, []) \<or> printed len 160 r"
  using assms
proof (cases rule: unicast_topicE)
  case (line tb table t rd family a l s)
  have "length rd \<le> 11" using line(4) u32_text by (auto split: option.splits)
  then have "length (''r '' @ fmt_s a @ ''/'' @ fmt_u (unat l) @ '' '' @ fmt_u (unat s) @ '' '' @ fmt_u (unat t) @ rd) \<le> 160"
    using fmt_s_ntop [OF line(6)] u8_text [of l] u8_text [of s] u32_text [of t] by simp
  then show ?thesis using line(9) by (auto intro!: printedI)
qed simp

lemma mroute_topicE:
  assumes "mroute_topic b mnl d len = Some r"
  obtains (ignored) "r = (- 1, [])"
  | (line) tb i oi t rd family g l a sl where
      "(case rtdmn b of None \<Rightarrow> Some [] | Some (rta, main) \<Rightarrow>
          map_option (\<lambda>rd_id. fmt_u (unat rd_id) @ '' '') (u32_attr d tb rta main)) = Some rd"
      "mroute_ntop family (addr_attr d tb RTA_DST) INET6_ADDRSTRLEN = Some g"
      "mroute_ntop family (addr_attr d tb RTA_SRC) INET6_ADDRSTRLEN = Some a"
      "r = snprintf len (''route '' @ fmt_d (sint (i :: u32)) @ '' '' @ fmt_d (sint (oi :: u32)) @ '' '' @
             fmt_s g @ ''/'' @ fmt_u (unat (l :: u8)) @ '' '' @ fmt_s a @ ''/'' @
             fmt_u (unat (sl :: u8)) @ '' '' @ rd @ fmt_u (unat (t :: u32)))"
proof (cases "parse_attrs b mnl d")
  case (Pair ret tb)
  show ?thesis
    using assms ignored line [of tb]
    unfolding mroute_topic_def Let_def Pair Option.bind_eq_Some_conv
    by (auto simp: Option.bind_eq_Some_conv split: if_splits)
qed

lemma mroute_printed:
  assumes "mroute_topic b mnl d len = Some r"
  shows "r = (- 1, []) \<or> printed len 160 r"
  using assms
proof (cases rule: mroute_topicE)
  case (line tb i oi t rd family g l a sl)
  have "length rd \<le> 11" using line(1) u32_text by (auto split: option.splits)
  then have "length (''route '' @ fmt_d (sint i) @ '' '' @ fmt_d (sint oi) @ '' '' @
      fmt_s g @ ''/'' @ fmt_u (unat l) @ '' '' @ fmt_s a @ ''/'' @ fmt_u (unat sl) @ '' '' @ rd @ fmt_u (unat t)) \<le> 160"
    using fmt_s_mroute [OF line(2)] fmt_s_mroute [OF line(3)] u8_text [of l] u8_text [of sl] u32_text [of t]
      fmt_d_length [of i] fmt_d_length [of oi] by simp
  then show ?thesis using line(4) by (auto intro!: printedI)
qed simp

lemma route_topicE:
  assumes "route_topic b mnl d len = Some (rc, t, del)"
  obtains (other) ty where "nlmsg_type d = Some ty" "ty \<noteq> RTM_NEWROUTE" "ty \<noteq> RTM_DELROUTE" "rc = - 1" "t = []" "\<not> del"
  | (mpls) "nlmsg_type d = Some (if del then RTM_DELROUTE else RTM_NEWROUTE)" "mpls_route b" "rtm_family d = Some AF_MPLS"
      "mplsroute_topic b mnl d len = Some (rc, t)"
  | (multicast) family where "nlmsg_type d = Some (if del then RTM_DELROUTE else RTM_NEWROUTE)" "rtm_family d = Some family"
      "\<not> (mpls_route b \<and> family = AF_MPLS)" "rtm_type d = Some RTN_MULTICAST" "mroute_topic b mnl d len = Some (rc, t)"
  | (unicast) family ty where "nlmsg_type d = Some (if del then RTM_DELROUTE else RTM_NEWROUTE)" "rtm_family d = Some family"
      "\<not> (mpls_route b \<and> family = AF_MPLS)" "rtm_type d = Some ty" "ty \<noteq> RTN_MULTICAST"
      "unicast_topic b mnl d len = Some (rc, t)"
proof -
  obtain ty where ty: "nlmsg_type d = Some ty" using assms by (auto simp: route_topic_def Option.bind_eq_Some_conv)
  show thesis
  proof (cases "ty = RTM_NEWROUTE \<or> ty = RTM_DELROUTE")
    case False
    then show thesis using other [OF ty] assms ty by (auto simp: route_topic_def)
  next
    case True
    obtain f rty where f: "rtm_family d = Some f" "rtm_type d = Some rty" "del \<longleftrightarrow> ty = RTM_DELROUTE"
      "(if mpls_route b \<and> f = AF_MPLS then mplsroute_topic b mnl d len
        else if rty = RTN_MULTICAST then mroute_topic b mnl d len else unicast_topic b mnl d len) = Some (rc, t)"
      using assms ty True by (auto simp: route_topic_def Let_def Option.bind_eq_Some_conv)
    have ty': "nlmsg_type d = Some (if del then RTM_DELROUTE else RTM_NEWROUTE)" using True f(3) ty by auto
    show thesis
      using f mpls [OF ty'] multicast [OF ty' f(1)] unicast [OF ty' f(1) _ f(2)] by (auto split: if_splits)
  qed
qed

text \<open>
  C23. The buffer for the topic is large enough: what \<open>route_topic\<close> leaves there is never cut off,
  whatever the message holds, so two routes never share a topic because of the end of the buffer.
\<close>

theorem route_topic_fits:
  assumes "route_topic b mnl d ROUTE_TOPIC_LEN = Some (rc, t, del)" and "rc > 0"
  shows "rc = int (length t) \<and> length t < ROUTE_TOPIC_LEN"
proof -
  have "(rc, t) = (- 1, []) \<or> printed ROUTE_TOPIC_LEN 160 (rc, t)"
    using assms(1) by (cases rule: route_topicE) (auto dest: mplsroute_printed mroute_printed unicast_printed)
  then show ?thesis
    using assms(2) snprintf_fits by (fastforce simp: printed_def)
qed

section \<open>Every message has a topic or is ignored\<close>

text \<open>
  A message is complete when its length field is its length, it holds both headers, and every
  attribute has the bytes that are read from it: four, or sixteen for an IPv6 address.
\<close>

definition attr_wide :: "bytes \<Rightarrow> attr \<Rightarrow> bool" where
  "attr_wide d a \<longleftrightarrow> snd a + 4 \<le> length d \<and>
     ((fst a = RTA_DST \<or> fst a = RTA_SRC) \<and>
      (rtm_family d = Some AF_INET6 \<or> rtm_family d = Some RTNL_FAMILY_IP6MR) \<longrightarrow> snd a + 16 \<le> length d)"

definition nl_valid :: "mnl_parse \<Rightarrow> bytes \<Rightarrow> bool" where
  "nl_valid mnl d \<longleftrightarrow>
     nlmsg_len d = Some (of_nat (length d)) \<and> length d < 2 ^ 32 \<and> NLMSG_HDRLEN + SIZEOF_RTMSG \<le> length d \<and>
     list_all (attr_wide d) (snd (mnl d SIZEOF_RTMSG))"

lemma byte_at_some [simp]: "i < length d \<Longrightarrow> byte_at d i = Some (d ! i)"
  by (simp add: byte_at_def)

lemma u16_at_some: "i + 2 \<le> length d \<Longrightarrow> \<exists>x. u16_at d i = Some x"
  by (simp add: u16_at_def)

lemma u32_at_some: "i + 4 \<le> length d \<Longrightarrow> \<exists>x. u32_at d i = Some x"
  by (simp add: u32_at_def)

lemma fold_attrs:
  assumes "fold (\<lambda>a tb. snd (route_attr b a tb)) as tb t = Some off"
  shows "tb t = Some off \<or> (t, off) \<in> set as"
  using assms by (induction as arbitrary: tb) (fastforce simp: route_attr_def split: if_splits)+

lemma parsed_attr:
  assumes "parse_attrs b mnl d = (ret, tb)" and "tb t = Some off"
  shows "(t, off) \<in> set (snd (mnl d SIZEOF_RTMSG))"
proof (cases "mnl d SIZEOF_RTMSG")
  case (Pair r as)
  then have "fold (\<lambda>a tb. snd (route_attr b a tb)) as Map.empty t = Some off"
    using assms by (auto simp: parse_attrs_def)
  from fold_attrs [OF this] show ?thesis using Pair by simp
qed

lemma valid_attr:
  assumes "nl_valid mnl d" and "parse_attrs b mnl d = (ret, tb)" and "tb t = Some off"
  shows "attr_wide d (t, off)"
  using assms(1) parsed_attr [OF assms(2,3)] by (auto simp: nl_valid_def list_all_iff)

lemma valid_u32_attr:
  assumes "nl_valid mnl d" and "parse_attrs b mnl d = (ret, tb)"
  shows "\<exists>x. u32_attr d tb t y = Some x"
proof (cases "tb t")
  case (Some off)
  then show ?thesis using valid_attr [OF assms Some] u32_at_some [of off d] by (simp add: u32_attr_def attr_wide_def)
qed (simp add: u32_attr_def)

lemma valid_addr_attr:
  assumes "nl_valid mnl d" and "parse_attrs b mnl d = (ret, tb)"
  shows "4 \<le> length (addr_attr d tb t)"
    "t = RTA_DST \<or> t = RTA_SRC \<Longrightarrow> rtm_family d = Some AF_INET6 \<or> rtm_family d = Some RTNL_FAMILY_IP6MR \<Longrightarrow>
      16 \<le> length (addr_attr d tb t)"
proof -
  show "4 \<le> length (addr_attr d tb t)"
    using valid_attr [OF assms, of t] by (fastforce simp: addr_attr_def anyaddr_def attr_wide_def split: option.split)
  show "16 \<le> length (addr_attr d tb t)" if "t = RTA_DST \<or> t = RTA_SRC"
    "rtm_family d = Some AF_INET6 \<or> rtm_family d = Some RTNL_FAMILY_IP6MR"
    using valid_attr [OF assms, of t] that
    by (cases "tb t") (auto simp: addr_attr_def anyaddr_def attr_wide_def)
qed

lemma inet_ntop_some:
  "(af = AF_INET \<Longrightarrow> 4 \<le> length src) \<Longrightarrow> (af = AF_INET6 \<Longrightarrow> 16 \<le> length src) \<Longrightarrow> \<exists>s. inet_ntop af src sz = Some s"
  by (auto simp: inet_ntop_def)

lemma valid_fields:
  assumes "nl_valid mnl d"
  obtains ty fam dl sl tab scope rt fl where "nlmsg_type d = Some ty" "rtm_family d = Some fam" "rtm_dst_len d = Some dl"
    "rtm_src_len d = Some sl" "rtm_table d = Some tab" "rtm_scope d = Some scope" "rtm_type d = Some rt" "rtm_flags d = Some fl"
proof -
  have "28 \<le> length d" using assms by (simp add: nl_valid_def)
  then show thesis
    using that u16_at_some [of 4 d] u32_at_some [of 24 d] by (auto simp: field_defs)
qed

lemma valid_rd:
  assumes "nl_valid mnl d" and "parse_attrs b mnl d = (ret, tb)"
  shows "\<exists>rd. (case rtdmn b of None \<Rightarrow> Some [] | Some (rta, main) \<Rightarrow> map_option f (u32_attr d tb rta main)) = Some rd"
proof (cases "rtdmn b")
  case (Some x)
  obtain rta main where "x = (rta, main)" by (cases x)
  then show ?thesis using Some valid_u32_attr [OF assms, of rta main] by auto
qed simp

lemma mplsroute_total:
  assumes "nl_valid mnl d"
  shows "\<exists>rc t. mplsroute_topic b mnl d len = Some (rc, t)"
proof (cases "parse_attrs b mnl d")
  case (Pair ret tb)
  then show ?thesis
    using valid_attr [OF assms Pair, of RTA_DST] u32_at_some [of _ d]
    by (cases "tb RTA_DST") (fastforce simp: mplsroute_topic_def snprintf_def attr_wide_def)+
qed

lemma unicast_total:
  assumes v: "nl_valid mnl d"
  shows "\<exists>rc t. unicast_topic b mnl d len = Some (rc, t)"
proof (cases "parse_attrs b mnl d")
  case (Pair ret tb)
  from v obtain ty fam dl sl tab scope rt fl where f: "nlmsg_type d = Some ty" "rtm_family d = Some fam" "rtm_dst_len d = Some dl"
    "rtm_src_len d = Some sl" "rtm_table d = Some tab" "rtm_scope d = Some scope" "rtm_type d = Some rt" "rtm_flags d = Some fl"
    by (rule valid_fields)
  obtain t where t: "u32_attr d tb RTA_TABLE (ucast tab) = Some t" using valid_u32_attr [OF v Pair] by blast
  obtain rd where rd: "(case rtdmn b of None \<Rightarrow> Some [] | Some (rta, main) \<Rightarrow>
      map_option (\<lambda>rd_id. '' '' @ fmt_u (unat rd_id)) (u32_attr d tb rta main)) = Some rd"
    using valid_rd [OF v Pair] by blast
  obtain a where a: "inet_ntop fam (addr_attr d tb RTA_DST) INET6_ADDRSTRLEN = Some a"
    using inet_ntop_some [of fam "addr_attr d tb RTA_DST"] valid_addr_attr [OF v Pair, of RTA_DST] f(2) by auto
  show ?thesis by (simp add: unicast_topic_def Pair f t rd a snprintf_def)
qed

lemma mroute_total:
  assumes v: "nl_valid mnl d"
  shows "\<exists>rc t. mroute_topic b mnl d len = Some (rc, t)"
proof (cases "parse_attrs b mnl d")
  case (Pair ret tb)
  from v obtain ty fam dl sl tab scope rt fl where f: "nlmsg_type d = Some ty" "rtm_family d = Some fam" "rtm_dst_len d = Some dl"
    "rtm_src_len d = Some sl" "rtm_table d = Some tab" "rtm_scope d = Some scope" "rtm_type d = Some rt" "rtm_flags d = Some fl"
    by (rule valid_fields)
  obtain t i oi where t: "u32_attr d tb RTA_TABLE (ucast tab) = Some t" "u32_attr d tb RTA_IIF 0 = Some i"
    "u32_attr d tb RTA_OIF 0 = Some oi" using valid_u32_attr [OF v Pair] by blast
  obtain rd where rd: "(case rtdmn b of None \<Rightarrow> Some [] | Some (rta, main) \<Rightarrow>
      map_option (\<lambda>rd_id. fmt_u (unat rd_id) @ '' '') (u32_attr d tb rta main)) = Some rd"
    using valid_rd [OF v Pair] by blast
  have ntop: "\<exists>a. mroute_ntop fam (addr_attr d tb x) INET6_ADDRSTRLEN = Some a" if "x = RTA_DST \<or> x = RTA_SRC" for x
    using inet_ntop_some [of AF_INET "addr_attr d tb x"] inet_ntop_some [of AF_INET6 "addr_attr d tb x"]
      valid_addr_attr [OF v Pair, of x] f(2) that by (auto simp: mroute_ntop_def)
  obtain g a where a: "mroute_ntop fam (addr_attr d tb RTA_DST) INET6_ADDRSTRLEN = Some g"
    "mroute_ntop fam (addr_attr d tb RTA_SRC) INET6_ADDRSTRLEN = Some a"
    using ntop by blast
  show ?thesis by (simp add: mroute_topic_def Pair f t rd a snprintf_def)
qed

lemma route_topic_total:
  assumes v: "nl_valid mnl d"
  shows "\<exists>rc t del. route_topic b mnl d len = Some (rc, t, del)"
proof -
  from v obtain ty fam dl sl tab scope rt fl where f: "nlmsg_type d = Some ty" "rtm_family d = Some fam" "rtm_dst_len d = Some dl"
    "rtm_src_len d = Some sl" "rtm_table d = Some tab" "rtm_scope d = Some scope" "rtm_type d = Some rt" "rtm_flags d = Some fl"
    by (rule valid_fields)
  obtain r where "(if mpls_route b \<and> fam = AF_MPLS then mplsroute_topic b mnl d len
      else if rt = RTN_MULTICAST then mroute_topic b mnl d len else unicast_topic b mnl d len) = Some r"
    using mplsroute_total [OF v] mroute_total [OF v] unicast_total [OF v] by fastforce
  then show ?thesis by (cases r) (auto simp: route_topic_def f intro: exI [of _ False])
qed

section \<open>A topic names a route\<close>

lemma sep_split:
  assumes "x \<notin> set xs" "x \<notin> set xs'"
  shows "xs @ x # ys = xs' @ x # ys' \<longleftrightarrow> xs = xs' \<and> ys = ys'"
proof -
  have t: "takeWhile (\<lambda>y. y \<noteq> x) (zs @ x # us) = zs" "dropWhile (\<lambda>y. y \<noteq> x) (zs @ x # us) = x # us"
    if "x \<notin> set zs" for zs us
    using that by (induction zs) auto
  show ?thesis using t [OF assms(1)] t [OF assms(2)] by (metis list.inject)
qed

lemma ntop4_inj:
  assumes "4 \<le> length src" "4 \<le> length src'"
  shows "ntop4 src = ntop4 src' \<longleftrightarrow> take 4 src = take 4 src'"
proof -
  have t: "take 4 xs = [xs ! 0, xs ! 1, xs ! 2, xs ! 3]" if "4 \<le> length xs" for xs :: bytes
    using that by (auto simp: list_eq_iff_nth_eq less_Suc_eq numeral_eq_Suc)
  have "ntop4 src = ntop4 src' \<longleftrightarrow>
      unat (src ! 0) = unat (src' ! 0) \<and> unat (src ! 1) = unat (src' ! 1) \<and>
      unat (src ! 2) = unat (src' ! 2) \<and> unat (src ! 3) = unat (src' ! 3)"
    by (simp add: ntop4_def sep_split)
  then show ?thesis using t assms by (simp add: unsigned_word_eqI word_unat_eq_iff)
qed

lemma ntop4_slash: "CHR ''/'' \<notin> set (ntop4 src)" "CHR '':'' \<notin> set (ntop4 src)"
  by (simp_all add: ntop4_def)

lemma ntop4_length: "length (ntop4 src) \<le> 15"
  using fmt_u_length(1) [OF unat_u8, of "src ! 0"] fmt_u_length(1) [OF unat_u8, of "src ! 1"]
    fmt_u_length(1) [OF unat_u8, of "src ! 2"] fmt_u_length(1) [OF unat_u8, of "src ! 3"]
  by (simp add: ntop4_def)

text \<open>What the topic of an IPv4 unicast route is made of: the identity of the route.\<close>

definition v4_key ::
  "build \<Rightarrow> mnl_parse \<Rightarrow> bytes \<Rightarrow> bytes \<times> u8 option \<times> u8 option \<times> u32 option \<times> u32 option" where
  "v4_key b mnl d =
     (let tb = snd (parse_attrs b mnl d) in
      (take 4 (addr_attr d tb RTA_DST), rtm_dst_len d, rtm_scope d,
       Option.bind (rtm_table d) (\<lambda>table. u32_attr d tb RTA_TABLE (ucast table)),
       Option.bind (rtdmn b) (\<lambda>(rta, main). u32_attr d tb rta main)))"

lemma unicast_v4_text:
  assumes "unicast_topic b mnl d ROUTE_TOPIC_LEN = Some (rc, t)" and "rc > 0" and "rtm_family d = Some AF_INET"
  obtains a l s x rd where "4 \<le> length a" "v4_key b mnl d = (take 4 a, Some l, Some s, Some x, rd)"
    "rd = None \<longleftrightarrow> rtdmn b = None"
    "t = ''r '' @ ntop4 a @ ''/'' @ fmt_u (unat l) @ '' '' @ fmt_u (unat s) @ '' '' @ fmt_u (unat x) @
       (case rd of None \<Rightarrow> [] | Some n \<Rightarrow> '' '' @ fmt_u (unat n))"
  using assms(1)
proof (cases rule: unicast_topicE)
  case ignored
  then show thesis using assms(2) by simp
next
  case (line tb table x rd family a l s)
  let ?a = "addr_attr d tb RTA_DST"
  have a: "4 \<le> length ?a" "a = Some (ntop4 ?a)"
    using line(5,6) assms(3) ntop4_length [of ?a] by (auto simp: inet_ntop_def split: if_splits)
  define u where "u = ''r '' @ fmt_s a @ ''/'' @ fmt_u (unat l) @ '' '' @ fmt_u (unat s) @ '' '' @ fmt_u (unat x) @ rd"
  have "length rd \<le> 11" using line(4) u32_text by (auto split: option.splits)
  then have "length u < ROUTE_TOPIC_LEN"
    using a ntop4_length [of ?a] u8_text [of l] u8_text [of s] u32_text [of x] by (simp add: u_def fmt_s_def)
  then have t: "t = u" using line(9) snprintf_fits [of u] by (simp add: u_def)
  obtain n where n: "Option.bind (rtdmn b) (\<lambda>(rta, main). u32_attr d tb rta main) = n"
    "n = None \<longleftrightarrow> rtdmn b = None" "rd = (case n of None \<Rightarrow> [] | Some n \<Rightarrow> '' '' @ fmt_u (unat n))"
    using line(4) by (cases "rtdmn b") auto
  show thesis
    by (rule that [of ?a l s x n])
      (use a n t line in \<open>simp_all add: v4_key_def u_def fmt_s_def\<close>)
qed

text \<open>
  C22. Topics tell IPv4 unicast routes apart: two messages that are not ignored get the same topic
  exactly when they agree in destination, prefix length, scope, table and routing domain. So an
  update or a delete finds the entry of its own route and of no other.
\<close>

theorem route_topic_v4_key:
  assumes "route_topic b mnl d ROUTE_TOPIC_LEN = Some (rc, t, del)" and "rc > 0"
    and "rtm_family d = Some AF_INET" and "rtm_type d \<noteq> Some RTN_MULTICAST"
    and "route_topic b mnl d' ROUTE_TOPIC_LEN = Some (rc', t', del')" and "rc' > 0"
    and "rtm_family d' = Some AF_INET" and "rtm_type d' \<noteq> Some RTN_MULTICAST"
  shows "t = t' \<longleftrightarrow> v4_key b mnl d = v4_key b mnl d'"
proof -
  have u: "unicast_topic b mnl d ROUTE_TOPIC_LEN = Some (rc, t)"
    using assms(1-4) by (cases rule: route_topicE) auto
  have u': "unicast_topic b mnl d' ROUTE_TOPIC_LEN = Some (rc', t')"
    using assms(5-8) by (cases rule: route_topicE) auto
  from u assms(2,3) obtain a l s x rd where k: "4 \<le> length a" "v4_key b mnl d = (take 4 a, Some l, Some s, Some x, rd)"
    "rd = None \<longleftrightarrow> rtdmn b = None"
    "t = ''r '' @ ntop4 a @ ''/'' @ fmt_u (unat l) @ '' '' @ fmt_u (unat s) @ '' '' @ fmt_u (unat x) @
       (case rd of None \<Rightarrow> [] | Some n \<Rightarrow> '' '' @ fmt_u (unat n))" by (rule unicast_v4_text)
  from u' assms(6,7) obtain a' l' s' x' rd' where k': "4 \<le> length a'"
    "v4_key b mnl d' = (take 4 a', Some l', Some s', Some x', rd')" "rd' = None \<longleftrightarrow> rtdmn b = None"
    "t' = ''r '' @ ntop4 a' @ ''/'' @ fmt_u (unat l') @ '' '' @ fmt_u (unat s') @ '' '' @ fmt_u (unat x') @
       (case rd' of None \<Rightarrow> [] | Some n \<Rightarrow> '' '' @ fmt_u (unat n))" by (rule unicast_v4_text)
  have "t = t' \<longleftrightarrow> ntop4 a = ntop4 a' \<and> unat l = unat l' \<and> unat s = unat s' \<and> unat x = unat x' \<and> rd = rd'"
  proof (cases rd)
    case None
    then have "rd' = None" using k(3) k'(3) by simp
    then show ?thesis using None by (simp add: k(4) k'(4) sep_split ntop4_slash)
  next
    case (Some n)
    then obtain n' where "rd' = Some n'" using k(3) k'(3) by auto
    then show ?thesis using Some by (auto simp: k(4) k'(4) sep_split ntop4_slash word_unat_eq_iff)
  qed
  then show ?thesis using ntop4_inj [OF k(1) k'(1)] by (simp add: k(2) k'(2) word_unat_eq_iff)
qed

text \<open>Examples: a walk over the attributes, and messages for 10.0.x.0/24 in the main table.\<close>

fun eg_attrs :: "nat \<Rightarrow> bytes \<Rightarrow> nat \<Rightarrow> attr list" where
  "eg_attrs 0 d off = []"
| "eg_attrs (Suc n) d off =
     (case (u16_at d off, u16_at d (off + 2)) of
        (Some len, Some ty) \<Rightarrow>
          if 4 \<le> len \<and> off + unat len \<le> length d
          then (ty, off + 4) # eg_attrs n d (off + (unat len + 3) div 4 * 4) else []
      | _ \<Rightarrow> [])"

definition eg_mnl :: mnl_parse where
  "eg_mnl d off = (MNL_CB_OK, eg_attrs (length d) d (NLMSG_HDRLEN + off))"

definition eg_build :: build where
  "eg_build = \<lparr>rta_max = 30, mpls_route = True, rtdmn = None\<rparr>"

definition eg_msg :: "u8 \<Rightarrow> u8 \<Rightarrow> bytes" where
  "eg_msg ty net = [36,0,0,0, ty,0, 0,0, 0,0,0,0, 0,0,0,0, 2,24,0,0,254,2,0,1, 0,0,0,0, 8,0,1,0, 10,0,net,0]"

lemma eg_msg_topic:
  "route_topic eg_build eg_mnl (eg_msg 24 1) ROUTE_TOPIC_LEN = Some (19, ''r 10.0.1.0/24 0 254'', False)"
  "route_topic eg_build eg_mnl (eg_msg 24 2) ROUTE_TOPIC_LEN = Some (19, ''r 10.0.2.0/24 0 254'', False)"
  by code_simp+

lemma eg_msg_fields: "rtm_family (eg_msg ty net) = Some AF_INET" "rtm_type (eg_msg ty net) \<noteq> Some RTN_MULTICAST"
  by (simp_all add: field_defs eg_msg_def byte_at_def)

theorem route_topic_v4_key_witness:
  "v4_key eg_build eg_mnl (eg_msg 24 1) \<noteq> v4_key eg_build eg_mnl (eg_msg 24 2)"
  using route_topic_v4_key [OF eg_msg_topic(1) _ eg_msg_fields eg_msg_topic(2) _ eg_msg_fields] by simp

theorem route_topic_fits_witness: "length ''r 10.0.1.0/24 0 254'' < ROUTE_TOPIC_LEN"
  using route_topic_fits [OF eg_msg_topic(1)] by simp

end
