(* ===== verification/Process.thy ===== *)
theory Process
  imports Fpm Topic
begin

text \<open>
  Messages from the kernel and from the routing daemon, \<open>src/daemon/broker_process.c\<close>: each route
  message is brought into the form the dataplane expects and published.

  A message is given by the memory from its header to the end of the buffer it was received in; a
  read outside of it is \<open>None\<close>. The world behind the daemon, the broker it publishes to, is a
  parameter of type \<open>'w\<close>: \<open>publish\<close> is \<open>route_broker_publish\<close>, \<open>show_broker\<close> is \<open>route_broker_show\<close>.
\<close>

text \<open>A line of the output; of \<open>perror\<close> only its argument.\<close>

datatype log_line = Text string | Broker show_line

record 'w host =
  broker_debug :: bool
  attr_parse :: mnl_parse
  publish :: "bytes \<Rightarrow> int \<Rightarrow> 'w \<Rightarrow> 'w option"
  show_broker :: "'w \<Rightarrow> show_line list option"

record 'w proc =
  stderr :: "log_line list"
  world :: 'w

definition eprint :: "string \<Rightarrow> 'w proc \<Rightarrow> 'w proc" where
  "eprint s p = p\<lparr>stderr := stderr p @ [Text s]\<rparr>"

section \<open>Names of the constants\<close>

text \<open>An array of strings with designated initialisers: what is not named is \<open>NULL\<close>.\<close>

definition designated :: "(nat \<times> string) list \<Rightarrow> string option list" where
  "designated es = map (map_of es) [0..<Suc (foldr max (map fst es) 0)]"

definition str_of :: "string option list \<Rightarrow> nat \<Rightarrow> string" where
  "str_of a i = (if i < length a then (case a ! i of Some s \<Rightarrow> s | None \<Rightarrow> ''unknown'') else ''unknown'')"

definition nlmsg_type_str :: "string option list" where
  "nlmsg_type_str = designated [(24, ''newroute''), (25, ''delroute'')]"

definition nlmsg_type2str :: "nat \<Rightarrow> string" where
  "nlmsg_type2str ty = str_of nlmsg_type_str ty"

definition rtm_type_str :: "string option list" where
  "rtm_type_str = designated [(0, ''unspec''), (1, ''unicast''), (2, ''local''), (6, ''blackhole''), (7, ''unreachable'')]"

definition rtm_type2str :: "nat \<Rightarrow> string" where
  "rtm_type2str ty = str_of rtm_type_str ty"

definition rtm_table_str :: "string option list" where
  "rtm_table_str = designated [(0, ''unspec''), (252, ''compat''), (253, ''default''), (254, ''main''), (255, ''local'')]"

definition rtm_table2str :: "nat \<Rightarrow> string" where
  "rtm_table2str table = str_of rtm_table_str table"

definition rtm_proto_str :: "string option list" where
  "rtm_proto_str = designated [(0, ''unspecified''), (2, ''kernel''), (4, ''static''), (11, ''zebra'')]"

definition rtm_proto2str :: "nat \<Rightarrow> string" where
  "rtm_proto2str proto = str_of rtm_proto_str proto"

definition rtm_scope_str :: "string option list" where
  "rtm_scope_str = designated [(0, ''universe''), (253, ''link''), (254, ''host'')]"

definition rtm_scope2str :: "nat \<Rightarrow> string" where
  "rtm_scope2str scope = str_of rtm_scope_str scope"

definition rtm_af_str :: "string option list" where
  "rtm_af_str = designated [(2, ''ipv4''), (10, ''ipv6''), (28, ''mpls'')]"

definition rtm_af2str :: "nat \<Rightarrow> string" where
  "rtm_af2str af = str_of rtm_af_str af"

definition rtm_attr_str :: "string option list" where
  "rtm_attr_str = designated [(1, ''dst''), (2, ''src''), (4, ''oif''), (5, ''gate''), (6, ''prio''), (9, ''mpath'')]"

definition rtm_attr2str :: "nat \<Rightarrow> string" where
  "rtm_attr2str attr = str_of rtm_attr_str attr"

section \<open>Dumping a message\<close>

abbreviation RTA_GATEWAY :: u16 where "RTA_GATEWAY \<equiv> 5"
abbreviation RTA_PRIORITY :: u16 where "RTA_PRIORITY \<equiv> 6"

text \<open>\<open>"%s(%u)"\<close> of a name and its number.\<close>

definition named :: "(nat \<Rightarrow> string) \<Rightarrow> nat \<Rightarrow> string" where
  "named f n = f n @ ''('' @ fmt_u n @ '')''"

definition dump_rtattr :: "bytes \<Rightarrow> attr \<Rightarrow> string option" where
  "dump_rtattr d a = do {
     let ty = fst a;
     let hd = ''  '' @ named rtm_attr2str (unat ty) @ '':'' @ [CHR 0x09];
     if ty = RTA_DST \<or> ty = RTA_GATEWAY then do {
       family \<leftarrow> rtm_family d;
       ipstr \<leftarrow> inet_ntop family (drop (snd a) d) INET6_ADDRSTRLEN;
       l \<leftarrow> rtm_dst_len d;
       Some (hd @ (case ipstr of Some ip \<Rightarrow> ip @ ''/'' @ fmt_u (unat l) | None \<Rightarrow> []))
     }
     else if ty = RTA_PRIORITY \<or> ty = RTA_OIF then do {
       v \<leftarrow> u32_at d (snd a);
       Some (hd @ fmt_u (unat v))
     }
     else Some hd
   }"

fun dump_attrs :: "bytes \<Rightarrow> attr list \<Rightarrow> 'w proc \<Rightarrow> 'w proc option" where
  "dump_attrs d [] p = Some p"
| "dump_attrs d (a # as) p = do {
     s \<leftarrow> dump_rtattr d a;
     dump_attrs d as (eprint s p)
   }"

definition dump_rtmsg :: "'w host \<Rightarrow> bytes \<Rightarrow> 'w proc \<Rightarrow> 'w proc option" where
  "dump_rtmsg h d p = do {
     len \<leftarrow> nlmsg_len d;
     let rlen = len - 28;
     ty \<leftarrow> nlmsg_type d;
     pid \<leftarrow> nlmsg_pid d;
     family \<leftarrow> rtm_family d;
     rty \<leftarrow> rtm_type d;
     table \<leftarrow> rtm_table d;
     proto \<leftarrow> rtm_protocol d;
     scope \<leftarrow> rtm_scope d;
     let p = eprint (''['' @ named nlmsg_type2str (unat ty) @ '', pid '' @ fmt_u (unat pid) @ '', len '' @ fmt_u (unat rlen)
       @ '']: af '' @ named rtm_af2str (unat family) @ '' type '' @ named rtm_type2str (unat rty)
       @ '', table '' @ named rtm_table2str (unat table) @ '', proto '' @ named rtm_proto2str (unat proto)
       @ '', scope '' @ named rtm_scope2str (unat scope)) p;
     dump_attrs d (snd (attr_parse h d SIZEOF_RTMSG)) p
   }"

section \<open>Route messages\<close>

text \<open>\<open>NLMSG_LENGTH(sizeof(struct rtmsg))\<close>.\<close>

abbreviation RTMSG_LENGTH :: u32 where "RTMSG_LENGTH \<equiv> 28"

text \<open>Stores to the message; the fields were read before, so they are inside of the memory.\<close>

definition set_rtm_table :: "u8 \<Rightarrow> bytes \<Rightarrow> bytes" where "set_rtm_table v d = d[20 := v]"
definition set_rtm_scope :: "u8 \<Rightarrow> bytes \<Rightarrow> bytes" where "set_rtm_scope v d = d[22 := v]"
definition set_rtm_type :: "u8 \<Rightarrow> bytes \<Rightarrow> bytes" where "set_rtm_type v d = d[23 := v]"
definition set_nlmsg_flags :: "u16 \<Rightarrow> bytes \<Rightarrow> bytes" where
  "set_nlmsg_flags v d = d[6 := ucast v, 7 := ucast (drop_bit 8 v)]"

text \<open>The priority and the message that are handed to \<open>route_broker_publish\<close>.\<close>

definition rtnl_connected :: "bytes \<Rightarrow> (int \<times> bytes) option" where
  "rtnl_connected d = do {
     proto \<leftarrow> rtm_protocol d;
     if proto = RTPROT_KERNEL then do {
       family \<leftarrow> rtm_family d;
       if family = AF_INET then do {
         scope \<leftarrow> rtm_scope d;
         Some (ROUTE_CONNECTED, if scope = RT_SCOPE_LINK then set_rtm_scope RT_SCOPE_UNIVERSE d else d)
       } else Some (ROUTE_CONNECTED, d)
     } else Some (ROUTE_OTHER, d)
   }"

definition rtnl_main_table :: "bytes \<Rightarrow> bytes option" where
  "rtnl_main_table d = do {
     table \<leftarrow> rtm_table d;
     Some (if table = RT_TABLE_UNSPEC then set_rtm_table RT_TABLE_MAIN d else d)
   }"

definition rtnl_delete_type :: "bytes \<Rightarrow> bytes option" where
  "rtnl_delete_type d = do {
     ty \<leftarrow> nlmsg_type d;
     pid \<leftarrow> nlmsg_pid d;
     if ty = RTM_DELROUTE \<and> pid \<noteq> 0 then do {
       rty \<leftarrow> rtm_type d;
       Some (if rty = RTN_UNSPEC then set_rtm_type RTN_UNICAST d else d)
     } else Some d
   }"

definition rtnl_normal :: "bytes \<Rightarrow> (int \<times> bytes) option" where
  "rtnl_normal d = do {
     (route_priority, d) \<leftarrow> rtnl_connected d;
     d \<leftarrow> rtnl_main_table d;
     d \<leftarrow> rtnl_delete_type d;
     Some (route_priority, d)
   }"

text \<open>\<open>process_rtnl\<close> returns the memory as it leaves it.\<close>

definition process_rtnl :: "'w host \<Rightarrow> bytes \<Rightarrow> 'w proc \<Rightarrow> (bytes \<times> 'w proc) option" where
  "process_rtnl h d p = do {
     len \<leftarrow> nlmsg_len d;
     if len < RTMSG_LENGTH then do {
       ty \<leftarrow> nlmsg_type d;
       Some (d, eprint (''['' @ named nlmsg_type2str (unat ty) @ '', len '' @ fmt_u (unat len) @ '']: too short'') p)
     } else do {
       p \<leftarrow> (if broker_debug h then dump_rtmsg h d p else Some p);
       (route_priority, d) \<leftarrow> rtnl_normal d;
       w \<leftarrow> publish h d route_priority (world p);
       Some (d, p\<lparr>world := w\<rparr>)
     }
   }"

section \<open>The messages of a buffer\<close>

definition nlmsg_align :: "u32 \<Rightarrow> u32" where
  "nlmsg_align len = (len + 4 - 1) AND NOT (4 - 1)"

definition nlmsg_ok :: "bytes \<Rightarrow> u64 \<Rightarrow> bool option" where
  "nlmsg_ok d len =
     (if len < 16 then Some False
      else do {
        l \<leftarrow> nlmsg_len d;
        Some (l \<ge> 16 \<and> ucast l \<le> len)
      })"

definition nlmsg_next :: "bytes \<Rightarrow> u64 \<Rightarrow> (bytes \<times> u64) option" where
  "nlmsg_next d len = do {
     l \<leftarrow> nlmsg_len d;
     Some (drop (unat (nlmsg_align l)) d, len - ucast (nlmsg_align l))
   }"

text \<open>The body of the loop.\<close>

definition process_msg :: "'w host \<Rightarrow> bytes \<Rightarrow> 'w proc \<Rightarrow> (bytes \<times> 'w proc) option" where
  "process_msg h d p = do {
     ty \<leftarrow> nlmsg_type d;
     if ty = RTM_NEWROUTE then do {
       fl \<leftarrow> nlmsg_flags d;
       process_rtnl h (set_nlmsg_flags (fl OR NLM_F_REPLACE) d) p
     }
     else if ty = RTM_DELROUTE then process_rtnl h d p
     else Some (d, p)
   }"

partial_function (option) process_nlmsg :: "'w host \<Rightarrow> bytes \<Rightarrow> u64 \<Rightarrow> 'w proc \<Rightarrow> 'w proc option" where
  [code]: "process_nlmsg h d len p = do {
     ok \<leftarrow> nlmsg_ok d len;
     if \<not> ok then Some p
     else do {
       (d, p) \<leftarrow> process_msg h d p;
       (d, len) \<leftarrow> nlmsg_next d len;
       process_nlmsg h d len p
     }
   }"

section \<open>Receiving\<close>

text \<open>
  What a socket will deliver: pieces of data as they arrive, or an error. The end of the list is the
  end of the connection. \<open>recv\<close> gives its result, the bytes, and what the socket delivers after.
\<close>

datatype event = Chunk bytes | Failed

fun recv :: "nat \<Rightarrow> event list \<Rightarrow> int \<times> bytes \<times> event list" where
  "recv n [] = (0, [], [])"
| "recv n (Failed # es) = (- 1, [], es)"
| "recv n (Chunk bs # es) =
     (if bs = [] then recv n es
      else (int (length (take n bs)), take n bs, if length bs \<le> n then es else Chunk (drop n bs) # es))"

text \<open>On a datagram socket what does not fit is lost.\<close>

fun recv_datagram :: "nat \<Rightarrow> event list \<Rightarrow> int \<times> bytes \<times> event list" where
  "recv_datagram n [] = (0, [], [])"
| "recv_datagram n (Failed # es) = (- 1, [], es)"
| "recv_datagram n (Chunk bs # es) = (int (length (take n bs)), take n bs, es)"

text \<open>Storing at offset \<open>l\<close> of a buffer; a store outside of it is a fault.\<close>

definition store :: "nat \<Rightarrow> bytes \<Rightarrow> bytes \<Rightarrow> bytes option" where
  "store l bs buf = (if l + length bs \<le> length buf then Some (take l buf @ bs @ drop (l + length bs) buf) else None)"

text \<open>
  \<open>for (; l < sz; l += n) n = recv(fd, buf + l, sz - l, 0)\<close> with the return out of the loop:
  the last result, the buffer and the socket. \<open>n\<close> is what \<open>n\<close> was before.
\<close>

function recv_loop :: "nat \<Rightarrow> nat \<Rightarrow> int \<Rightarrow> bytes \<Rightarrow> event list \<Rightarrow> (int \<times> bytes \<times> event list) option" where
  "recv_loop sz l n buf es =
     (if l < sz then
        (case recv (sz - l) es of
           (n, bs, es) \<Rightarrow>
             if n \<le> 0 then Some (n, buf, es)
             else do {
               buf \<leftarrow> store l bs buf;
               recv_loop sz (l + nat n) n buf es
             })
      else Some (n, buf, es))"
  by pat_completeness auto
termination
  by (relation "measure (\<lambda>(sz, l, _). sz - l)") auto

declare recv_loop.simps [simp del]

abbreviation BROKER_FPM_VERSION :: u8 where "BROKER_FPM_VERSION \<equiv> 1"

text \<open>The listing behind \<open>if (broker_debug)\<close>.\<close>

definition show_debug :: "'w host \<Rightarrow> 'w proc \<Rightarrow> 'w proc option" where
  "show_debug h p =
     (if broker_debug h then do {
        ls \<leftarrow> show_broker h (world p);
        Some (p\<lparr>stderr := stderr p @ map Broker ls\<rparr>)
      } else Some p)"

definition debug_print :: "'w host \<Rightarrow> string \<Rightarrow> 'w proc \<Rightarrow> 'w proc" where
  "debug_print h s p = (if broker_debug h then eprint s p else p)"

text \<open>\<open>buf\<close> is what the stack holds where the buffer is put.\<close>

definition broker_process_fpm ::
  "'w host \<Rightarrow> bytes \<Rightarrow> event list \<Rightarrow> 'w proc \<Rightarrow> (int \<times> event list \<times> 'w proc) option" where
  "broker_process_fpm h buf es p = do {
     (n, buf, es) \<leftarrow> recv_loop 4 0 0 buf es;
     if n \<le> 0 then Some (n, es, if n < 0 then eprint ''FPM recv'' p else p)
     else do {
       fpm \<leftarrow> fpm_hdr_at buf;
       if \<not> fpm_msg_hdr_ok fpm then Some (- 1, es, eprint ''corrupt FPM header'' p)
       else if version fpm \<noteq> BROKER_FPM_VERSION then
         Some (- 1, es, eprint (''unknown FPM version '' @ fmt_u (unat (version fpm))) p)
       else if msg_type fpm \<noteq> FPM_MSG_TYPE_NETLINK then
         Some (- 1, es, eprint (''unexpected FPM message type '' @ fmt_u (unat (msg_type fpm))) p)
       else if fpm_msg_len fpm > FPM_MAX_MSG_LEN then
         Some (- 1, es, eprint (''FPM message too big for buffer '' @ fmt_u (unat (fpm_msg_len fpm)) @ '' > 4096'') p)
       else do {
         (n, buf, es) \<leftarrow> recv_loop (unat (fpm_msg_len fpm)) 4 n buf es;
         if n \<le> 0 then Some (n, es, if n < 0 then eprint ''FPM recv'' p else p)
         else do {
           let p = debug_print h (''Received '' @ fmt_d n @ '' bytes from FPM'') p;
           p \<leftarrow> process_nlmsg h (drop (fpm_msg_data 0) buf) (fpm_msg_data_len fpm) p;
           p \<leftarrow> show_debug h p;
           Some (n, es, p)
         }
       }
     }
   }"

abbreviation BUFSIZ :: nat where "BUFSIZ \<equiv> 8192"

definition broker_process_nl ::
  "'w host \<Rightarrow> bytes \<Rightarrow> event list \<Rightarrow> 'w proc \<Rightarrow> (int \<times> event list \<times> 'w proc) option" where
  "broker_process_nl h buf es p =
     (case recv_datagram BUFSIZ es of
        (n, bs, es) \<Rightarrow>
          if n \<le> 0 then Some (n, es, if n < 0 then eprint ''NL recv'' p else p)
          else do {
            buf \<leftarrow> store 0 bs buf;
            let p = debug_print h (''Received '' @ fmt_d n @ '' bytes from NL'') p;
            p \<leftarrow> process_nlmsg h buf (word_of_int n) p;
            p \<leftarrow> show_debug h p;
            Some (n, es, p)
          })"

section \<open>Dumping the routes of the kernel\<close>

definition dump_route :: "'w host \<Rightarrow> bytes \<Rightarrow> 'w proc \<Rightarrow> (int \<times> bytes \<times> 'w proc) option" where
  "dump_route h d p = do {
     ty \<leftarrow> nlmsg_type d;
     len \<leftarrow> nlmsg_len d;
     if ty = RTM_NEWROUTE \<and> len \<ge> RTMSG_LENGTH then do {
       proto \<leftarrow> rtm_protocol d;
       if proto = RTPROT_KERNEL then do {
         (d, p) \<leftarrow> process_rtnl h d p;
         Some (MNL_CB_OK, d, p)
       }
       else if broker_debug h then do {
         p \<leftarrow> dump_rtmsg h d (eprint (''ignore non-kernel dump of '' @ fmt_u (unat len) @ '' bytes:'') p);
         Some (MNL_CB_OK, d, p)
       }
       else Some (MNL_CB_OK, d, p)
     }
     else Some (MNL_CB_OK, d, debug_print h (''undecodable dump of type '' @ named nlmsg_type2str (unat ty)
       @ '', len '' @ fmt_u (unat len)) p)
   }"

text \<open>
  The socket of libmnl. \<open>cb_run\<close> is \<open>mnl_cb_run\<close> on a buffer: what it returns, when the callback
  always returns \<open>MNL_CB_OK\<close>, and the offsets of the messages it calls it on. \<open>recvfrom k\<close> is what the
  \<open>k\<close>-th receive delivers, \<open>None\<close> for an error.
\<close>

record dump_request =
  req_type :: u16
  req_flags :: u16
  req_seq :: u32
  rtgen_family :: u8

record mnl_socket =
  socket_open :: bool
  sendto :: "dump_request \<Rightarrow> int"
  recvfrom :: "nat \<Rightarrow> bytes option"
  cb_run :: "bytes \<Rightarrow> int \<times> nat list"

abbreviation MNL_CB_STOP :: int where "MNL_CB_STOP \<equiv> 0"
abbreviation RTM_GETROUTE :: u16 where "RTM_GETROUTE \<equiv> 26"
abbreviation NLM_F_REQUEST :: u16 where "NLM_F_REQUEST \<equiv> 1"
abbreviation NLM_F_DUMP :: u16 where "NLM_F_DUMP \<equiv> 0x300"

text \<open>A run of the program ends in \<open>exit\<close> with a status, or goes on.\<close>

type_synonym 'a run = "(int + 'a) option"

fun run_callback :: "'w host \<Rightarrow> nat list \<Rightarrow> bytes \<Rightarrow> 'w proc \<Rightarrow> 'w proc option" where
  "run_callback h [] buf p = Some p"
| "run_callback h (off # offs) buf p = do {
     (_, d, p) \<leftarrow> dump_route h (drop off buf) p;
     run_callback h offs (take off buf @ d) p
   }"

partial_function (option) dump_loop :: "'w host \<Rightarrow> mnl_socket \<Rightarrow> nat \<Rightarrow> 'w proc \<Rightarrow> (nat \<times> 'w proc) run" where
  [code]: "dump_loop h s k p =
     (case recvfrom s k of
        None \<Rightarrow> Some (Inl 1)
      | Some buf \<Rightarrow> do {
          let p = debug_print h (''got dump of '' @ fmt_u (length buf) @ '' bytes'') p;
          p \<leftarrow> run_callback h (snd (cb_run s buf)) buf p;
          if fst (cb_run s buf) \<le> MNL_CB_STOP then Some (Inr (Suc k, p)) else dump_loop h s (Suc k) p
        })"

definition dump_af_routes :: "'w host \<Rightarrow> mnl_socket \<Rightarrow> u32 \<Rightarrow> u8 \<Rightarrow> nat \<Rightarrow> 'w proc \<Rightarrow> (nat \<times> 'w proc) run" where
  "dump_af_routes h s seq af k p =
     (if sendto s \<lparr>req_type = RTM_GETROUTE, req_flags = NLM_F_REQUEST OR NLM_F_DUMP, req_seq = seq, rtgen_family = af\<rparr> < 0
      then Some (Inl 1)
      else dump_loop h s k p)"

definition broker_dump_routes :: "'w host \<Rightarrow> mnl_socket \<Rightarrow> 'w proc \<Rightarrow> 'w proc run" where
  "broker_dump_routes h s p = do {
     let p = debug_print h ''Dumping routes'' p;
     if \<not> socket_open s then Some (Inl 1)
     else do {
       r \<leftarrow> dump_af_routes h s 1 AF_INET 0 p;
       (case r of
          Inl c \<Rightarrow> Some (Inl c)
        | Inr (k, p) \<Rightarrow> do {
            r \<leftarrow> dump_af_routes h s 2 AF_INET6 k p;
            (case r of
               Inl c \<Rightarrow> Some (Inl c)
             | Inr (k, p) \<Rightarrow> map_option Inr (show_debug h (debug_print h ''Dump complete'' p)))
          })
     }
   }"

end
