(* ===== verification/Process_Laws.thy ===== *)
theory Process_Laws
  imports Process
begin

text \<open>
  What the daemon does to the broker: everything received ends as a sequence of published messages
  in normal form.
\<close>

section \<open>Stores and fields\<close>

lemma byte_at_update: "byte_at (d[i := v]) j = (if i = j \<and> j < length d then Some v else byte_at d j)"
  by (simp add: byte_at_def)

lemmas set_defs = set_rtm_table_def set_rtm_scope_def set_rtm_type_def set_nlmsg_flags_def

lemma length_set [simp]:
  "length (set_rtm_table v d) = length d" "length (set_rtm_scope v d) = length d"
  "length (set_rtm_type v d) = length d" "length (set_nlmsg_flags f d) = length d"
  by (simp_all add: set_defs)

lemmas field_set = set_defs field_defs u16_at_def u32_at_def byte_at_update

lemma set_rtm_table_fields [simp]:
  "nlmsg_len (set_rtm_table v d) = nlmsg_len d" "nlmsg_type (set_rtm_table v d) = nlmsg_type d"
  "nlmsg_flags (set_rtm_table v d) = nlmsg_flags d" "nlmsg_pid (set_rtm_table v d) = nlmsg_pid d"
  "rtm_family (set_rtm_table v d) = rtm_family d" "rtm_protocol (set_rtm_table v d) = rtm_protocol d"
  "rtm_scope (set_rtm_table v d) = rtm_scope d" "rtm_type (set_rtm_table v d) = rtm_type d"
  by (simp_all add: field_set)

lemma set_rtm_scope_fields [simp]:
  "nlmsg_len (set_rtm_scope v d) = nlmsg_len d" "nlmsg_type (set_rtm_scope v d) = nlmsg_type d"
  "nlmsg_flags (set_rtm_scope v d) = nlmsg_flags d" "nlmsg_pid (set_rtm_scope v d) = nlmsg_pid d"
  "rtm_family (set_rtm_scope v d) = rtm_family d" "rtm_protocol (set_rtm_scope v d) = rtm_protocol d"
  "rtm_table (set_rtm_scope v d) = rtm_table d" "rtm_type (set_rtm_scope v d) = rtm_type d"
  by (simp_all add: field_set)

lemma set_rtm_type_fields [simp]:
  "nlmsg_len (set_rtm_type v d) = nlmsg_len d" "nlmsg_type (set_rtm_type v d) = nlmsg_type d"
  "nlmsg_flags (set_rtm_type v d) = nlmsg_flags d" "nlmsg_pid (set_rtm_type v d) = nlmsg_pid d"
  "rtm_family (set_rtm_type v d) = rtm_family d" "rtm_protocol (set_rtm_type v d) = rtm_protocol d"
  "rtm_table (set_rtm_type v d) = rtm_table d" "rtm_scope (set_rtm_type v d) = rtm_scope d"
  by (simp_all add: field_set)

lemma set_nlmsg_flags_fields [simp]:
  "nlmsg_len (set_nlmsg_flags v d) = nlmsg_len d" "nlmsg_type (set_nlmsg_flags v d) = nlmsg_type d"
  "nlmsg_pid (set_nlmsg_flags v d) = nlmsg_pid d" "rtm_family (set_nlmsg_flags v d) = rtm_family d"
  "rtm_protocol (set_nlmsg_flags v d) = rtm_protocol d" "rtm_table (set_nlmsg_flags v d) = rtm_table d"
  "rtm_scope (set_nlmsg_flags v d) = rtm_scope d" "rtm_type (set_nlmsg_flags v d) = rtm_type d"
  by (simp_all add: field_set)

text \<open>A field that is read back.\<close>

lemma field_readback [simp]:
  "rtm_table d \<noteq> None \<Longrightarrow> rtm_table (set_rtm_table v d) = Some v"
  "rtm_scope d \<noteq> None \<Longrightarrow> rtm_scope (set_rtm_scope v d) = Some v"
  "rtm_type d \<noteq> None \<Longrightarrow> rtm_type (set_rtm_type v d) = Some v"
  by (auto simp: field_set byte_at_def split: if_splits)

lemma u16_bytes: "of_nat (unat (ucast v :: u8) + 256 * unat (ucast (drop_bit 8 v) :: u8)) = (v :: u16)"
proof -
  have lt: "unat v < 65536" by (rule less_le_trans [OF unsigned_less]) simp
  have lo: "unat (ucast v :: u8) = unat v mod 256" by (simp add: unsigned_ucast_eq take_bit_eq_mod)
  have "unat v div 256 < 256" using lt by linarith
  then have "unat (ucast (drop_bit 8 v) :: u8) = unat v div 256"
    using unat_high_byte [of v] by (simp add: unsigned_ucast_eq take_bit_nat_eq_self)
  then have "unat (ucast v :: u8) + 256 * unat (ucast (drop_bit 8 v) :: u8) = unat v" by (simp only: lo) simp
  then show ?thesis by (simp only: of_nat_unat ucast_id)
qed

lemma flags_readback: "nlmsg_flags d \<noteq> None \<Longrightarrow> nlmsg_flags (set_nlmsg_flags v d) = Some v"
  using u16_bytes [of v]
  by (auto simp: field_set Option.bind_eq_Some_conv split: if_splits) (auto simp: byte_at_def split: if_splits)

section \<open>Normal form\<close>

definition normal_msg :: "int \<Rightarrow> bytes \<Rightarrow> bool" where
  "normal_msg i d \<longleftrightarrow>
     (\<exists>proto table ty. rtm_protocol d = Some proto \<and> rtm_table d = Some table \<and> nlmsg_type d = Some ty \<and>
       i = (if proto = RTPROT_KERNEL then ROUTE_CONNECTED else ROUTE_OTHER) \<and> table \<noteq> RT_TABLE_UNSPEC) \<and>
     \<not> (rtm_protocol d = Some RTPROT_KERNEL \<and> rtm_family d = Some AF_INET \<and> rtm_scope d = Some RT_SCOPE_LINK) \<and>
     \<not> (nlmsg_type d = Some RTM_DELROUTE \<and> nlmsg_pid d \<noteq> Some 0 \<and> rtm_type d = Some RTN_UNSPEC)"

lemma rtnl_connected_normal:
  assumes "rtnl_connected d = Some (i, e)"
  shows "length e = length d" "nlmsg_len e = nlmsg_len d" "nlmsg_type e = nlmsg_type d" "nlmsg_flags e = nlmsg_flags d"
    "nlmsg_pid e = nlmsg_pid d" "rtm_family e = rtm_family d" "rtm_protocol e = rtm_protocol d"
    "rtm_table e = rtm_table d" "rtm_type e = rtm_type d"
    "\<exists>proto. rtm_protocol d = Some proto \<and> i = (if proto = RTPROT_KERNEL then ROUTE_CONNECTED else ROUTE_OTHER)"
    "\<not> (rtm_protocol e = Some RTPROT_KERNEL \<and> rtm_family e = Some AF_INET \<and> rtm_scope e = Some RT_SCOPE_LINK)"
    "rtnl_connected e = Some (i, e)"
proof -
  obtain proto where p: "rtm_protocol d = Some proto" using assms by (auto simp: rtnl_connected_def Option.bind_eq_Some_conv)
  define family scope where "family = the (rtm_family d)" and "scope = the (rtm_scope d)"
  have f: "rtm_family d = Some family" if "proto = RTPROT_KERNEL"
    using assms p that by (auto simp: rtnl_connected_def Option.bind_eq_Some_conv family_def)
  let ?c = "proto = RTPROT_KERNEL \<and> family = AF_INET"
  have s: "rtm_scope d = Some scope" if ?c
    using assms p f that by (auto simp: rtnl_connected_def Option.bind_eq_Some_conv scope_def)
  have e: "i = (if proto = RTPROT_KERNEL then ROUTE_CONNECTED else ROUTE_OTHER)"
    "e = (if ?c \<and> scope = RT_SCOPE_LINK then set_rtm_scope RT_SCOPE_UNIVERSE d else d)"
    using assms p f s by (simp_all add: rtnl_connected_def Option.bind_eq_Some_conv split: if_splits)
  then show g: "length e = length d" "nlmsg_len e = nlmsg_len d" "nlmsg_type e = nlmsg_type d" "nlmsg_flags e = nlmsg_flags d"
    "nlmsg_pid e = nlmsg_pid d" "rtm_family e = rtm_family d" "rtm_protocol e = rtm_protocol d"
    "rtm_table e = rtm_table d" "rtm_type e = rtm_type d"
    by simp_all
  show "\<exists>proto. rtm_protocol d = Some proto \<and> i = (if proto = RTPROT_KERNEL then ROUTE_CONNECTED else ROUTE_OTHER)"
    using p e(1) by simp
  have sc: "rtm_scope e = Some (if scope = RT_SCOPE_LINK then RT_SCOPE_UNIVERSE else scope)" if ?c
    using that s e(2) by simp
  show "\<not> (rtm_protocol e = Some RTPROT_KERNEL \<and> rtm_family e = Some AF_INET \<and> rtm_scope e = Some RT_SCOPE_LINK)"
    using sc f p g(6,7) by (auto split: if_splits)
  show "rtnl_connected e = Some (i, e)" using sc f p g(6,7) e(1) by (auto simp: rtnl_connected_def)
qed

lemma rtnl_main_table_normal:
  assumes "rtnl_main_table d = Some e"
  shows "length e = length d" "nlmsg_len e = nlmsg_len d" "nlmsg_type e = nlmsg_type d" "nlmsg_flags e = nlmsg_flags d"
    "nlmsg_pid e = nlmsg_pid d" "rtm_family e = rtm_family d" "rtm_protocol e = rtm_protocol d"
    "rtm_scope e = rtm_scope d" "rtm_type e = rtm_type d"
    "\<exists>table. rtm_table e = Some table \<and> table \<noteq> RT_TABLE_UNSPEC" "rtnl_main_table e = Some e"
proof -
  obtain table where t: "rtm_table d = Some table" "e = (if table = RT_TABLE_UNSPEC then set_rtm_table RT_TABLE_MAIN d else d)"
    using assms by (auto simp: rtnl_main_table_def Option.bind_eq_Some_conv)
  then show "length e = length d" "nlmsg_len e = nlmsg_len d" "nlmsg_type e = nlmsg_type d" "nlmsg_flags e = nlmsg_flags d"
    "nlmsg_pid e = nlmsg_pid d" "rtm_family e = rtm_family d" "rtm_protocol e = rtm_protocol d"
    "rtm_scope e = rtm_scope d" "rtm_type e = rtm_type d"
    by simp_all
  show n: "\<exists>table. rtm_table e = Some table \<and> table \<noteq> RT_TABLE_UNSPEC" using t by simp
  then show "rtnl_main_table e = Some e" by (auto simp: rtnl_main_table_def)
qed

lemma rtnl_delete_type_normal:
  assumes "rtnl_delete_type d = Some e"
  shows "length e = length d" "nlmsg_len e = nlmsg_len d" "nlmsg_type e = nlmsg_type d" "nlmsg_flags e = nlmsg_flags d"
    "nlmsg_pid e = nlmsg_pid d" "rtm_family e = rtm_family d" "rtm_protocol e = rtm_protocol d"
    "rtm_scope e = rtm_scope d" "rtm_table e = rtm_table d" "\<exists>ty. nlmsg_type d = Some ty"
    "\<not> (nlmsg_type e = Some RTM_DELROUTE \<and> nlmsg_pid e \<noteq> Some 0 \<and> rtm_type e = Some RTN_UNSPEC)"
    "rtnl_delete_type e = Some e"
proof -
  obtain ty pid where t: "nlmsg_type d = Some ty" "nlmsg_pid d = Some pid"
    "\<not> (ty = RTM_DELROUTE \<and> pid \<noteq> 0) \<and> e = d \<or> ty = RTM_DELROUTE \<and> pid \<noteq> 0 \<and> (\<exists>rty. rtm_type d = Some rty \<and>
       e = (if rty = RTN_UNSPEC then set_rtm_type RTN_UNICAST d else d))"
    using assms by (auto simp: rtnl_delete_type_def Option.bind_eq_Some_conv split: if_splits)
  then show f: "length e = length d" "nlmsg_len e = nlmsg_len d" "nlmsg_type e = nlmsg_type d" "nlmsg_flags e = nlmsg_flags d"
    "nlmsg_pid e = nlmsg_pid d" "rtm_family e = rtm_family d" "rtm_protocol e = rtm_protocol d"
    "rtm_scope e = rtm_scope d" "rtm_table e = rtm_table d" "\<exists>ty. nlmsg_type d = Some ty"
    by auto
  show n: "\<not> (nlmsg_type e = Some RTM_DELROUTE \<and> nlmsg_pid e \<noteq> Some 0 \<and> rtm_type e = Some RTN_UNSPEC)"
  proof (cases "ty = RTM_DELROUTE \<and> pid \<noteq> 0")
    case True
    then obtain rty where r: "rtm_type d = Some rty" "e = (if rty = RTN_UNSPEC then set_rtm_type RTN_UNICAST d else d)"
      using t(3) by blast
    then have "rtm_type e \<noteq> Some RTN_UNSPEC" by simp
    then show ?thesis by simp
  next
    case False
    then show ?thesis using t by auto
  qed
  have "\<exists>rty. rtm_type e = Some rty" if "ty = RTM_DELROUTE" "pid \<noteq> 0" using t that by auto
  then show "rtnl_delete_type e = Some e" using n t(1,2) f(3,5) by (auto simp: rtnl_delete_type_def)
qed

lemma rtnl_normalE:
  assumes "rtnl_normal d = Some (i, e)"
  obtains a b where "rtnl_connected d = Some (i, a)" "rtnl_main_table a = Some b" "rtnl_delete_type b = Some e"
  using assms by (auto simp: rtnl_normal_def Option.bind_eq_Some_conv)

lemma rtnl_normal_fields:
  assumes "rtnl_normal d = Some (i, e)"
  shows "length e = length d" "nlmsg_len e = nlmsg_len d" "nlmsg_type e = nlmsg_type d" "nlmsg_flags e = nlmsg_flags d"
    "rtm_protocol e = rtm_protocol d" "rtm_family e = rtm_family d"
  using rtnl_normalE [OF assms] rtnl_connected_normal(1-7) rtnl_main_table_normal(1-7) rtnl_delete_type_normal(1-7)
  by metis+

lemma rtnl_normal_normal:
  assumes "rtnl_normal d = Some (i, e)"
  shows "normal_msg i e"
proof -
  obtain a b where ab: "rtnl_connected d = Some (i, a)" "rtnl_main_table a = Some b" "rtnl_delete_type b = Some e"
    by (rule rtnl_normalE [OF assms])
  note A = rtnl_connected_normal [OF ab(1)] and B = rtnl_main_table_normal [OF ab(2)] and E = rtnl_delete_type_normal [OF ab(3)]
  from A(7,10) B(7,10) E(3,7,9,10) have "\<exists>proto table ty. rtm_protocol e = Some proto \<and> rtm_table e = Some table \<and> nlmsg_type e = Some ty \<and>
       i = (if proto = RTPROT_KERNEL then ROUTE_CONNECTED else ROUTE_OTHER) \<and> table \<noteq> RT_TABLE_UNSPEC" by metis
  moreover have "\<not> (rtm_protocol e = Some RTPROT_KERNEL \<and> rtm_family e = Some AF_INET \<and> rtm_scope e = Some RT_SCOPE_LINK)"
    using A(11) B(6,7,8) E(6,7,8) by simp
  ultimately show ?thesis using E(11) unfolding normal_msg_def by blast
qed

lemma normal_fixed:
  assumes "normal_msg i e" and "28 \<le> length e"
  shows "rtnl_normal e = Some (i, e)"
proof -
  have l: "\<exists>v. rtm_family e = Some v" "\<exists>v. rtm_scope e = Some v" "\<exists>v. rtm_type e = Some v" "\<exists>v. nlmsg_pid e = Some v"
    using assms(2) by (simp_all add: field_defs byte_at_def u32_at_def)
  show ?thesis
    using assms(1) l
    by (auto simp: normal_msg_def rtnl_normal_def rtnl_connected_def rtnl_main_table_def rtnl_delete_type_def)
qed

lemma rtnl_normal_total:
  assumes "28 \<le> length d"
  shows "\<exists>i e. rtnl_normal d = Some (i, e)"
proof -
  have l: "\<exists>v. rtm_family e = Some v" "\<exists>v. rtm_scope e = Some v" "\<exists>v. rtm_type e = Some v" "\<exists>v. nlmsg_pid e = Some v"
    "\<exists>v. rtm_protocol e = Some v" "\<exists>v. rtm_table e = Some v" "\<exists>v. nlmsg_type e = Some v" if "length e = length d" for e
    using assms that by (simp_all add: field_defs byte_at_def u32_at_def u16_at_def)
  obtain i a where a: "rtnl_connected d = Some (i, a)"
  proof -
    have "rtnl_connected d \<noteq> None" using l [of d] by (auto simp: rtnl_connected_def)
    then show thesis using that by (cases "rtnl_connected d") auto
  qed
  note la = rtnl_connected_normal(1) [OF a]
  obtain b where b: "rtnl_main_table a = Some b" using l [OF la] by (auto simp: rtnl_main_table_def)
  have lb: "length b = length d" using rtnl_main_table_normal(1) [OF b] la by simp
  have "rtnl_delete_type b \<noteq> None" using l [OF lb] by (auto simp: rtnl_delete_type_def)
  then show ?thesis using a b by (auto simp: rtnl_normal_def)
qed

section \<open>What is published\<close>

fun publish_all :: "'w host \<Rightarrow> (bytes \<times> int) list \<Rightarrow> 'w \<Rightarrow> 'w option" where
  "publish_all h [] w = Some w"
| "publish_all h ((d, i) # ms) w = do { w \<leftarrow> publish h d i w; publish_all h ms w }"

lemma publish_all_append: "publish_all h (ms @ ns) w = Option.bind (publish_all h ms w) (publish_all h ns)"
  by (induction h ms w rule: publish_all.induct) (simp_all split: bind_split)

definition long_enough :: "bytes \<Rightarrow> bool" where
  "long_enough d \<longleftrightarrow> (\<exists>l. nlmsg_len d = Some l \<and> l \<ge> RTMSG_LENGTH)"

text \<open>Messages that arrive on a socket, and routes of the kernel in a dump.\<close>

definition sent_ok :: "bytes \<times> int \<Rightarrow> bool" where
  "sent_ok m \<longleftrightarrow> (case m of (d, i) \<Rightarrow> normal_msg i d \<and> long_enough d \<and>
     (nlmsg_type d = Some RTM_NEWROUTE \<and> (\<exists>f. nlmsg_flags d = Some f \<and> f AND NLM_F_REPLACE \<noteq> 0) \<or>
      nlmsg_type d = Some RTM_DELROUTE))"

definition dumped_ok :: "bytes \<times> int \<Rightarrow> bool" where
  "dumped_ok m \<longleftrightarrow> (case m of (d, i) \<Rightarrow> normal_msg i d \<and> long_enough d \<and>
     nlmsg_type d = Some RTM_NEWROUTE \<and> rtm_protocol d = Some RTPROT_KERNEL \<and> i = ROUTE_CONNECTED)"

text \<open>The world changes by publishing messages with the property \<open>Q\<close>.\<close>

definition publishes :: "'w host \<Rightarrow> (bytes \<times> int \<Rightarrow> bool) \<Rightarrow> 'w proc \<Rightarrow> 'w proc \<Rightarrow> bool" where
  "publishes h Q p p' \<longleftrightarrow> (\<exists>ms. list_all Q ms \<and> publish_all h ms (world p) = Some (world p'))"

lemma publishes_none: "world p' = world p \<Longrightarrow> publishes h Q p p'"
  unfolding publishes_def by (rule exI [of _ "[]"]) simp

lemma publishes_one: "publish h d i (world p) = Some (world p') \<Longrightarrow> Q (d, i) \<Longrightarrow> publishes h Q p p'"
  unfolding publishes_def by (rule exI [of _ "[(d, i)]"]) simp

lemma publishes_trans:
  assumes "publishes h Q p q" "publishes h Q q r"
  shows "publishes h Q p r"
proof -
  from assms obtain ms ns where "list_all Q ms" "publish_all h ms (world p) = Some (world q)"
    "list_all Q ns" "publish_all h ns (world q) = Some (world r)" by (auto simp: publishes_def)
  then show ?thesis unfolding publishes_def by (intro exI [of _ "ms @ ns"]) (simp add: publish_all_append)
qed

lemma world_eprint [simp]: "world (eprint s p) = world p" by (simp add: eprint_def)

lemma world_debug_print [simp]: "world (debug_print h s p) = world p" by (simp add: debug_print_def)

lemma dump_attrs_world: "dump_attrs d as p = Some p' \<Longrightarrow> world p' = world p"
  by (induction d as p rule: dump_attrs.induct) (auto simp: Option.bind_eq_Some_conv)

lemma dump_rtmsg_world: "dump_rtmsg h d p = Some p' \<Longrightarrow> world p' = world p"
  by (auto simp: dump_rtmsg_def Let_def Option.bind_eq_Some_conv dest!: dump_attrs_world)

lemma show_debug_world: "show_debug h p = Some p' \<Longrightarrow> world p' = world p"
  by (auto simp: show_debug_def Option.bind_eq_Some_conv split: if_splits)

lemma process_rtnlE:
  assumes "process_rtnl h d p = Some (e, p')"
  obtains (too_short) "e = d" "world p' = world p" "\<not> long_enough d"
  | (sent) i where "rtnl_normal d = Some (i, e)" "publish h e i (world p) = Some (world p')" "long_enough d"
proof -
  obtain len where len: "nlmsg_len d = Some len" using assms by (auto simp: process_rtnl_def Option.bind_eq_Some_conv)
  show thesis
  proof (cases "len < RTMSG_LENGTH")
    case True
    then show ?thesis
      using assms len by (intro too_short) (auto simp: process_rtnl_def Option.bind_eq_Some_conv long_enough_def)
  next
    case False
    then obtain q i w where q: "(if broker_debug h then dump_rtmsg h d p else Some p) = Some q"
      "rtnl_normal d = Some (i, e)" "publish h e i (world q) = Some w" "p' = q\<lparr>world := w\<rparr>"
      using assms len by (auto simp: process_rtnl_def Option.bind_eq_Some_conv)
    have "world q = world p" using q(1) dump_rtmsg_world by (auto split: if_splits)
    then show ?thesis using q len False by (intro sent [of i]) (auto simp: long_enough_def)
  qed
qed

lemma process_rtnl_publishes:
  assumes r: "process_rtnl h d p = Some (e, p')"
    and Q: "\<And>i e. rtnl_normal d = Some (i, e) \<Longrightarrow> normal_msg i e \<Longrightarrow> long_enough e \<Longrightarrow> Q (e, i)"
  shows "publishes h Q p p'"
  using r
proof (cases rule: process_rtnlE)
  case too_short
  then show ?thesis by (simp add: publishes_none)
next
  case (sent i)
  have "long_enough e" using sent(3) rtnl_normal_fields(2) [OF sent(1)] by (simp add: long_enough_def)
  then show ?thesis using publishes_one [OF sent(2)] Q [OF sent(1) rtnl_normal_normal [OF sent(1)]] by simp
qed

lemma process_msg_publishes:
  assumes "process_msg h d p = Some (e, p')"
  shows "publishes h sent_ok p p'"
proof -
  obtain ty where ty: "nlmsg_type d = Some ty" using assms by (auto simp: process_msg_def Option.bind_eq_Some_conv)
  consider "ty = RTM_NEWROUTE" | "ty = RTM_DELROUTE" | "ty \<noteq> RTM_NEWROUTE" "ty \<noteq> RTM_DELROUTE" by blast
  then show ?thesis
  proof cases
    case 1
    then obtain fl where f: "nlmsg_flags d = Some fl"
      "process_rtnl h (set_nlmsg_flags (fl OR NLM_F_REPLACE) d) p = Some (e, p')"
      using assms ty by (auto simp: process_msg_def Option.bind_eq_Some_conv)
    have r: "nlmsg_flags (set_nlmsg_flags (fl OR NLM_F_REPLACE) d) = Some (fl OR NLM_F_REPLACE)"
      by (rule flags_readback) (simp add: f)
    have "(fl OR NLM_F_REPLACE) AND NLM_F_REPLACE = NLM_F_REPLACE" by (rule bit_word_eqI) (auto simp: bit_simps)
    then have nz: "(fl OR NLM_F_REPLACE) AND NLM_F_REPLACE \<noteq> 0" by simp
    show ?thesis
      by (rule process_rtnl_publishes [OF f(2)])
        (use r nz 1 ty rtnl_normal_fields(3,4) in \<open>fastforce simp: sent_ok_def\<close>)
  next
    case 2
    then have "process_rtnl h d p = Some (e, p')" using assms ty by (simp add: process_msg_def)
    then show ?thesis
      by (rule process_rtnl_publishes) (use 2 ty rtnl_normal_fields(3) in \<open>fastforce simp: sent_ok_def\<close>)
  next
    case 3
    then show ?thesis using assms ty by (simp add: process_msg_def publishes_none)
  qed
qed

lemma process_nlmsg_publishes:
  assumes "process_nlmsg h d len p = Some p'"
  shows "publishes h sent_ok p p'"
proof (rule process_nlmsg.raw_induct [OF _ assms])
  fix loop and h :: "'a host" and d len p p'
  assume 1: "\<And>h d len p p'. loop h d len p = Some p' \<Longrightarrow> publishes h sent_ok p p'"
    "do { ok \<leftarrow> nlmsg_ok d len; if \<not> ok then Some p else do { (d, p) \<leftarrow> process_msg h d p; (d, len) \<leftarrow> nlmsg_next d len; loop h d len p } } = Some p'"
  obtain ok where ok: "nlmsg_ok d len = Some ok" using 1(2) by (auto simp: Option.bind_eq_Some_conv)
  show "publishes h sent_ok p p'"
  proof (cases ok)
    case True
    then obtain e q e' len' where e: "process_msg h d p = Some (e, q)" "nlmsg_next e len = Some (e', len')"
      "loop h e' len' q = Some p'" using 1(2) ok by (auto simp: Option.bind_eq_Some_conv)
    from process_msg_publishes [OF e(1)] 1(1) [OF e(3)] show ?thesis by (rule publishes_trans)
  next
    case False
    then show ?thesis using 1(2) ok by (simp add: publishes_none)
  qed
qed

lemma dump_route_publishes:
  assumes "dump_route h d p = Some (r, e, p')"
  shows "publishes h dumped_ok p p'"
proof -
  obtain ty len where f: "nlmsg_type d = Some ty" "nlmsg_len d = Some len"
    using assms by (auto simp: dump_route_def Option.bind_eq_Some_conv)
  show ?thesis
  proof (cases "ty = RTM_NEWROUTE \<and> len \<ge> RTMSG_LENGTH \<and> rtm_protocol d = Some RTPROT_KERNEL")
    case True
    then have "process_rtnl h d p = Some (e, p')"
      using assms f by (auto simp: dump_route_def Option.bind_eq_Some_conv)
    then show ?thesis
      by (rule process_rtnl_publishes)
        (use True f rtnl_normal_fields(3,5) in \<open>fastforce simp: dumped_ok_def normal_msg_def\<close>)
  next
    case False
    then have "world p' = world p"
      using assms f by (auto simp: dump_route_def Option.bind_eq_Some_conv dest!: dump_rtmsg_world split: if_splits)
    then show ?thesis by (rule publishes_none)
  qed
qed

lemma run_callback_publishes: "run_callback h offs buf p = Some p' \<Longrightarrow> publishes h dumped_ok p p'"
proof (induction h offs buf p rule: run_callback.induct)
  case (2 h off offs buf p)
  then obtain r d q where "dump_route h (drop off buf) p = Some (r, d, q)" "run_callback h offs (take off buf @ d) q = Some p'"
    by (auto simp: Option.bind_eq_Some_conv)
  with 2(1) dump_route_publishes publishes_trans show ?case by metis
qed (simp add: publishes_none)

lemma dump_loop_publishes:
  assumes "dump_loop h s k p = Some r"
  shows "r = Inr (k', p') \<longrightarrow> publishes h dumped_ok p p'"
proof (rule dump_loop.raw_induct [OF _ assms])
  fix loop and h :: "'a host" and s k p r
  assume 1: "\<And>h s k p r. loop h s k p = Some r \<Longrightarrow> r = Inr (k', p') \<longrightarrow> publishes h dumped_ok p p'"
    "(case recvfrom s k of
        None \<Rightarrow> Some (Inl 1)
      | Some buf \<Rightarrow> do {
          let p = debug_print h (''got dump of '' @ fmt_u (length buf) @ '' bytes'') p;
          p \<leftarrow> run_callback h (snd (cb_run s buf)) buf p;
          if fst (cb_run s buf) \<le> MNL_CB_STOP then Some (Inr (Suc k, p)) else loop h s (Suc k) p
        }) = Some r"
  show "r = Inr (k', p') \<longrightarrow> publishes h dumped_ok p p'"
  proof
    assume r: "r = Inr (k', p')"
    obtain buf where buf: "recvfrom s k = Some buf" using 1(2) r by (cases "recvfrom s k") auto
    obtain q where q: "run_callback h (snd (cb_run s buf)) buf (debug_print h (''got dump of '' @ fmt_u (length buf) @ '' bytes'') p) = Some q"
      "(if fst (cb_run s buf) \<le> MNL_CB_STOP then Some (Inr (Suc k, q)) else loop h s (Suc k) q) = Some r"
      using 1(2) unfolding buf option.case(2) Let_def Option.bind_eq_Some_conv by blast
    have a: "publishes h dumped_ok p q" using run_callback_publishes [OF q(1)] by (simp add: publishes_def)
    show "publishes h dumped_ok p p'"
    proof (cases "fst (cb_run s buf) \<le> MNL_CB_STOP")
      case True
      then show ?thesis using q(2) r a by simp
    next
      case False
      then have "loop h s (Suc k) q = Some r" using q(2) by simp
      from publishes_trans [OF a] 1(1) [OF this] r show ?thesis by blast
    qed
  qed
qed

lemma dump_af_publishes:
  assumes "dump_af_routes h s n af k p = Some (Inr (k', p'))"
  shows "publishes h dumped_ok p p'"
proof -
  have "dump_loop h s k p = Some (Inr (k', p'))" using assms by (auto simp: dump_af_routes_def split: if_splits)
  then show ?thesis using dump_loop_publishes by blast
qed

lemma dump_publishes:
  assumes "broker_dump_routes h s p = Some (Inr p')"
  shows "publishes h dumped_ok p p'"
proof -
  let ?p = "debug_print h ''Dumping routes'' p"
  obtain r where r: "socket_open s" "dump_af_routes h s 1 AF_INET 0 ?p = Some r"
    using assms by (auto simp: broker_dump_routes_def Let_def Option.bind_eq_Some_conv split: if_splits)
  then obtain k q where q: "dump_af_routes h s 1 AF_INET 0 ?p = Some (Inr (k, q))"
    using assms by (cases r) (auto simp: broker_dump_routes_def Let_def)
  obtain r2 where r2: "dump_af_routes h s 2 AF_INET6 k q = Some r2"
    using assms r(1) q by (auto simp: broker_dump_routes_def Let_def Option.bind_eq_Some_conv)
  then obtain k' q' where q': "dump_af_routes h s 2 AF_INET6 k q = Some (Inr (k', q'))"
    "show_debug h (debug_print h ''Dump complete'' q') = Some p'"
    using assms r(1) q by (cases r2) (auto simp: broker_dump_routes_def Let_def)
  have "publishes h dumped_ok ?p q'" by (rule publishes_trans [OF dump_af_publishes [OF q] dump_af_publishes [OF q'(1)]])
  then show ?thesis using show_debug_world [OF q'(2)] by (simp add: publishes_def)
qed

lemma dump_loop_status:
  assumes "dump_loop h s k p = Some r"
  shows "\<forall>st. r = Inl st \<longrightarrow> st = 1"
proof (rule dump_loop.raw_induct [OF _ assms])
  fix loop and h :: "'a host" and s k p r
  assume 1: "\<And>h s k p r. loop h s k p = Some r \<Longrightarrow> \<forall>st. r = Inl st \<longrightarrow> st = 1"
    "(case recvfrom s k of
        None \<Rightarrow> Some (Inl 1)
      | Some buf \<Rightarrow> do {
          let p = debug_print h (''got dump of '' @ fmt_u (length buf) @ '' bytes'') p;
          p \<leftarrow> run_callback h (snd (cb_run s buf)) buf p;
          if fst (cb_run s buf) \<le> MNL_CB_STOP then Some (Inr (Suc k, p)) else loop h s (Suc k) p
        }) = Some r"
  show "\<forall>st. r = Inl st \<longrightarrow> st = 1"
  proof (cases "recvfrom s k")
    case (Some buf)
    then obtain q where "(if fst (cb_run s buf) \<le> MNL_CB_STOP then Some (Inr (Suc k, q)) else loop h s (Suc k) q) = Some r"
      using 1(2) by (auto simp: Option.bind_eq_Some_conv Let_def)
    then show ?thesis using 1(1) [of h s "Suc k" q r] by (auto split: if_splits)
  qed (use 1(2) in auto)
qed

lemma dump_status:
  assumes "broker_dump_routes h s p = Some (Inl st)"
  shows "st = 1"
proof -
  have "dump_af_routes h s n af k p = Some (Inl st) \<Longrightarrow> st = 1" for n af k p
    using dump_loop_status [of h s k p "Inl st"] by (auto simp: dump_af_routes_def split: if_splits)
  moreover have "\<exists>n af k p. dump_af_routes h s n af k p = Some (Inl st)" if st: "st \<noteq> 1"
  proof -
    let ?p = "debug_print h ''Dumping routes'' p"
    obtain r where r: "socket_open s" "dump_af_routes h s 1 AF_INET 0 ?p = Some r"
      using assms st by (auto simp: broker_dump_routes_def Let_def Option.bind_eq_Some_conv split: if_splits)
    show ?thesis
    proof (cases r)
      case (Inl st')
      then show ?thesis using assms r by (auto simp: broker_dump_routes_def Let_def)
    next
      case (Inr kq)
      obtain k q where kq: "kq = (k, q)" by (cases kq)
      then obtain r2 where r2: "dump_af_routes h s 2 AF_INET6 k q = Some r2"
        using assms r Inr by (auto simp: broker_dump_routes_def Let_def Option.bind_eq_Some_conv)
      then have "r2 = Inl st" using assms r Inr kq by (cases r2) (auto simp: broker_dump_routes_def Let_def)
      then show ?thesis using r2 by blast
    qed
  qed
  ultimately show ?thesis by blast
qed

text \<open>How receiving ends: nothing was published, or all messages of the buffer were processed.\<close>

lemma publishes_processed:
  assumes "process_nlmsg h d len (debug_print h t p) = Some q" and "show_debug h q = Some p'"
  shows "publishes h sent_ok p p'"
  using process_nlmsg_publishes [OF assms(1)] show_debug_world [OF assms(2)] by (simp add: publishes_def)

lemma process_fpmE:
  assumes "broker_process_fpm h buf es p = Some (n, es', p')"
  obtains (nothing) "world p' = world p" | (processed) "publishes h sent_ok p p'" "0 < n"
proof -
  obtain n1 buf1 es1 where r1: "recv_loop 4 0 0 buf es = Some (n1, buf1, es1)"
    using assms by (auto simp: broker_process_fpm_def Option.bind_eq_Some_conv)
  show thesis
  proof (cases "n1 \<le> 0")
    case True
    then have "world p' = world p" using assms r1 by (auto simp: broker_process_fpm_def split: if_splits)
    then show ?thesis by (rule nothing)
  next
    case False
    then obtain fpm where fpm: "fpm_hdr_at buf1 = Some fpm"
      using assms r1 by (auto simp: broker_process_fpm_def Option.bind_eq_Some_conv)
    let ?bad = "\<not> fpm_msg_hdr_ok fpm \<or> version fpm \<noteq> BROKER_FPM_VERSION \<or> msg_type fpm \<noteq> FPM_MSG_TYPE_NETLINK \<or>
      fpm_msg_len fpm > FPM_MAX_MSG_LEN"
    show ?thesis
    proof (cases ?bad)
      case True
      then have "world p' = world p" using assms r1 fpm False by (auto simp: broker_process_fpm_def split: if_splits)
      then show ?thesis by (rule nothing)
    next
      case good: False
      then obtain n2 buf2 es2 where r2: "recv_loop (unat (fpm_msg_len fpm)) 4 n1 buf1 es1 = Some (n2, buf2, es2)"
        using assms r1 fpm False by (auto simp: broker_process_fpm_def Option.bind_eq_Some_conv)
      show ?thesis
      proof (cases "n2 \<le> 0")
        case True
        then have "world p' = world p"
          using assms r1 fpm False good r2 by (auto simp: broker_process_fpm_def split: if_splits)
        then show ?thesis by (rule nothing)
      next
        case pos: False
        then obtain t d len q where "process_nlmsg h d len (debug_print h t p) = Some q" "show_debug h q = Some p'" "n = n2"
          using assms r1 fpm False good r2 by (auto simp: broker_process_fpm_def Let_def Option.bind_eq_Some_conv)
        then show ?thesis using publishes_processed pos by (intro processed) auto
      qed
    qed
  qed
qed

lemma process_nlE:
  assumes "broker_process_nl h buf es p = Some (n, es', p')"
  obtains (nothing) "world p' = world p" | (processed) "publishes h sent_ok p p'" "0 < n"
proof (cases "recv_datagram BUFSIZ es")
  case (fields n1 bs es1)
  show thesis
  proof (cases "n1 \<le> 0")
    case True
    then have "world p' = world p" using assms fields by (auto simp: broker_process_nl_def split: if_splits)
    then show ?thesis by (rule nothing)
  next
    case False
    then obtain t d len q where "process_nlmsg h d len (debug_print h t p) = Some q" "show_debug h q = Some p'" "n = n1"
      using assms fields by (auto simp: broker_process_nl_def Let_def Option.bind_eq_Some_conv)
    then show ?thesis using publishes_processed False by (intro processed) auto
  qed
qed

end
