(* ===== verification/Process_Reference.thy ===== *)
theory Process_Reference
  imports Process_Laws
begin

text \<open>
  A reference definition of what a buffer of netlink messages is to the broker, and the proof that
  the loop over the buffer and the reader of FPM messages implement it: however the bytes arrive,
  whatever the stack held before.
\<close>

section \<open>Fields of a part of the memory\<close>

lemma nlmsg_len_read: "4 \<le> length d \<Longrightarrow> nlmsg_len d \<noteq> None"
  by (auto simp: field_defs u32_at_def byte_at_def)

lemma byte_at_take: "i < n \<Longrightarrow> byte_at (take n d) i = byte_at d i"
  by (simp add: byte_at_def)

lemma fields_take:
  assumes "28 \<le> n"
  shows "nlmsg_len (take n d) = nlmsg_len d" "nlmsg_type (take n d) = nlmsg_type d" "nlmsg_flags (take n d) = nlmsg_flags d"
    "nlmsg_pid (take n d) = nlmsg_pid d" "rtm_family (take n d) = rtm_family d" "rtm_protocol (take n d) = rtm_protocol d"
    "rtm_table (take n d) = rtm_table d" "rtm_scope (take n d) = rtm_scope d" "rtm_type (take n d) = rtm_type d"
  using assms by (simp_all add: field_defs u16_at_def u32_at_def byte_at_take)

lemma set_take:
  "set_rtm_table v (take n d) = take n (set_rtm_table v d)" "set_rtm_scope v (take n d) = take n (set_rtm_scope v d)"
  "set_rtm_type v (take n d) = take n (set_rtm_type v d)" "set_nlmsg_flags f (take n d) = take n (set_nlmsg_flags f d)"
  by (simp_all add: set_defs take_update_swap)

lemma rtnl_normal_take:
  assumes "28 \<le> n"
  shows "rtnl_normal (take n d) = map_option (map_prod id (take n)) (rtnl_normal d)"
proof -
  have c: "rtnl_connected (take n d) = map_option (map_prod id (take n)) (rtnl_connected d)" for d
    by (simp add: rtnl_connected_def fields_take [OF assms] set_take map_option_bind comp_def if_distrib cong: if_cong)
  have t: "rtnl_main_table (take n d) = map_option (take n) (rtnl_main_table d)" for d
    by (simp add: rtnl_main_table_def fields_take [OF assms] set_take map_option_bind comp_def if_distrib cong: if_cong)
  have e: "rtnl_delete_type (take n d) = map_option (take n) (rtnl_delete_type d)" for d
    by (simp add: rtnl_delete_type_def fields_take [OF assms] set_take map_option_bind comp_def if_distrib cong: if_cong)
  show ?thesis
    by (simp add: rtnl_normal_def c t e map_option_bind bind_map_option comp_def case_prod_beta)
qed

text \<open>Behind the fixed headers nothing is changed.\<close>

lemma drop_set:
  assumes "24 \<le> n"
  shows "drop n (set_rtm_table v d) = drop n d" "drop n (set_rtm_scope v d) = drop n d" "drop n (set_rtm_type v d) = drop n d"
  using assms by (simp_all add: set_defs)

lemma drop_set_flags: "8 \<le> n \<Longrightarrow> drop n (set_nlmsg_flags f d) = drop n d"
  by (simp add: set_nlmsg_flags_def)

lemma rtnl_normal_drop:
  assumes "rtnl_normal d = Some (i, e)" and "24 \<le> n"
  shows "drop n e = drop n d"
proof -
  obtain a b where ab: "rtnl_connected d = Some (i, a)" "rtnl_main_table a = Some b" "rtnl_delete_type b = Some e"
    by (rule rtnl_normalE [OF assms(1)])
  note D = drop_set [OF assms(2)]
  have "drop n a = drop n d" using ab(1) D by (auto simp: rtnl_connected_def Option.bind_eq_Some_conv split: if_splits)
  moreover have "drop n b = drop n a" using ab(2) D by (auto simp: rtnl_main_table_def Option.bind_eq_Some_conv)
  moreover have "drop n e = drop n b" using ab(3) D by (auto simp: rtnl_delete_type_def Option.bind_eq_Some_conv split: if_splits)
  ultimately show ?thesis by simp
qed

section \<open>The reference\<close>

text \<open>What is published for one complete message.\<close>

definition msg_out :: "bytes \<Rightarrow> (bytes \<times> int) list" where
  "msg_out m =
     (if length m < 28 then []
      else if nlmsg_type m = Some RTM_NEWROUTE then
        (case rtnl_normal (set_nlmsg_flags (the (nlmsg_flags m) OR NLM_F_REPLACE) m) of Some (i, e) \<Rightarrow> [(e, i)] | None \<Rightarrow> [])
      else if nlmsg_type m = Some RTM_DELROUTE then
        (case rtnl_normal m of Some (i, e) \<Rightarrow> [(e, i)] | None \<Rightarrow> [])
      else [])"

definition pad4 :: "nat \<Rightarrow> nat" where "pad4 n = (n + 3) div 4 * 4"

text \<open>What is published for \<open>n\<close> bytes of messages, each padded to a multiple of four.\<close>

function sent :: "bytes \<Rightarrow> nat \<Rightarrow> (bytes \<times> int) list" where
  "sent d n =
     (case nlmsg_len d of
        None \<Rightarrow> []
      | Some l \<Rightarrow>
          if n < 16 \<or> unat l < 16 \<or> n < unat l then []
          else msg_out (take (unat l) d) @ sent (drop (pad4 (unat l)) d) (n - pad4 (unat l)))"
  by pat_completeness auto
termination
  by (relation "measure snd") (auto simp: pad4_def)

declare sent.simps [simp del]

lemma pad4_bounds: "n \<le> pad4 n" "n \<le> m \<Longrightarrow> 4 dvd m \<Longrightarrow> pad4 n \<le> m" "4 dvd pad4 n"
  unfolding pad4_def by presburger+

lemma unat_nlmsg_align:
  assumes "unat l + 3 < 2 ^ 32"
  shows "unat (nlmsg_align l) = pad4 (unat l)"
proof -
  have m: "(3 :: u32) = mask 2" by (simp add: mask_eq_exp_minus_1)
  have "unat (l + 3) = unat l + 3" using assms unat_add_lem [of l 3] by simp
  moreover have "nlmsg_align l = (l + 3) AND NOT (mask 2)" unfolding nlmsg_align_def m [symmetric] by (simp add: add.commute)
  ultimately show ?thesis using unat_clear_low [of "l + 3" 2] by (simp add: pad4_def)
qed

lemma unat_ucast_64: "unat (ucast (l :: u32) :: u64) = unat l"
proof -
  have "unat l < 2 ^ 64" using unat_u32 [of l] by simp
  then show ?thesis by (simp add: unsigned_ucast_eq take_bit_nat_eq_self)
qed

text \<open>
  The contract of a publisher: it looks at the message, as long as its header says, and at nothing
  behind it in the memory.
\<close>

locale message_sink =
  fixes h :: "'w host"
  assumes reads_message: "nlmsg_len d = Some l \<Longrightarrow> 28 \<le> unat l \<Longrightarrow> unat l \<le> length d \<Longrightarrow>
    publish h (take (unat l) d) i w = publish h d i w"
    and quiet: "\<not> broker_debug h"
begin

lemma rtnl_out:
  assumes l: "nlmsg_len d = Some l" "28 \<le> unat l" "unat l \<le> length d"
  shows "\<exists>i e. rtnl_normal d = Some (i, e) \<and> drop (unat l) e = drop (unat l) d \<and> nlmsg_len e = Some l \<and>
    rtnl_normal (take (unat l) d) = Some (i, take (unat l) e) \<and>
    process_rtnl h d p = map_option (\<lambda>w. (e, p\<lparr>world := w\<rparr>)) (publish h (take (unat l) e) i (world p))"
proof -
  obtain i e where e: "rtnl_normal d = Some (i, e)" using rtnl_normal_total [of d] l by auto
  note f = rtnl_normal_fields [OF e]
  have "publish h e i (world p) = publish h (take (unat l) e) i (world p)"
    using reads_message [of e l] f(1,2) l by simp
  then have "process_rtnl h d p = map_option (\<lambda>w. (e, p\<lparr>world := w\<rparr>)) (publish h (take (unat l) e) i (world p))"
    using quiet l e
    by (cases "publish h (take (unat l) e) i (world p)") (simp_all add: process_rtnl_def word_less_nat_alt)
  then show ?thesis
    using e f l rtnl_normal_take [of "unat l" d] rtnl_normal_drop [OF e, of "unat l"] by auto
qed

text \<open>A message too short for a route publishes nothing, a route message its normal form.\<close>

lemma short_msg_out:
  assumes l: "nlmsg_len d = Some l" "16 \<le> unat l" "unat l < 28" and tf: "nlmsg_type d = Some t" "nlmsg_flags d = Some f"
  shows "\<exists>e q. drop (unat l) e = drop (unat l) d \<and> nlmsg_len e = Some l \<and> process_msg h d p = Some (e, q\<lparr>world := world p\<rparr>)"
proof (cases "t = RTM_NEWROUTE \<or> t = RTM_DELROUTE")
  case True
  let ?e = "if t = RTM_NEWROUTE then set_nlmsg_flags (f OR NLM_F_REPLACE) d else d"
  have "process_msg h d p = process_rtnl h ?e p" using tf True by (auto simp: process_msg_def)
  then show ?thesis using tf l
    by (intro exI [of _ ?e] exI [of _ "snd (the (process_rtnl h ?e p))"])
      (simp add: process_rtnl_def word_less_nat_alt drop_set_flags)
next
  case False
  then show ?thesis using tf l by (intro exI [of _ d] exI [of _ p]) (simp add: process_msg_def)
qed

lemma route_msg_out:
  assumes l: "nlmsg_len d' = Some l" "28 \<le> unat l" "unat l \<le> length d'" and d: "drop (unat l) d' = drop (unat l) d"
    and m: "\<And>i e. rtnl_normal (take (unat l) d') = Some (i, e) \<Longrightarrow> msg_out (take (unat l) d) = [(e, i)]"
  shows "\<exists>e q. drop (unat l) e = drop (unat l) d \<and> nlmsg_len e = Some l \<and>
    process_rtnl h d' p = map_option (\<lambda>w. (e, q\<lparr>world := w\<rparr>)) (publish_all h (msg_out (take (unat l) d)) (world p))"
proof -
  from rtnl_out [OF l, of p] obtain i e where e: "drop (unat l) e = drop (unat l) d'" "nlmsg_len e = Some l"
    "rtnl_normal (take (unat l) d') = Some (i, take (unat l) e)"
    "process_rtnl h d' p = map_option (\<lambda>w. (e, p\<lparr>world := w\<rparr>)) (publish h (take (unat l) e) i (world p))" by auto
  then show ?thesis using m [OF e(3)] d by (intro exI [of _ e] exI [of _ p]) (simp split: bind_split)
qed

lemma process_msg_out:
  assumes l: "nlmsg_len d = Some l" "16 \<le> unat l" "unat l \<le> length d"
  shows "\<exists>e q. drop (unat l) e = drop (unat l) d \<and> nlmsg_len e = Some l \<and>
    process_msg h d p = map_option (\<lambda>w. (e, q\<lparr>world := w\<rparr>)) (publish_all h (msg_out (take (unat l) d)) (world p))"
proof -
  have ty: "nlmsg_type d \<noteq> None" "nlmsg_flags d \<noteq> None"
    using l by (simp_all add: field_defs u16_at_def byte_at_def)
  then obtain t f where tf: "nlmsg_type d = Some t" "nlmsg_flags d = Some f" by auto
  let ?d = "set_nlmsg_flags (f OR NLM_F_REPLACE) d"
  consider (short) "unat l < 28" | (new) "28 \<le> unat l" "t = RTM_NEWROUTE" | (del) "28 \<le> unat l" "t = RTM_DELROUTE"
    | (other) "28 \<le> unat l" "t \<noteq> RTM_NEWROUTE" "t \<noteq> RTM_DELROUTE" by linarith
  then show ?thesis
  proof cases
    case short
    have "length (take (unat l) d) < 28" using short by simp
    then have "msg_out (take (unat l) d) = []" unfolding msg_out_def by (rule if_P)
    then show ?thesis using short_msg_out [OF l(1,2) short tf, of p] by auto
  next
    case new
    have "msg_out (take (unat l) d) = [(e, i)]" if "rtnl_normal (take (unat l) ?d) = Some (i, e)" for i e
      using that new tf l fields_take [of "unat l" d] by (simp add: msg_out_def set_take)
    then show ?thesis using route_msg_out [of ?d l d p] new l tf by (simp add: process_msg_def drop_set_flags)
  next
    case del
    have "msg_out (take (unat l) d) = [(e, i)]" if "rtnl_normal (take (unat l) d) = Some (i, e)" for i e
      using that del tf l fields_take [of "unat l" d] by (simp add: msg_out_def)
    then show ?thesis using route_msg_out [of d l d p] del l tf by (simp add: process_msg_def)
  next
    case other
    then have "msg_out (take (unat l) d) = []" using tf l fields_take [of "unat l" d] by (simp add: msg_out_def)
    then show ?thesis using tf l other by (intro exI [of _ d] exI [of _ p]) (simp add: process_msg_def)
  qed
qed

lemma nlmsg_ok_iff:
  assumes "unat len \<le> length d"
  shows "nlmsg_ok d len = Some (\<exists>l. nlmsg_len d = Some l \<and> 16 \<le> unat len \<and> 16 \<le> unat l \<and> unat l \<le> unat len)"
proof (cases "unat len < 16")
  case True
  then show ?thesis by (simp add: nlmsg_ok_def word_less_nat_alt)
next
  case False
  then have "nlmsg_len d \<noteq> None" using nlmsg_len_read assms by simp
  then show ?thesis using False by (auto simp: nlmsg_ok_def word_less_nat_alt word_le_nat_alt unat_ucast_64)
qed

text \<open>One turn of the loop: the message is published, and the loop goes on behind its padding.\<close>

lemma process_nlmsg_turn:
  assumes len: "4 dvd unat len" "unat len \<le> length d" "unat len < 2 ^ 31"
    and l: "nlmsg_len d = Some l" "16 \<le> unat len" "16 \<le> unat l" "unat l \<le> unat len"
  shows "\<exists>q. process_nlmsg h d len p = publish_all h (msg_out (take (unat l) d)) (world p) \<bind>
      (\<lambda>w. process_nlmsg h (drop (pad4 (unat l)) d) (len - ucast (nlmsg_align l)) (q\<lparr>world := w\<rparr>))"
    "unat (len - ucast (nlmsg_align l)) = unat len - pad4 (unat l)" "pad4 (unat l) \<le> unat len"
proof -
  let ?a = "pad4 (unat l)"
  have a: "unat (nlmsg_align l) = ?a" using unat_nlmsg_align [of l] l(4) len(3) by simp
  show le: "?a \<le> unat len" using pad4_bounds(2) [OF l(4) len(1)] .
  then show "unat (len - ucast (nlmsg_align l)) = unat len - ?a"
    using len(3) by (simp add: unat_sub word_le_nat_alt unat_ucast_64 a)
  obtain e q where e: "drop (unat l) e = drop (unat l) d" "nlmsg_len e = Some l"
    "process_msg h d p = map_option (\<lambda>w. (e, q\<lparr>world := w\<rparr>)) (publish_all h (msg_out (take (unat l) d)) (world p))"
    using process_msg_out [OF l(1,3)] l(4) len(2) by (meson le_trans)
  have "drop ?a e = drop (?a - unat l) (drop (unat l) e)" using pad4_bounds(1) [of "unat l"] by simp
  also have "\<dots> = drop ?a d" unfolding e(1) using pad4_bounds(1) [of "unat l"] by simp
  finally have "nlmsg_next e len = Some (drop ?a d, len - ucast (nlmsg_align l))" using e(2) by (simp add: nlmsg_next_def a)
  moreover have "nlmsg_ok d len = Some True" using nlmsg_ok_iff [OF len(2)] l by simp
  ultimately show "\<exists>q. process_nlmsg h d len p = publish_all h (msg_out (take (unat l) d)) (world p) \<bind>
      (\<lambda>w. process_nlmsg h (drop ?a d) (len - ucast (nlmsg_align l)) (q\<lparr>world := w\<rparr>))"
    by (intro exI [of _ q], subst process_nlmsg.simps) (simp add: e(3) split: bind_split)
qed

lemma process_nlmsg_sent:
  assumes "4 dvd unat len" and "unat len \<le> length d" and "unat len < 2 ^ 31"
  shows "map_option world (process_nlmsg h d len p) = publish_all h (sent d (unat len)) (world p)"
  using assms
proof (induction "unat len" arbitrary: d len p rule: less_induct)
  case less
  show ?case
  proof (cases "\<exists>l. nlmsg_len d = Some l \<and> 16 \<le> unat len \<and> 16 \<le> unat l \<and> unat l \<le> unat len")
    case False
    have "nlmsg_ok d len = Some False" using nlmsg_ok_iff [OF less(3)] False by simp
    moreover have "sent d (unat len) = []" using False by (subst sent.simps) (auto split: option.split)
    ultimately show ?thesis by (subst process_nlmsg.simps) simp
  next
    case True
    then obtain l where l: "nlmsg_len d = Some l" "16 \<le> unat len" "16 \<le> unat l" "unat l \<le> unat len" by blast
    let ?a = "pad4 (unat l)" and ?n = "len - ucast (nlmsg_align l)"
    note turn = process_nlmsg_turn [OF less(2-4) l]
    obtain q where q: "process_nlmsg h d len p = publish_all h (msg_out (take (unat l) d)) (world p) \<bind>
      (\<lambda>w. process_nlmsg h (drop ?a d) ?n (q\<lparr>world := w\<rparr>))" using turn(1) by blast
    have IH: "map_option world (process_nlmsg h (drop ?a d) ?n q') = publish_all h (sent (drop ?a d) (unat ?n)) (world q')" for q'
      by (rule less(1)) (use turn(2,3) less(2-4) l pad4_bounds [of "unat l"] in \<open>auto simp: dvd_diff_nat\<close>)
    have "sent d (unat len) = msg_out (take (unat l) d) @ sent (drop ?a d) (unat ?n)" using l turn(2) by (subst sent.simps) simp
    then show ?thesis using IH by (simp add: q publish_all_append split: bind_split)
  qed
qed

end

section \<open>Pieces of a stream\<close>

fun stream :: "event list \<Rightarrow> bytes" where
  "stream [] = []"
| "stream (Failed # es) = []"
| "stream (Chunk bs # es) = bs @ stream es"

lemma recv_stream:
  assumes "Failed \<notin> set es" and "0 < n" and "stream es \<noteq> []"
  shows "\<exists>k es'. recv n es = (int k, take k (stream es), es') \<and> 0 < k \<and> k \<le> n \<and> k \<le> length (stream es) \<and>
    stream es' = drop k (stream es) \<and> Failed \<notin> set es'"
  using assms
proof (induction n es rule: recv.induct)
  case (3 n bs es)
  show ?case
  proof (cases "bs = []")
    case True
    then show ?thesis using 3 by simp
  next
    case False
    then show ?thesis using 3(2,3)
      by (intro exI [of _ "min (length bs) n"] exI [of _ "if length bs \<le> n then es else Chunk (drop n bs) # es"])
        (auto simp: min_def)
  qed
qed simp_all

lemma store_eq: "l + length bs \<le> length buf \<Longrightarrow> store l bs buf = Some (take l buf @ bs @ drop (l + length bs) buf)"
  by (simp add: store_def)

lemma recv_loop_stream:
  assumes "Failed \<notin> set es" and "l \<le> sz" and "sz \<le> length buf" and "sz - l \<le> length (stream es)"
  shows "\<exists>n' es'. recv_loop sz l n buf es = Some (n', take l buf @ take (sz - l) (stream es) @ drop sz buf, es') \<and>
    stream es' = drop (sz - l) (stream es) \<and> Failed \<notin> set es' \<and> (l < sz \<or> 0 < n \<longrightarrow> 0 < n')"
  using assms
proof (induction sz l n buf es rule: recv_loop.induct)
  case (1 sz l n buf es)
  show ?case
  proof (cases "l < sz")
    case True
    let ?s = "stream es"
    have "?s \<noteq> []" using True 1(5) by auto
    with recv_stream [of es "sz - l"] True 1(2) obtain k es' where
      r: "recv (sz - l) es = (int k, take k ?s, es')" "0 < k" "k \<le> sz - l" "k \<le> length ?s"
        "stream es' = drop k ?s" "Failed \<notin> set es'" by auto
    let ?buf = "take l buf @ take k ?s @ drop (l + k) buf"
    have st: "store l (take k ?s) buf = Some ?buf" using store_eq [of l "take k ?s" buf] r(3,4) 1(3,4) by simp
    have eq: "recv_loop sz l n buf es = recv_loop sz (l + k) (int k) ?buf es'"
      using True r(1,2) st by (subst recv_loop.simps) simp
    have "\<exists>n' es''. recv_loop sz (l + nat (int k)) (int k) ?buf es' =
        Some (n', take (l + nat (int k)) ?buf @ take (sz - (l + nat (int k))) (stream es') @ drop sz ?buf, es'') \<and>
      stream es'' = drop (sz - (l + nat (int k))) (stream es') \<and> Failed \<notin> set es'' \<and>
      (l + nat (int k) < sz \<or> 0 < int k \<longrightarrow> 0 < n')"
      by (rule 1(1) [OF True r(1) [symmetric] refl _ st]) (use r st 1(3-5) in auto)
    then obtain n' es'' where i: "recv_loop sz (l + k) (int k) ?buf es' =
        Some (n', take (l + k) ?buf @ take (sz - (l + k)) (stream es') @ drop sz ?buf, es'')"
      "stream es'' = drop (sz - (l + k)) (stream es')" "Failed \<notin> set es''" "0 < n'" using r(2) by auto
    have T: "take (l + k) ?buf = take l buf @ take k ?s" "drop sz ?buf = drop sz buf" using r(3,4) 1(3,4) by simp_all
    have "k + (sz - (l + k)) = sz - l" using r(3) by simp
    then have S: "take (sz - l) ?s = take k ?s @ take (sz - (l + k)) (stream es')" "stream es'' = drop (sz - l) ?s"
      using r(5) i(2) take_add [of k "sz - (l + k)" ?s] by (simp_all add: add.commute)
    have "take (l + k) ?buf @ take (sz - (l + k)) (stream es') @ drop sz ?buf = take l buf @ take (sz - l) ?s @ drop sz buf"
      by (simp only: T S append_assoc)
    with i(1) eq have "recv_loop sz l n buf es = Some (n', take l buf @ take (sz - l) ?s @ drop sz buf, es'')" by (simp only:)
    then show ?thesis using i(3,4) S(2) by blast
  next
    case False
    then have "l = sz" using 1(3) by simp
    then show ?thesis using 1(2) by (subst recv_loop.simps) simp
  qed
qed

section \<open>The reader of FPM messages\<close>

lemma sent_append:
  assumes "n \<le> length d"
  shows "sent (d @ x) n = sent d n"
  using assms
proof (induction d n rule: sent.induct)
  case (1 d n)
  show ?case
  proof (cases "n < 16")
    case True
    then show ?thesis by (subst (1 2) sent.simps) (simp split: option.split)
  next
    case False
    then have "nlmsg_len (d @ x) = nlmsg_len d" using 1(2) by (auto simp: field_defs u32_at_def byte_at_def nth_append)
    moreover obtain l where l: "nlmsg_len d = Some l" using nlmsg_len_read [of d] False 1(2) by (cases "nlmsg_len d") auto
    ultimately show ?thesis
    proof (cases "unat l < 16 \<or> n < unat l")
      case ge: False
      let ?a = "pad4 (unat l)"
      have t: "take (unat l) (d @ x) = take (unat l) d" using ge 1(2) by simp
      have "sent (drop ?a (d @ x)) (n - ?a) = sent (drop ?a d) (n - ?a)"
      proof (cases "?a \<le> n")
        case True
        then show ?thesis using 1(1) [OF l] False ge 1(2) by simp
      next
        case short: False
        have "sent e 0 = []" for e by (subst sent.simps) (simp split: option.split)
        then show ?thesis using short by simp
      qed
      moreover have "sent (d @ x) n = msg_out (take (unat l) (d @ x)) @ sent (drop ?a (d @ x)) (n - ?a)"
        using l False ge \<open>nlmsg_len (d @ x) = nlmsg_len d\<close> by (subst sent.simps) (simp del: take_append drop_append)
      moreover have "sent d n = msg_out (take (unat l) d) @ sent (drop ?a d) (n - ?a)"
        using l False ge by (subst sent.simps) simp
      ultimately show ?thesis by (simp only: t)
    qed (subst (1 2) sent.simps, simp add: l)
  qed
qed

lemma fpm_hdr_at_append: "4 \<le> length a \<Longrightarrow> fpm_hdr_at (a @ b) = fpm_hdr_at a"
  by (auto simp: fpm_hdr_at_def u16_at_def byte_at_def nth_append)

lemma fpm_hdr_at_take: "fpm_hdr_at (take 4 a) = fpm_hdr_at a"
  by (simp add: fpm_hdr_at_def u16_at_def byte_at_def)

text \<open>A complete FPM message with netlink messages as its payload.\<close>

definition fpm_message :: "bytes \<Rightarrow> bool" where
  "fpm_message msg \<longleftrightarrow> (case fpm_hdr_at msg of
     None \<Rightarrow> False
   | Some fpm \<Rightarrow> fpm_msg_hdr_ok fpm \<and> version fpm = BROKER_FPM_VERSION \<and> msg_type fpm = FPM_MSG_TYPE_NETLINK \<and>
       length msg = unat (fpm_msg_len fpm))"

context message_sink
begin

lemma show_debug_quiet: "show_debug h p = Some p" "debug_print h s p = p"
  using quiet by (simp_all add: show_debug_def debug_print_def)

lemma process_fpm_sent:
  assumes msg: "fpm_message msg" and es: "Failed \<notin> set es" "stream es = msg @ rest" and buf: "length buf = 4096"
  shows "map_option (\<lambda>(n, es', p'). (0 < n, stream es', world p')) (broker_process_fpm h buf es p) =
    map_option (\<lambda>w. (True, rest, w)) (publish_all h (sent (drop 4 msg) (length msg - 4)) (world p))"
proof -
  obtain fpm where fpm: "fpm_hdr_at msg = Some fpm" "fpm_msg_hdr_ok fpm" "version fpm = BROKER_FPM_VERSION"
    "msg_type fpm = FPM_MSG_TYPE_NETLINK" "length msg = unat (fpm_msg_len fpm)"
    using msg by (auto simp: fpm_message_def split: option.splits)
  note H = fpm_hdr_okD [OF fpm(2)]
  have d4: "4 dvd unat (fpm_msg_len fpm)" using H(4) fpm(4) .
  let ?L = "unat (fpm_msg_len fpm)"
  obtain n1 es1 where r1: "recv_loop 4 0 0 buf es = Some (n1, take 4 msg @ drop 4 buf, es1)" "0 < n1"
    "stream es1 = drop 4 msg @ rest" "Failed \<notin> set es1"
    using recv_loop_stream [of es 0 4 buf 0] es buf H(1) fpm(5) by auto
  let ?b = "take 4 msg @ drop 4 buf"
  have hd: "fpm_hdr_at ?b = Some fpm" using fpm(1,5) H(1) fpm_hdr_at_append [of "take 4 msg" "drop 4 buf"] fpm_hdr_at_take by simp
  have t: "take 4 ?b = take 4 msg" "drop ?L ?b = drop ?L buf" using H(1) fpm(5) by simp_all
  obtain n2 es2 where r2: "recv_loop ?L 4 n1 ?b es1 = Some (n2, take 4 ?b @ take (?L - 4) (drop 4 msg @ rest) @ drop ?L ?b, es2)"
    "0 < n2" "stream es2 = drop (?L - 4) (drop 4 msg @ rest)"
  proof -
    have "4 \<le> ?L" "?L \<le> length ?b" "?L - 4 \<le> length (stream es1)" using r1(3) H(1,2) fpm(5) buf by simp_all
    from recv_loop_stream [OF r1(4) this, of n1] show ?thesis using that r1(2,3) by auto
  qed
  have b2: "take 4 ?b @ take (?L - 4) (drop 4 msg @ rest) @ drop ?L ?b = msg @ drop ?L buf"
    using fpm(5) H(1) unfolding t by (simp add: fpm(5)[symmetric])
  have s2: "stream es2 = rest" using r2(3) fpm(5) by simp
  let ?d = "drop 4 msg @ drop ?L buf"
  have dl: "unat (fpm_msg_data_len fpm) = length msg - 4" using fpm_data_len [OF fpm(2)] fpm(5) by simp
  have "\<not> fpm_msg_len fpm > FPM_MAX_MSG_LEN" using H(2) by (simp add: word_less_nat_alt)
  then have eq: "broker_process_fpm h buf es p = map_option (\<lambda>q. (n2, es2, q)) (process_nlmsg h ?d (fpm_msg_data_len fpm) p)"
    using r1(1,2) hd fpm(2-4) r2(1,2) unfolding b2
    by (cases "process_nlmsg h ?d (fpm_msg_data_len fpm) p")
      (simp_all add: broker_process_fpm_def show_debug_quiet Let_def fpm_msg_data_def fpm(5) H(1))
  have "map_option world (process_nlmsg h ?d (fpm_msg_data_len fpm) p) = publish_all h (sent ?d (length msg - 4)) (world p)"
    using process_nlmsg_sent [of "fpm_msg_data_len fpm" ?d p] dl d4 H(2) fpm(5) by (simp add: dvd_diff_nat)
  also have "sent ?d (length msg - 4) = sent (drop 4 msg) (length msg - 4)" by (rule sent_append) simp
  finally have "map_option world (process_nlmsg h ?d (fpm_msg_data_len fpm) p) =
    publish_all h (sent (drop 4 msg) (length msg - 4)) (world p)" .
  from this [symmetric] show ?thesis
    unfolding eq option.map_comp by (auto simp: option.map_comp comp_def r2(2) s2 intro: option.map_cong)
qed

end

end
