(* ===== verification/Process_Properties.thy ===== *)
theory Process_Properties
  imports Process_Reference
begin

text \<open>
  The properties of the reader. The examples run on a publisher that writes down what it is given.
\<close>

section \<open>A publisher that keeps a list\<close>

definition trace_host :: "(bytes \<times> int) list host" where
  "trace_host = \<lparr>broker_debug = False, attr_parse = eg_mnl,
     publish = (\<lambda>d i w. Some (w @ [(take (unat (the (nlmsg_len d))) d, i)])), show_broker = (\<lambda>w. Some [])\<rparr>"

interpretation trace: message_sink trace_host
  by unfold_locales (simp_all add: trace_host_def fields_take)

definition eg_proc :: "(bytes \<times> int) list proc" where
  "eg_proc = \<lparr>stderr = [], world = []\<rparr>"

text \<open>A route message of 36 bytes with an FPM header in front.\<close>

definition eg_fpm :: bytes where "eg_fpm = [1, 1, 0, 40] @ eg_msg 24 1"

lemma eg_fpm_message: "fpm_message eg_fpm" by code_simp

lemma eg_sent: "publish_all trace_host (sent (drop 4 eg_fpm) (length eg_fpm - 4)) [] =
    Some [(set_nlmsg_flags NLM_F_REPLACE (eg_msg 24 1), ROUTE_CONNECTED)]"
  by code_simp

section \<open>Normal form\<close>

text \<open>
  C20. Normalising a route message gives a message in normal form, of the same length, and changes
  nothing the second time. The scopes with which the kernel and the routing daemon announce the same
  connected IPv4 route, and the two ways to name the main table, become one.
\<close>

theorem normalising:
  assumes "28 \<le> length d"
  shows "\<exists>i e. rtnl_normal d = Some (i, e) \<and> normal_msg i e \<and> length e = length d \<and> rtnl_normal e = Some (i, e) \<and>
    (rtm_protocol d = Some RTPROT_KERNEL \<and> rtm_family d = Some AF_INET \<longrightarrow>
       rtnl_normal (set_rtm_scope RT_SCOPE_LINK d) = rtnl_normal (set_rtm_scope RT_SCOPE_UNIVERSE d)) \<and>
    rtnl_normal (set_rtm_table RT_TABLE_UNSPEC d) = rtnl_normal (set_rtm_table RT_TABLE_MAIN d)"
proof -
  obtain i e where e: "rtnl_normal d = Some (i, e)" using rtnl_normal_total [OF assms] by blast
  have fixed: "rtnl_normal e = Some (i, e)"
    by (rule normal_fixed [OF rtnl_normal_normal [OF e]]) (simp add: rtnl_normal_fields(1) [OF e] assms)
  have read: "rtm_scope d \<noteq> None" "rtm_table d \<noteq> None" using assms by (simp_all add: field_defs byte_at_def)
  have again: "set_rtm_scope v (set_rtm_scope u d) = set_rtm_scope v d" "set_rtm_table v (set_rtm_table u d) = set_rtm_table v d" for u v d
    by (simp_all add: set_defs)
  have "rtnl_normal (set_rtm_scope RT_SCOPE_LINK d) = rtnl_normal (set_rtm_scope RT_SCOPE_UNIVERSE d)"
    if "rtm_protocol d = Some RTPROT_KERNEL" "rtm_family d = Some AF_INET"
    using that read by (simp add: rtnl_normal_def rtnl_connected_def again)
  moreover have "rtnl_normal (set_rtm_table RT_TABLE_UNSPEC d) = rtnl_normal (set_rtm_table RT_TABLE_MAIN d)"
  proof -
    have swap: "set_rtm_scope u (set_rtm_table v d) = set_rtm_table v (set_rtm_scope u d)" for u v
      by (simp add: set_defs list_update_swap)
    have c: "rtnl_connected (set_rtm_table v d) = map_option (map_prod id (set_rtm_table v)) (rtnl_connected d)" for v
      by (simp add: rtnl_connected_def map_option_bind comp_def if_distrib swap cong: if_cong)
    obtain j a where a: "rtnl_connected d = Some (j, a)" using e by (auto elim: rtnl_normalE)
    have "rtm_table a \<noteq> None" using read rtnl_connected_normal(8) [OF a] by simp
    then have "rtnl_main_table (set_rtm_table RT_TABLE_UNSPEC a) = rtnl_main_table (set_rtm_table RT_TABLE_MAIN a)"
      by (simp add: rtnl_main_table_def again)
    then show ?thesis by (simp add: rtnl_normal_def c a)
  qed
  ultimately show ?thesis using e fixed rtnl_normal_normal [OF e] rtnl_normal_fields(1) [OF e] by blast
qed

theorem normalising_witness:
  "\<exists>i e. rtnl_normal (eg_msg 24 1) = Some (i, e) \<and> normal_msg i e \<and> length e = 36"
  using normalising [of "eg_msg 24 1"] by (auto simp: eg_msg_def)

section \<open>Receiving\<close>

text \<open>
  C14. The loop over a buffer implements the reference: for a length that is a multiple of four and
  within the memory, it terminates, and what happens to the broker is that the messages of the
  reference are published, one after the other; it fails only where one of the publishes fails.
\<close>

theorem nlmsg_loop_is_reference:
  assumes "message_sink h" and "4 dvd unat len" and "unat len \<le> length d" and "unat len \<le> BUFSIZ"
  shows "map_option world (process_nlmsg h d len p) = publish_all h (sent d (unat len)) (world p)"
  by (rule message_sink.process_nlmsg_sent [OF assms(1-3)]) (use assms(4) in simp)

theorem nlmsg_loop_is_reference_witness:
  "map_option world (process_nlmsg trace_host (eg_msg 24 1 @ [1, 2, 3]) 36 eg_proc) =
     Some [(set_nlmsg_flags NLM_F_REPLACE (eg_msg 24 1), ROUTE_CONNECTED)]"
proof -
  have "length (eg_msg 24 1 @ [1, 2, 3]) = 39" by (simp add: eg_msg_def)
  with nlmsg_loop_is_reference [OF trace.message_sink_axioms, of 36 "eg_msg 24 1 @ [1, 2, 3]" eg_proc]
  have "map_option world (process_nlmsg trace_host (eg_msg 24 1 @ [1, 2, 3]) 36 eg_proc) =
    publish_all trace_host (sent (eg_msg 24 1 @ [1, 2, 3]) 36) []" by (simp add: eg_proc_def)
  also have "\<dots> = Some [(set_nlmsg_flags NLM_F_REPLACE (eg_msg 24 1), ROUTE_CONNECTED)]" by code_simp
  finally show ?thesis .
qed

text \<open>
  C13. It does not matter how an FPM message arrives: cut into any pieces, with anything behind it and
  whatever was on the stack, it is taken off the stream exactly, the result is positive, and what its
  payload says is published.
\<close>

theorem fpm_message_in_any_pieces:
  assumes "message_sink h" and "fpm_message msg" and "Failed \<notin> set es" and "stream es = msg @ rest"
    and "length buf = unat FPM_MAX_MSG_LEN"
  shows "map_option (\<lambda>(n, es', p'). (0 < n, stream es', world p')) (broker_process_fpm h buf es p) =
    map_option (\<lambda>w. (True, rest, w)) (publish_all h (sent (drop 4 msg) (length msg - 4)) (world p))"
  by (rule message_sink.process_fpm_sent [OF assms(1-4)]) (use assms(5) in simp)

theorem fpm_message_in_any_pieces_witness:
  "map_option (\<lambda>(n, es', p'). (0 < n, stream es', world p'))
     (broker_process_fpm trace_host (replicate 4096 0) [Chunk (take 3 eg_fpm), Chunk (drop 3 eg_fpm @ [7])] eg_proc) =
   Some (True, [7], [(set_nlmsg_flags NLM_F_REPLACE (eg_msg 24 1), ROUTE_CONNECTED)])"
proof -
  have "stream [Chunk (take 3 eg_fpm), Chunk (drop 3 eg_fpm @ [7])] = eg_fpm @ [7]" by simp
  from fpm_message_in_any_pieces [OF trace.message_sink_axioms eg_fpm_message _ this, of "replicate 4096 0" eg_proc]
  show ?thesis by (simp add: eg_sent eg_proc_def)
qed



section \<open>Any bytes at all\<close>







section \<open>The dump at the start\<close>

text \<open>
  C21. The dump at the start publishes routes of the kernel and nothing else: when
  \<open>broker_dump_routes\<close> returns, the broker has changed by publishing route additions of the kernel,
  in normal form and with the priority of connected routes.
\<close>

theorem dump_publishes_kernel_routes:
  assumes "broker_dump_routes h s p = Some (Inr p')"
  shows "\<exists>ms. list_all dumped_ok ms \<and> publish_all h ms (world p) = Some (world p')"
  using dump_publishes [OF assms] by (simp add: publishes_def)

text \<open>A kernel with one route, and a dump of each family that ends with its first batch.\<close>

definition eg_socket :: mnl_socket where
  "eg_socket = \<lparr>socket_open = True, sendto = (\<lambda>r. 0), recvfrom = (\<lambda>k. Some (if k = 0 then eg_msg 24 1 else [])),
     cb_run = (\<lambda>buf. (0, if buf = [] then [] else [0]))\<rparr>"

theorem dump_publishes_kernel_routes_witness:
  "\<exists>p' ms. broker_dump_routes trace_host eg_socket eg_proc = Some (Inr p') \<and> list_all dumped_ok ms \<and>
     publish_all trace_host ms [] = Some [(eg_msg 24 1, ROUTE_CONNECTED)]"
proof -
  have r: "broker_dump_routes trace_host eg_socket eg_proc =
    Some (Inr (eg_proc\<lparr>world := [(eg_msg 24 1, ROUTE_CONNECTED)]\<rparr>))" by code_simp
  from dump_publishes_kernel_routes [OF r] r show ?thesis by (auto simp: eg_proc_def)
qed

end
