(* ===== verification/Route_Laws.thy ===== *)
theory Route_Laws
  imports Route_Broker
begin

text \<open>
  The route broker as a user of the object broker. The locales \<open>zhash\<close> and \<open>object_callbacks\<close>
  state what the route broker relies on: the hash table of czmq and the callbacks on payloads.
  Under them the callbacks of routes satisfy the contract \<open>broker_callbacks\<close>, so every effect
  lemma of the object broker holds for routes.
\<close>

section \<open>What the route broker relies on\<close>

text \<open>
  czmq: a new table is empty; inserting a key that is there leaves the table as it is; deleting a
  key that is not there does nothing. \<open>NULL\<close> is the answer for a key that is not there.
\<close>

locale zhash =
  fixes zh :: "'h zhash_ops"
  assumes lookup_new: "zhash_new zh = Some h \<Longrightarrow> zhash_lookup zh h k = NULL"
    and lookup_insert: "v \<noteq> NULL \<Longrightarrow>
      zhash_lookup zh (zhash_insert zh h k v) k' =
        (if k' = k \<and> zhash_lookup zh h k = NULL then v else zhash_lookup zh h k')"
    and lookup_delete: "zhash_lookup zh (zhash_delete zh h k) k' =
        (if k' = k then NULL else zhash_lookup zh h k')"

text \<open>
  The callbacks on payloads: \<open>norm d\<close> is the part of the memory at \<open>d\<close> that a copy takes. A
  \<open>valid\<close> payload is a complete one: it is its own copy, and it is given a topic or refused.
\<close>

locale object_callbacks =
  fixes cb :: "'d object_cbs" and valid :: "'d \<Rightarrow> bool" and norm :: "'d \<Rightarrow> 'd"
  assumes copy: "valid (norm d) \<Longrightarrow>
      copy_obj cb m d ds = Some (if m = NULL then (NULL, ds) else (m, ds(m \<mapsto> norm d)))"
    and norm: "valid d \<Longrightarrow> norm d = d"
    and free: "p \<noteq> NULL \<Longrightarrow> ds p \<noteq> None \<Longrightarrow> free_obj cb p ds = Some (ds(p := None))"
    and topic: "valid d \<Longrightarrow> \<exists>rc t del. topic_gen cb d ROUTE_TOPIC_LEN = Some (rc, t, del)"

section \<open>Owning routes\<close>

definition route_grab :: "rib_route \<Rightarrow> rib_route" where
  "route_grab r = r\<lparr>refcount := refcount r + 1\<rparr>"

definition route_release :: "'h zhash_ops \<Rightarrow> ptr \<Rightarrow> ('d, 'h) route_mem \<Rightarrow> ('d, 'h) route_mem" where
  "route_release zh p w =
     (case objs w p of
        None \<Rightarrow> w
      | Some r \<Rightarrow> w\<lparr>objs := (objs w)(p := None),
                   route_hashtbl := map_option (\<lambda>h. zhash_delete zh h (topic r)) (route_hashtbl w),
                   datas := (datas w)(data r := None)\<rparr>)"

text \<open>The payload of a route.\<close>

definition payload :: "('d, 'h) route_mem \<Rightarrow> ptr \<Rightarrow> 'd option" where
  "payload w p = Option.bind (objs w p) (\<lambda>r. datas w (data r))"

definition has_payload :: "('d \<Rightarrow> bool) \<Rightarrow> ('d, 'h) route_mem \<Rightarrow> rib_route \<Rightarrow> bool" where
  "has_payload valid w r \<longleftrightarrow> data r \<noteq> NULL \<and> (\<exists>d. datas w (data r) = Some d \<and> valid d)"

definition routes_owned :: "('d \<Rightarrow> bool) \<Rightarrow> ptr option \<Rightarrow> ('d, 'h) route_mem \<Rightarrow> bool" where
  "routes_owned valid x w \<longleftrightarrow>
     route_hashtbl w \<noteq> None \<and>
     (\<forall>p r. objs w p = Some r \<longrightarrow> x \<noteq> Some p \<longrightarrow>
        p \<noteq> NULL \<and> refcount r = 1 \<and> obj_type r = 0 \<and> has_payload valid w r) \<and>
     (\<forall>p r q s. objs w p = Some r \<longrightarrow> objs w q = Some s \<longrightarrow> x \<noteq> Some p \<longrightarrow> x \<noteq> Some q \<longrightarrow>
        data r = data s \<longrightarrow> p = q)"

definition route_fresh :: "('d \<Rightarrow> bool) \<Rightarrow> ptr \<Rightarrow> ('d, 'h) route_mem \<Rightarrow> bool" where
  "route_fresh valid p w \<longleftrightarrow>
     routes_owned valid (Some p) w \<and> p \<noteq> NULL \<and>
     (\<exists>r. objs w p = Some r \<and> refcount r = 0 \<and> has_payload valid w r \<and>
        (\<forall>q s. objs w q = Some s \<longrightarrow> data s = data r \<longrightarrow> q = p))"

lemma routes_ownedD:
  assumes "routes_owned valid x w"
  shows "route_hashtbl w \<noteq> None"
    "\<And>p r. objs w p = Some r \<Longrightarrow> x \<noteq> Some p \<Longrightarrow>
       p \<noteq> NULL \<and> refcount r = 1 \<and> obj_type r = 0 \<and> has_payload valid w r"
    "\<And>p r q s. objs w p = Some r \<Longrightarrow> objs w q = Some s \<Longrightarrow> x \<noteq> Some p \<Longrightarrow> x \<noteq> Some q \<Longrightarrow>
       data r = data s \<Longrightarrow> p = q"
  using assms unfolding routes_owned_def by blast+

lemma route_freshD:
  assumes "route_fresh valid p w" and "objs w p = Some ob"
  shows "routes_owned valid (Some p) w" "p \<noteq> NULL" "refcount ob = 0" "has_payload valid w ob"
    "\<And>q s. objs w q = Some s \<Longrightarrow> data s = data ob \<Longrightarrow> q = p"
  using assms unfolding route_fresh_def option.inject by (metis option.inject)+

lemma route_release_mem [simp]:
  "objs (route_release zh p w) = (objs w)(p := None)" "clis (route_release zh p w) = clis w"
  "brks (route_release zh p w) = brks w" "broker_list_head (route_release zh p w) = broker_list_head w"
  "inited (route_release zh p w) = inited w"
  "route_broker (route_release zh p w) = route_broker w"
  "rclis (route_release zh p w) = rclis w"
  "client_list_head (route_release zh p w) = client_list_head w"
  by (auto simp: route_release_def fun_upd_idem split: option.split)

lemma same_exts_route:
  fixes w w' :: "('d, 'h) route_mem"
  assumes "same_exts w w'"
  shows "route_hashtbl w' = route_hashtbl w" "datas w' = datas w"
    "rel_option same_ext (objs w p) (objs w' p)"
  using assms by (cases w; cases w'; auto simp: same_exts_def)+

lemma same_ext_route:
  assumes "same_ext r (s :: rib_route)"
  shows "refcount s = refcount r" "data s = data r" "obj_type s = obj_type r" "topic s = topic r"
    "pri s = pri r"
  using assms by (cases r; cases s; auto simp: same_ext_def)+

lemma same_exts_objs:
  fixes w w' :: "('d, 'h) route_mem"
  assumes "same_exts w w'" and "objs w' p = Some s"
  obtains r where "objs w p = Some r" "same_ext r s"
  using same_exts_route(3) [OF assms(1), of p] assms(2) by (cases "objs w p") auto

lemma routes_owned_same:
  assumes own: "routes_owned valid x w" and same: "same_exts w w'"
  shows "routes_owned valid x w'"
  unfolding routes_owned_def
proof (intro conjI allI impI)
  note same' = same_exts_route(1,2) [OF same]
  show "route_hashtbl w' \<noteq> None" using routes_ownedD(1) [OF own] same' by simp
  fix p s
  assume s: "objs w' p = Some s" and x: "x \<noteq> Some p"
  obtain r where r: "objs w p = Some r" "same_ext r s" using same_exts_objs [OF same s] .
  show "p \<noteq> NULL" "refcount s = 1" "obj_type s = 0" "has_payload valid w' s"
    using routes_ownedD(2) [OF own r(1) x] same_ext_route [OF r(2)] same'
    by (auto simp: has_payload_def)
  fix q s'
  assume s': "objs w' q = Some s'" and y: "x \<noteq> Some q" and eq: "data s = data s'"
  obtain r' where r': "objs w q = Some r'" "same_ext r' s'" using same_exts_objs [OF same s'] .
  show "p = q"
    using routes_ownedD(3) [OF own r(1) r'(1) x y] same_ext_route [OF r(2)] same_ext_route [OF r'(2)] eq
    by simp
qed

lemma route_release_owned:
  assumes own: "routes_owned valid x w" and "x \<noteq> Some p" and p: "objs w p \<noteq> None"
  shows "routes_owned valid x (route_release zh p w)"
proof -
  obtain r where r: "objs w p = Some r" using p by auto
  have "has_payload valid (route_release zh p w) s"
    if s: "objs w q = Some s" "x \<noteq> Some q" "q \<noteq> p" for q s
  proof -
    have "data s \<noteq> data r" using routes_ownedD(3) [OF own s(1) r s(2) assms(2)] s(3) by blast
    then show ?thesis
      using routes_ownedD(2) [OF own s(1,2)] r by (simp add: has_payload_def route_release_def)
  qed
  moreover have "route_hashtbl (route_release zh p w) \<noteq> None"
    using routes_ownedD(1) [OF own] r by (simp add: route_release_def)
  ultimately show ?thesis
    using own unfolding routes_owned_def by (simp del: not_None_eq)
qed

lemma routes_owned_grab:
  assumes "route_fresh valid p w" and "objs w p = Some ob"
    and more: "broker_mem.more w' = broker_mem.more w"
    and os: "objs w' = (objs w)(p \<mapsto> route_grab (ob\<lparr>obj_type := word_of_int 0, flags := f, obj_id := i\<rparr>))"
  shows "routes_owned valid None w'"
proof -
  have mem: "datas w' = datas w" "route_hashtbl w' = route_hashtbl w"
    using more by (cases w; cases w'; simp)+
  let ?ob = "route_grab (ob\<lparr>obj_type := word_of_int 0, flags := f, obj_id := i\<rparr>)"
  have own: "routes_owned valid (Some p) w" and new: "p \<noteq> NULL" "refcount ob = 0" "has_payload valid w ob"
    and alone: "\<And>q s. objs w q = Some s \<Longrightarrow> data s = data ob \<Longrightarrow> q = p"
    using route_freshD [OF assms(1,2)] by blast+
  have ob: "refcount ?ob = 1" "obj_type ?ob = 0" "data ?ob = data ob" "has_payload valid w' ?ob"
    using new by (simp_all add: route_grab_def has_payload_def mem)
  show ?thesis
    unfolding routes_owned_def os
  proof (intro conjI allI impI)
    show "route_hashtbl w' \<noteq> None" using routes_ownedD(1) [OF own] mem by simp
    fix q s
    assume s: "((objs w)(p \<mapsto> ?ob)) q = Some s"
    then have q: "q = p \<and> s = ?ob \<or> q \<noteq> p \<and> objs w q = Some s" by (auto split: if_splits)
    show "q \<noteq> NULL" "refcount s = 1" "obj_type s = 0" "has_payload valid w' s"
      using q ob new(1) routes_ownedD(2) [OF own, of q s] mem by (auto simp: has_payload_def)
    fix q' s'
    assume "((objs w)(p \<mapsto> ?ob)) q' = Some s'" and eq: "data s = data s'"
    then have q': "q' = p \<and> s' = ?ob \<or> q' \<noteq> p \<and> objs w q' = Some s'" by (auto split: if_splits)
    show "q = q'"
      using q q' eq ob(3) alone routes_ownedD(3) [OF own, of q s q' s'] by auto
  qed
qed

lemma rib_route_unlock_eq:
  assumes "object_callbacks cb valid norm"
    and own: "routes_owned valid x w" and "x \<noteq> Some p" and "objs w p \<noteq> None"
  shows "rib_route_unlock zh cb w (Obj p) = Some (route_release zh p w)"
proof -
  obtain r where r: "objs w p = Some r" using assms(4) by auto
  from routes_ownedD(2) [OF own r assms(3)] have "refcount r = 1" "obj_type r = 0" "data r \<noteq> NULL" "datas w (data r) \<noteq> None"
    by (auto simp: has_payload_def)
  moreover obtain h where "route_hashtbl w = Some h" using routes_ownedD(1) [OF own] by auto
  ultimately show ?thesis
    using r object_callbacks.free [OF assms(1)]
    by (simp add: rib_route_unlock_def broker_obj_to_rib_route_def rib_route_delete_def free_data_def
        free_route_def route_release_def Let_def)
qed

locale route_callbacks = zhash zh + object_callbacks cb valid norm
  for zh :: "'h zhash_ops" and cb :: "'d object_cbs" and valid norm

sublocale route_callbacks \<subseteq> broker_callbacks "route_broker_ops zh cb" ROUTE_BROKER_ROUTE route_grab
    "route_release zh" "routes_owned valid" "route_fresh valid"
proof
  show "\<exists>f. obj_to_broker_obj (route_broker_ops zh cb) = Some f \<and>
      (\<forall>p. p \<noteq> NULL \<longrightarrow> f p ROUTE_BROKER_ROUTE = Some (Obj p))"
    by (simp add: route_broker_ops_def rib_route_to_broker_obj_def)
  show "\<exists>f. lock_obj (route_broker_ops zh cb) = Some f \<and>
      (\<forall>w p ob. objs w p = Some ob \<and> obj_type ob = word_of_int ROUTE_BROKER_ROUTE \<longrightarrow>
         f w (Obj p) = Some (w\<lparr>objs := (objs w)(p \<mapsto> route_grab ob)\<rparr>))"
    by (simp add: route_broker_ops_def rib_route_lock_def broker_obj_to_rib_route_def upd_obj_def
        route_grab_def)
  show "\<exists>f. unlock_obj (route_broker_ops zh cb) = Some f \<and>
      (\<forall>w p x. routes_owned valid x w \<and> x \<noteq> Some p \<and> objs w p \<noteq> None \<longrightarrow>
         f w (Obj p) = Some (route_release zh p w))"
    using rib_route_unlock_eq [OF object_callbacks_axioms]
    by (simp add: route_broker_ops_def del: not_None_eq) blast
qed (auto simp: route_grab_def intro: route_release_owned routes_owned_same routes_owned_grab)

end
