(* ===== verification/Route_Invariant.thy ===== *)
theory Route_Invariant
  imports Route_Laws
begin

text \<open>
  The invariant of the route broker, \<open>route_ok\<close>, and the table it stands for, \<open>rib\<close>. Each change
  the operations make (a route is added, stamped, released, its payload swapped) is a function on
  memory here, with the lemmas that it keeps the invariant and what it does to the table.
\<close>

section \<open>The invariant\<close>

definition levels_ok :: "('d, 'h) route_mem \<Rightarrow> bool" where
  "levels_ok w \<longleftrightarrow> length (route_broker w) = ROUTE_PRIORITY_MAX \<and> distinct (route_broker w) \<and> NULL \<notin> set (route_broker w) \<and>
     dom (brks w) = set (route_broker w)"

text \<open>Every route is queued in the broker of its priority.\<close>

definition routes_placed :: "('d, 'h) route_mem \<Rightarrow> bool" where
  "routes_placed w \<longleftrightarrow>
     (\<forall>p r. objs w p = Some r \<longrightarrow> unat (pri r) < ROUTE_PRIORITY_MAX \<and>
        (\<exists>br. brks w (route_broker w ! unat (pri r)) = Some br \<and> Obj p \<in> set (b_obj_list br)))"

text \<open>A hash entry is a live route with the topic it is filed under.\<close>

definition hash_sound :: "'h zhash_ops \<Rightarrow> ('d, 'h) route_mem \<Rightarrow> bool" where
  "hash_sound zh w \<longleftrightarrow>
     (\<forall>h t. route_hashtbl w = Some h \<longrightarrow> zhash_lookup zh h t \<noteq> NULL \<longrightarrow>
        (\<exists>r. objs w (zhash_lookup zh h t) = Some r \<and> topic r = t))"

text \<open>
  A client of the route broker has a client on every level. \<open>rcl_ok\<close> needs of the brokers only
  their lists of clients.
\<close>

definition rcl_ok :: "(nat \<Rightarrow> ptr list) \<Rightarrow> route_broker_client \<Rightarrow> bool" where
  "rcl_ok cls rcl \<longleftrightarrow>
     length (client rcl) = ROUTE_PRIORITY_MAX \<and> (\<forall>i < ROUTE_PRIORITY_MAX. client rcl ! i \<in> set (cls i))"

definition level_clients :: "('d, 'h) route_mem \<Rightarrow> nat \<Rightarrow> ptr list" where
  "level_clients w i = (case brks w (route_broker w ! i) of None \<Rightarrow> [] | Some br \<Rightarrow> b_client_list br)"

definition clients_ok :: "('d, 'h) route_mem \<Rightarrow> bool" where
  "clients_ok w \<longleftrightarrow>
     distinct (client_list_head w) \<and>
     (\<forall>rc \<in> set (client_list_head w). \<exists>rcl. rclis w rc = Some rcl \<and> rcl_ok (level_clients w) rcl) \<and>
     (\<forall>rc \<in> set (client_list_head w). \<forall>rc' \<in> set (client_list_head w). \<forall>rcl rcl'. \<forall>i < ROUTE_PRIORITY_MAX.
        rclis w rc = Some rcl \<longrightarrow> rclis w rc' = Some rcl' \<longrightarrow> client rcl ! i = client rcl' ! i \<longrightarrow> rc = rc')"

definition route_ok :: "'h zhash_ops \<Rightarrow> ('d \<Rightarrow> bool) \<Rightarrow> ('d, 'h) route_mem \<Rightarrow> bool" where
  "route_ok zh valid w \<longleftrightarrow>
     brokers_ok (brks w) (objs w) (clis w) \<and> levels_ok w \<and> routes_owned valid None w \<and>
     routes_placed w \<and> hash_sound zh w \<and> clients_ok w"

text \<open>The part of the invariant that does not look at the queues' order and marks.\<close>

definition route_rest :: "'h zhash_ops \<Rightarrow> ('d \<Rightarrow> bool) \<Rightarrow> ('d, 'h) route_mem \<Rightarrow> bool" where
  "route_rest zh valid w \<longleftrightarrow>
     levels_ok w \<and> routes_owned valid None w \<and> routes_placed w \<and> hash_sound zh w \<and> clients_ok w"

lemma route_ok_rest:
  "route_ok zh valid w \<longleftrightarrow> brokers_ok (brks w) (objs w) (clis w) \<and> route_rest zh valid w"
  by (simp add: route_ok_def route_rest_def)

lemma route_restD:
  assumes "route_rest zh valid w"
  shows "levels_ok w" "routes_owned valid None w" "routes_placed w" "hash_sound zh w" "clients_ok w"
  using assms by (auto simp: route_rest_def)

text \<open>Every route is found under its topic.\<close>

definition all_hashed :: "'h zhash_ops \<Rightarrow> ('d, 'h) route_mem \<Rightarrow> bool" where
  "all_hashed zh w \<longleftrightarrow>
     (\<forall>p r h. objs w p = Some r \<longrightarrow> route_hashtbl w = Some h \<longrightarrow> zhash_lookup zh h (topic r) = p)"

lemma route_okD:
  assumes "route_ok zh valid w"
  shows "brokers_ok (brks w) (objs w) (clis w)" "levels_ok w" "routes_owned valid None w"
    "routes_placed w" "hash_sound zh w" "clients_ok w"
  using assms by (auto simp: route_ok_def)

lemma route_placedD:
  assumes "route_ok zh valid w" and "objs w p = Some r"
  obtains br where "unat (pri r) < ROUTE_PRIORITY_MAX"
    "brks w (route_broker w ! unat (pri r)) = Some br" "Obj p \<in> set (b_obj_list br)"
  using route_okD(4) [OF assms(1)] assms(2) unfolding routes_placed_def by blast

lemma level_broker:
  assumes "levels_ok w" and "i < ROUTE_PRIORITY_MAX"
  obtains br where "brks w (route_broker w ! i) = Some br"
proof -
  have "route_broker w ! i \<in> dom (brks w)" using assms by (simp add: levels_ok_def)
  then show thesis using that by blast
qed

lemma level_inj:
  assumes "levels_ok w" and "i < ROUTE_PRIORITY_MAX" and "j < ROUTE_PRIORITY_MAX"
  shows "route_broker w ! i = route_broker w ! j \<longleftrightarrow> i = j"
  using assms by (simp add: levels_ok_def nth_eq_iff_index_eq)

lemma route_ok_broker:
  "route_ok zh valid w \<Longrightarrow> brks w b = Some br \<Longrightarrow> broker_wf b br (objs w) (clis w)"
  using broker_okD(1) brokers_okD(1) route_okD(1) by blast

lemma route_queued_at:
  assumes "route_ok zh valid w" and "objs w p = Some r" and "brks w b = Some br"
    and "Obj p \<in> set (b_obj_list br)"
  shows "b = route_broker w ! unat (pri r)"
  using route_placedD [OF assms(1,2)] brokers_okD(2) [OF route_okD(1) [OF assms(1)] assms(3) _ assms(4)]
  by metis

lemma route_hdr:
  assumes "route_ok zh valid w" and "objs w p = Some r"
  shows "flags r = 1 \<or> flags r = 5" "0 < obj_id r"
proof -
  obtain br where br: "brks w (route_broker w ! unat (pri r)) = Some br" "Obj p \<in> set (b_obj_list br)"
    using route_placedD [OF assms] by metis
  show "flags r = 1 \<or> flags r = 5" "0 < obj_id r"
    using broker_wfD(3) [OF route_ok_broker [OF assms(1) br(1)] br(2)] assms(2)
    by (auto simp: node_wf_def)
qed

section \<open>The table\<close>

definition rib :: "'h zhash_ops \<Rightarrow> ('d, 'h) route_mem \<Rightarrow> string \<Rightarrow> 'd option" where
  "rib zh w t = do {
     h \<leftarrow> route_hashtbl w;
     r \<leftarrow> objs w (zhash_lookup zh h t);
     if zhash_lookup zh h t = NULL \<or> flags r AND BROKER_FLAGS_DELETE \<noteq> 0 then None
     else datas w (data r)
   }"

definition hashed :: "'h zhash_ops \<Rightarrow> ('d, 'h) route_mem \<Rightarrow> string \<Rightarrow> ptr" where
  "hashed zh w t = (case route_hashtbl w of None \<Rightarrow> NULL | Some h \<Rightarrow> zhash_lookup zh h t)"

text \<open>What a route contributes to the table while it is filed under its topic.\<close>

definition entry :: "('d, 'h) route_mem \<Rightarrow> ptr \<Rightarrow> 'd option" where
  "entry w p = Option.bind (objs w p)
     (\<lambda>r. if flags r AND BROKER_FLAGS_DELETE \<noteq> 0 then None else datas w (data r))"

lemma rib_entry: "rib zh w t = (if hashed zh w t = NULL then None else entry w (hashed zh w t))"
  by (cases "route_hashtbl w"; cases "objs w (hashed zh w t)")
     (auto simp: rib_def hashed_def entry_def)

lemma hash_soundD:
  "hash_sound zh w \<Longrightarrow> hashed zh w t \<noteq> NULL \<Longrightarrow> \<exists>r. objs w (hashed zh w t) = Some r \<and> topic r = t"
  by (auto simp: hash_sound_def hashed_def split: option.splits)

lemma hash_soundI:
  "(\<And>t. hashed zh w t \<noteq> NULL \<Longrightarrow> \<exists>r. objs w (hashed zh w t) = Some r \<and> topic r = t) \<Longrightarrow> hash_sound zh w"
  by (force simp: hash_sound_def hashed_def split: option.splits)

lemma all_hashed_iff:
  "route_hashtbl w \<noteq> None \<Longrightarrow>
     all_hashed zh w \<longleftrightarrow> (\<forall>p r. objs w p = Some r \<longrightarrow> hashed zh w (topic r) = p)"
  by (auto simp: all_hashed_def hashed_def)

section \<open>What the invariant does not look at\<close>

lemma clients_ok_cong:
  assumes "clients_ok w" and "rclis w' = rclis w" and "client_list_head w' = client_list_head w"
    and "level_clients w' = level_clients w"
  shows "clients_ok w'"
  using assms unfolding clients_ok_def by simp

lemma level_clients_cong:
  assumes "route_broker w' = route_broker w"
    and "\<And>b. map_option b_client_list (brks w' b) = map_option b_client_list (brks w b)"
  shows "level_clients w' = level_clients w"
proof
  fix i
  show "level_clients w' i = level_clients w i"
    using assms(2) [of "route_broker w ! i"] assms(1)
    by (auto simp: level_clients_def split: option.splits)
qed

lemma level_clients_frame [simp, frame_simps]:
  "level_clients (w\<lparr>processed_msg := a\<rparr>) = level_clients w"
  "level_clients (w\<lparr>dropped_msg := a\<rparr>) = level_clients w"
  "level_clients (w\<lparr>ignored_msg := a\<rparr>) = level_clients w"
  "level_clients (w\<lparr>objs := os\<rparr>) = level_clients w"
  "level_clients (w\<lparr>clis := cs\<rparr>) = level_clients w"
  "level_clients (w\<lparr>datas := ds\<rparr>) = level_clients w"
  "level_clients (w\<lparr>rclis := rs\<rparr>) = level_clients w"
  "level_clients (w\<lparr>route_hashtbl := h\<rparr>) = level_clients w"
  by (simp_all add: level_clients_def fun_eq_iff)

lemma route_ok_counters [simp]:
  "route_ok zh valid (w\<lparr>processed_msg := x\<rparr>) = route_ok zh valid w"
  "route_ok zh valid (w\<lparr>dropped_msg := x\<rparr>) = route_ok zh valid w"
  "route_ok zh valid (w\<lparr>ignored_msg := x\<rparr>) = route_ok zh valid w"
  by (simp_all add: route_ok_def levels_ok_def routes_owned_def has_payload_def routes_placed_def
      hash_sound_def clients_ok_def)

lemma routes_owned_frame [simp, frame_simps]:
  "routes_owned valid x (w\<lparr>brks := bs\<rparr>) = routes_owned valid x w"
  "routes_owned valid x (w\<lparr>clis := cs\<rparr>) = routes_owned valid x w"
  "routes_owned valid x (w\<lparr>rclis := rs\<rparr>) = routes_owned valid x w"
  "routes_owned valid x (w\<lparr>client_list_head := cl\<rparr>) = routes_owned valid x w"
  by (simp_all add: routes_owned_def has_payload_def)

section \<open>Changes of the memory\<close>

text \<open>A route is marked with \<open>f\<close>, stamped, and moved to the newest end of its queue.\<close>

definition stamp_route :: "u32 \<Rightarrow> ptr \<Rightarrow> ('d, 'h) route_mem \<Rightarrow> ('d, 'h) route_mem" where
  "stamp_route f p w =
     (case objs w p of None \<Rightarrow> w | Some r \<Rightarrow>
        (let b = route_broker w ! unat (pri r) in
         case brks w b of None \<Rightarrow> w | Some br \<Rightarrow>
           w\<lparr>objs := (objs w)(p \<mapsto> r\<lparr>flags := f, obj_id := brk_id br + 1\<rparr>),
             brks := (brks w)(b \<mapsto> br\<lparr>b_obj_list := remove1 (Obj p) (b_obj_list br) @ [Obj p],
                                      brk_id := brk_id br + 1\<rparr>)\<rparr>))"

text \<open>A new route for topic \<open>t\<close> with a copy of \<open>d\<close> at \<open>dc\<close> enters the queue of level \<open>i\<close>.\<close>

definition add_route ::
  "nat \<Rightarrow> string \<Rightarrow> ptr \<Rightarrow> ptr \<Rightarrow> 'd \<Rightarrow> ('d, 'h) route_mem \<Rightarrow> ('d, 'h) route_mem" where
  "add_route i t p dc d w =
     (let b = route_broker w ! i in
      case brks w b of None \<Rightarrow> w | Some br \<Rightarrow>
        w\<lparr>objs := (objs w)(p \<mapsto> \<lparr>obj_type = 0, flags = 1, obj_id = brk_id br + 1, refcount = 1,
                                pri = of_nat i, topic = t, data = dc\<rparr>),
          brks := (brks w)(b \<mapsto> br\<lparr>b_obj_list := b_obj_list br @ [Obj p], brk_id := brk_id br + 1\<rparr>),
          datas := (datas w)(dc \<mapsto> d)\<rparr>)"

text \<open>A route leaves its queue and is freed.\<close>

definition drop_route :: "'h zhash_ops \<Rightarrow> ptr \<Rightarrow> ('d, 'h) route_mem \<Rightarrow> ('d, 'h) route_mem" where
  "drop_route zh p w =
     (case objs w p of None \<Rightarrow> w | Some r \<Rightarrow>
        release_step (route_release zh) (route_broker w ! unat (pri r)) p w)"

text \<open>The payload of a route is replaced by \<open>d\<close> at \<open>dc\<close>.\<close>

definition swap_payload :: "ptr \<Rightarrow> ptr \<Rightarrow> 'd \<Rightarrow> ('d, 'h) route_mem \<Rightarrow> ('d, 'h) route_mem" where
  "swap_payload p dc d w =
     (case objs w p of None \<Rightarrow> w | Some r \<Rightarrow>
        w\<lparr>objs := (objs w)(p \<mapsto> r\<lparr>data := dc\<rparr>), datas := (datas w)(data r := None, dc \<mapsto> d)\<rparr>)"

text \<open>A route is filed under its topic.\<close>

definition file_route :: "'h zhash_ops \<Rightarrow> string \<Rightarrow> ptr \<Rightarrow> ('d, 'h) route_mem \<Rightarrow> ('d, 'h) route_mem" where
  "file_route zh t p w = w\<lparr>route_hashtbl := map_option (\<lambda>h. zhash_insert zh h t p) (route_hashtbl w)\<rparr>"

text \<open>No memory cell of the payload \<open>dc\<close> is in use by a route.\<close>

definition free_cell :: "ptr \<Rightarrow> ('d, 'h) route_mem \<Rightarrow> bool" where
  "free_cell dc w \<longleftrightarrow> dc \<noteq> NULL \<and> (\<forall>p r. objs w p = Some r \<longrightarrow> data r \<noteq> dc)"

subsection \<open>Stamping\<close>

lemma stamp_route_eq:
  assumes "objs w p = Some r" and "brks w (route_broker w ! unat (pri r)) = Some br"
  shows "stamp_route f p w =
    w\<lparr>objs := (objs w)(p \<mapsto> r\<lparr>flags := f, obj_id := brk_id br + 1\<rparr>),
      brks := (brks w)(route_broker w ! unat (pri r) \<mapsto>
        br\<lparr>b_obj_list := remove1 (Obj p) (b_obj_list br) @ [Obj p], brk_id := brk_id br + 1\<rparr>)\<rparr>"
  using assms by (simp add: stamp_route_def Let_def)

lemma clients_ok_same_lists:
  assumes "clients_ok w" and "rclis w' = rclis w" and "client_list_head w' = client_list_head w"
    and "route_broker w' = route_broker w"
    and "\<And>b. map_option b_client_list (brks w' b) = map_option b_client_list (brks w b)"
  shows "clients_ok w'"
  by (rule clients_ok_cong [OF assms(1-3)]) (rule level_clients_cong [OF assms(4,5)])

lemma route_ok_stamp:
  assumes ok: "route_ok zh valid w" and p: "objs w p = Some r"
    and br: "brks w (route_broker w ! unat (pri r)) = Some br" and "brk_id br \<noteq> - 1"
    and f: "f = 1 \<or> f = 5 \<and> b_client_list br \<noteq> []"
  shows "route_ok zh valid (stamp_route f p w)"
proof -
  note okD = route_okD [OF ok]
  let ?b = "route_broker w ! unat (pri r)"
  let ?w = "stamp_route f p w"
  note eq = stamp_route_eq [OF p br, of f]
  have q: "Obj p \<in> set (b_obj_list br)" "unat (pri r) < 3" using route_placedD [OF ok p] br by auto
  have "brokers_ok (brks ?w) (objs ?w) (clis ?w)"
    unfolding eq using brokers_ok_stamp [OF okD(1) br assms(4), of p "r\<lparr>flags := f, obj_id := brk_id br + 1\<rparr>"] q f
    by simp
  moreover have "levels_ok ?w" using okD(2) br unfolding eq levels_ok_def by (auto simp: dom_def)
  moreover have "routes_owned valid None ?w"
    by (rule routes_owned_same [OF okD(3)]) (simp add: eq same_exts_def p option.rel_refl)
  moreover have "routes_placed ?w"
    unfolding routes_placed_def
  proof (intro allI impI)
    fix x s assume "objs ?w x = Some s"
    then obtain r' where r': "objs w x = Some r'" "pri s = pri r'"
      using p by (auto simp: eq split: if_splits)
    obtain br' where br': "unat (pri r') < 3" "brks w (route_broker w ! unat (pri r')) = Some br'"
        "Obj x \<in> set (b_obj_list br')"
      using route_placedD [OF ok r'(1)] by metis
    show "unat (pri s) < 3 \<and> (\<exists>br. brks ?w (route_broker ?w ! unat (pri s)) = Some br \<and> Obj x \<in> set (b_obj_list br))"
      using br' br r'(2) by (cases "x = p") (auto simp: eq)
  qed
  moreover have "hash_sound zh ?w"
    using okD(5) p unfolding hash_sound_def eq by (auto split: if_splits) (metis option.inject)
  moreover have "clients_ok ?w"
    by (rule clients_ok_same_lists [OF okD(6)]) (auto simp: eq br)
  ultimately show ?thesis by (simp add: route_ok_def)
qed

subsection \<open>Releasing\<close>

lemma drop_route_eq:
  assumes "objs w p = Some r" and "brks w (route_broker w ! unat (pri r)) = Some br"
  shows "drop_route zh p w =
    w\<lparr>objs := (objs w)(p := None),
      brks := (brks w)(route_broker w ! unat (pri r) \<mapsto> br\<lparr>b_obj_list := remove1 (Obj p) (b_obj_list br)\<rparr>),
      datas := (datas w)(data r := None),
      route_hashtbl := map_option (\<lambda>h. zhash_delete zh h (topic r)) (route_hashtbl w)\<rparr>"
  using assms by (simp add: drop_route_def release_step_def route_release_def)

lemma hashed_delete:
  assumes "zhash zh" and "route_hashtbl w' = map_option (\<lambda>h. zhash_delete zh h k) (route_hashtbl w)"
  shows "hashed zh w' t = (if t = k then NULL else hashed zh w t)"
  using assms(2) by (auto simp: hashed_def zhash.lookup_delete [OF assms(1)] split: option.splits)

lemma route_rest_placed:
  assumes "route_rest zh valid w" and "objs w p = Some r"
  obtains br where "unat (pri r) < ROUTE_PRIORITY_MAX"
    "brks w (route_broker w ! unat (pri r)) = Some br" "Obj p \<in> set (b_obj_list br)"
  using route_restD(3) [OF assms(1)] assms(2) unfolding routes_placed_def by blast

lemma route_rest_drop:
  assumes zh: "zhash zh" and rest: "route_rest zh valid w" and p: "objs w p = Some r"
  shows "route_rest zh valid (drop_route zh p w)"
proof -
  note okD = route_restD [OF rest]
  from rest p obtain br where br: "brks w (route_broker w ! unat (pri r)) = Some br" by (rule route_rest_placed)
  let ?w = "drop_route zh p w"
  note eq = drop_route_eq [OF p br(1), of zh]
  have "levels_ok ?w" using okD(1) br(1) unfolding eq levels_ok_def by (auto simp: dom_def)
  moreover have "routes_owned valid None ?w"
  proof -
    have "routes_owned valid None (route_release zh p w)"
      using okD(2) p by (intro route_release_owned) auto
    moreover have "?w = (route_release zh p w)\<lparr>brks := (brks w)(route_broker w ! unat (pri r) \<mapsto>
        br\<lparr>b_obj_list := remove1 (Obj p) (b_obj_list br)\<rparr>)\<rparr>"
      by (simp add: eq route_release_def p)
    ultimately show ?thesis by (simp only: routes_owned_frame)
  qed
  moreover have "routes_placed ?w"
    unfolding routes_placed_def
  proof (intro allI impI)
    fix x s assume "objs ?w x = Some s"
    then have s: "objs w x = Some s" "x \<noteq> p" by (auto simp: eq split: if_splits)
    from rest s(1) obtain br' where br': "unat (pri s) < 3"
        "brks w (route_broker w ! unat (pri s)) = Some br'" "Obj x \<in> set (b_obj_list br')"
      by (rule route_rest_placed)
    show "unat (pri s) < 3 \<and> (\<exists>br. brks ?w (route_broker ?w ! unat (pri s)) = Some br \<and> Obj x \<in> set (b_obj_list br))"
      using br' br s(2) by (auto simp: eq)
  qed
  moreover have "hash_sound zh ?w"
  proof (rule hash_soundI)
    fix t
    assume nn: "hashed zh ?w t \<noteq> NULL"
    have h: "hashed zh ?w t = (if t = topic r then NULL else hashed zh w t)"
      by (rule hashed_delete [OF zh]) (simp add: eq)
    with nn have t: "t \<noteq> topic r" "hashed zh ?w t = hashed zh w t" by (auto split: if_splits)
    obtain s where s: "objs w (hashed zh w t) = Some s" "topic s = t"
      using hash_soundD [OF okD(4), of t] nn t(2) by auto
    have "hashed zh w t \<noteq> p" using s p t(1) by auto
    with s t(2) show "\<exists>r. objs ?w (hashed zh ?w t) = Some r \<and> topic r = t" by (simp add: eq)
  qed
  moreover have "clients_ok ?w"
    by (rule clients_ok_same_lists [OF okD(5)]) (auto simp: eq br)
  ultimately show ?thesis by (simp add: route_rest_def)
qed

lemma route_ok_drop:
  assumes zh: "zhash zh" and ok: "route_ok zh valid w" and p: "objs w p = Some r"
  shows "route_ok zh valid (drop_route zh p w)"
proof -
  from ok p obtain br where br: "brks w (route_broker w ! unat (pri r)) = Some br" "Obj p \<in> set (b_obj_list br)"
    by (rule route_placedD)
  have "brokers_ok (brks (drop_route zh p w)) (objs (drop_route zh p w)) (clis (drop_route zh p w))"
    unfolding drop_route_eq [OF p br(1)] using brokers_ok_unlink [OF route_okD(1) [OF ok] br] by simp
  then show ?thesis using ok route_rest_drop [OF zh _ p] by (auto simp: route_ok_rest)
qed

subsection \<open>Adding\<close>

lemma add_route_eq:
  assumes "brks w (route_broker w ! i) = Some br"
  shows "add_route i t p dc d w =
    w\<lparr>objs := (objs w)(p \<mapsto> \<lparr>obj_type = 0, flags = 1, obj_id = brk_id br + 1, refcount = 1,
                            pri = of_nat i, topic = t, data = dc\<rparr>),
      brks := (brks w)(route_broker w ! i \<mapsto> br\<lparr>b_obj_list := b_obj_list br @ [Obj p], brk_id := brk_id br + 1\<rparr>),
      datas := (datas w)(dc \<mapsto> d)\<rparr>"
  using assms by (simp add: add_route_def)

lemma unat_level: "i < ROUTE_PRIORITY_MAX \<Longrightarrow> unat (of_nat i :: u32) = i"
  by (simp add: unat_of_nat)

lemma routes_owned_add:
  assumes own: "routes_owned valid None w" and "p \<noteq> NULL" and cell: "free_cell dc w" and "valid d"
    and r: "refcount r = 1" "obj_type r = 0" "data r = dc"
    and w': "objs w' = (objs w)(p \<mapsto> r)" "datas w' = (datas w)(dc \<mapsto> d)" "route_hashtbl w' = route_hashtbl w"
  shows "routes_owned valid None w'"
  unfolding routes_owned_def
proof (intro conjI allI impI)
  show "route_hashtbl w' \<noteq> None" using routes_ownedD(1) [OF own] w' by simp
  fix q s
  assume "objs w' q = Some s"
  then have q: "q = p \<and> s = r \<or> objs w q = Some s \<and> data s \<noteq> dc"
    using cell by (auto simp: w'(1) free_cell_def split: if_splits)
  show "q \<noteq> NULL" "refcount s = 1" "obj_type s = 0" "has_payload valid w' s"
    using q assms(2,4) r cell routes_ownedD(2) [OF own, of q s]
    by (auto simp: has_payload_def w'(2) free_cell_def)
  fix q' s'
  assume "objs w' q' = Some s'" and eq: "data s = data s'"
  then have "q' = p \<and> s' = r \<or> objs w q' = Some s' \<and> data s' \<noteq> dc"
    using cell by (auto simp: w'(1) free_cell_def split: if_splits)
  with q eq r(3) show "q = q'" using routes_ownedD(3) [OF own, of q s q' s'] by auto
qed

lemma routes_placed_add:
  assumes placed: "routes_placed w" and i: "i < ROUTE_PRIORITY_MAX" and br: "brks w (route_broker w ! i) = Some br"
  shows "routes_placed (add_route i t p dc d w)"
  unfolding routes_placed_def
proof (intro allI impI)
  note eq = add_route_eq [OF br, of t p dc d]
  let ?w = "add_route i t p dc d w"
  fix x s
  assume s: "objs ?w x = Some s"
  show "unat (pri s) < 3 \<and> (\<exists>br. brks ?w (route_broker ?w ! unat (pri s)) = Some br \<and> Obj x \<in> set (b_obj_list br))"
  proof (cases "x = p")
    case True
    then show ?thesis using s i unat_level [OF i] by (auto simp: eq)
  next
    case False
    then have "objs w x = Some s" using s by (simp add: eq)
    then obtain br' where "unat (pri s) < 3" "brks w (route_broker w ! unat (pri s)) = Some br'" "Obj x \<in> set (b_obj_list br')"
      using placed unfolding routes_placed_def by blast
    then show ?thesis using br by (auto simp: eq)
  qed
qed

lemma route_ok_add:
  assumes ok: "route_ok zh valid w" and p: "objs w p = None" "p \<noteq> NULL" and i: "i < ROUTE_PRIORITY_MAX"
    and br: "brks w (route_broker w ! i) = Some br" and "brk_id br \<noteq> - 1"
    and cell: "free_cell dc w" "valid d"
  shows "route_ok zh valid (add_route i t p dc d w)"
proof -
  note okD = route_okD [OF ok]
  let ?w = "add_route i t p dc d w"
  note eq = add_route_eq [OF br, of t p dc d]
  have uq: "unqueued (brks w) p" by (rule unqueuedI [OF okD(1) p(1)])
  then have "remove1 (Obj p) (b_obj_list br) = b_obj_list br"
    using br by (intro remove1_idem) (auto simp: unqueued_def)
  then have "brokers_ok (brks ?w) (objs ?w) (clis ?w)"
    unfolding eq
    using brokers_ok_stamp [OF okD(1) br assms(6), of p "\<lparr>obj_type = 0, flags = 1,
        obj_id = brk_id br + 1, refcount = 1, pri = of_nat i, topic = t, data = dc\<rparr>"] uq
    by simp
  moreover have "levels_ok ?w" using okD(2) br unfolding eq levels_ok_def by (auto simp: dom_def)
  moreover have "routes_owned valid None ?w"
    by (rule routes_owned_add [OF okD(3) p(2) cell]) (simp_all add: eq)
  moreover have "routes_placed ?w" by (rule routes_placed_add [OF okD(4) i br])
  moreover have "hash_sound zh ?w"
  proof (rule hash_soundI)
    fix t'
    assume "hashed zh ?w t' \<noteq> NULL"
    then show "\<exists>r. objs ?w (hashed zh ?w t') = Some r \<and> topic r = t'"
      using hash_soundD [OF okD(5), of t'] p(1) by (auto simp: eq hashed_def)
  qed
  moreover have "clients_ok ?w"
    by (rule clients_ok_same_lists [OF okD(6)]) (auto simp: eq br)
  ultimately show ?thesis by (simp add: route_ok_def)
qed

subsection \<open>Swapping the payload\<close>

lemma route_ok_swap:
  assumes ok: "route_ok zh valid w" and p: "objs w p = Some r" and cell: "free_cell dc w" "valid d"
  shows "route_ok zh valid (swap_payload p dc d w)"
proof -
  note okD = route_okD [OF ok]
  let ?w = "swap_payload p dc d w"
  have eq: "?w = w\<lparr>objs := (objs w)(p \<mapsto> r\<lparr>data := dc\<rparr>), datas := (datas w)(data r := None, dc \<mapsto> d)\<rparr>"
    by (simp add: swap_payload_def p)
  have hdr: "same_node (objs w) (clis w) (objs ?w) (clis ?w) n" for n
    by (cases n) (auto simp: eq same_node_def p)
  have "brokers_ok (brks ?w) (objs ?w) (clis ?w)"
  proof -
    have "broker_ok b br (objs ?w) (clis ?w)" if "brks w b = Some br" for b br
      using brokers_okD(1) [OF okD(1) that] hdr by (rule broker_ok_same)
    then show ?thesis
      using okD(1) unfolding brokers_ok_def by (simp add: eq)
  qed
  moreover have "levels_ok ?w" using okD(2) unfolding eq levels_ok_def by simp
  moreover have "routes_owned valid None ?w"
    unfolding routes_owned_def
  proof (intro conjI allI impI)
    show "route_hashtbl ?w \<noteq> None" using routes_ownedD(1) [OF okD(3)] eq by simp
    fix q s
    assume "objs ?w q = Some s"
    then have q: "q = p \<and> s = r\<lparr>data := dc\<rparr> \<or> q \<noteq> p \<and> objs w q = Some s \<and> data s \<noteq> dc \<and> data s \<noteq> data r"
      using cell routes_ownedD(3) [OF okD(3), of q s p r] p
      by (auto simp: eq free_cell_def split: if_splits)
    show "q \<noteq> NULL" "refcount s = 1" "obj_type s = 0" "has_payload valid ?w s"
      using q cell routes_ownedD(2) [OF okD(3), of q s] routes_ownedD(2) [OF okD(3) p]
      by (auto simp: has_payload_def eq free_cell_def)
    fix q' s'
    assume "objs ?w q' = Some s'" and deq: "data s = data s'"
    then have "q' = p \<and> s' = r\<lparr>data := dc\<rparr> \<or> q' \<noteq> p \<and> objs w q' = Some s' \<and> data s' \<noteq> dc"
      using cell by (auto simp: eq free_cell_def split: if_splits)
    with q deq show "q = q'" using routes_ownedD(3) [OF okD(3), of q s q' s'] by auto
  qed
  moreover have "routes_placed ?w"
    using okD(4) p unfolding routes_placed_def eq by auto
  moreover have "hash_sound zh ?w"
    using okD(5) p unfolding hash_sound_def eq by (auto split: if_splits) (metis option.inject)
  moreover have "clients_ok ?w"
    by (rule clients_ok_same_lists [OF okD(6)]) (auto simp: eq)
  ultimately show ?thesis by (simp add: route_ok_def)
qed

subsection \<open>Filing\<close>

lemma hashed_file:
  assumes "zhash zh" and "route_hashtbl w \<noteq> None" and "p \<noteq> NULL"
  shows "hashed zh (file_route zh t p w) t' =
    (if t' = t \<and> hashed zh w t = NULL then p else hashed zh w t')"
  using assms(2) zhash.lookup_insert [OF assms(1,3)] by (auto simp: file_route_def hashed_def)

lemma route_ok_file:
  assumes zh: "zhash zh" and ok: "route_ok zh valid w" and p: "objs w p = Some r" "topic r = t"
  shows "route_ok zh valid (file_route zh t p w)"
proof -
  note okD = route_okD [OF ok]
  let ?w = "file_route zh t p w"
  have nn: "p \<noteq> NULL" "route_hashtbl w \<noteq> None" using routes_ownedD(1,2) [OF okD(3)] p by auto
  have "hash_sound zh ?w"
  proof (rule hash_soundI)
    fix t'
    assume "hashed zh ?w t' \<noteq> NULL"
    then show "\<exists>r. objs ?w (hashed zh ?w t') = Some r \<and> topic r = t'"
      using hash_soundD [OF okD(5), of t'] p hashed_file [OF zh nn(2,1), of t t']
      by (auto simp: file_route_def split: if_splits)
  qed
  moreover have "routes_owned valid None ?w"
    using okD(3) by (simp add: routes_owned_def has_payload_def file_route_def)
  moreover have "clients_ok ?w"
    by (rule clients_ok_same_lists [OF okD(6)]) (auto simp: file_route_def)
  ultimately show ?thesis
    using okD(1,2,4) by (simp add: route_ok_def levels_ok_def routes_placed_def file_route_def)
qed

end
