(* ===== verification/Route_Publish.thy ===== *)
theory Route_Publish
  imports Route_Invariant
begin

text \<open>
  \<open>object_broker_publish\<close> step by step: \<open>publish_effect\<close> composes the changes of the memory that a
  message stands for, and the lemmas show that the C code, with its temporary route, its fresh
  copy of the payload and its frees, comes to exactly that.
\<close>

section \<open>The temporary route\<close>

definition draft_route :: "int \<Rightarrow> string \<Rightarrow> ptr \<Rightarrow> rib_route" where
  "draft_route i t dc = \<lparr>obj_type = 0, flags = 0, obj_id = 0, refcount = 0, pri = word_of_int i,
                         topic = t, data = dc\<rparr>"

definition with_route ::
  "ptr \<Rightarrow> rib_route \<Rightarrow> ptr \<Rightarrow> 'd \<Rightarrow> ('d, 'h) route_mem \<Rightarrow> ('d, 'h) route_mem" where
  "with_route p r dc d w = w\<lparr>objs := (objs w)(p \<mapsto> r), datas := (datas w)(dc \<mapsto> d)\<rparr>"

lemma draft_route_simps [simp]:
  "refcount (draft_route i t dc) = 0" "obj_type (draft_route i t dc) = 0"
  "data (draft_route i t dc) = dc" "topic (draft_route i t dc) = t"
  "pri (draft_route i t dc) = word_of_int i"
  by (simp_all add: draft_route_def)

lemma with_route_simps [simp]:
  "objs (with_route p r dc d w) = (objs w)(p \<mapsto> r)" "datas (with_route p r dc d w) = (datas w)(dc \<mapsto> d)"
  "brks (with_route p r dc d w) = brks w" "clis (with_route p r dc d w) = clis w"
  "route_broker (with_route p r dc d w) = route_broker w"
  "route_hashtbl (with_route p r dc d w) = route_hashtbl w"
  by (simp_all add: with_route_def)

text \<open>The allocator returned unused memory for the route and for the payload.\<close>

definition fresh_ptrs :: "ptr \<Rightarrow> ptr \<Rightarrow> ('d, 'h) route_mem \<Rightarrow> bool" where
  "fresh_ptrs p dc w \<longleftrightarrow> p \<noteq> NULL \<and> objs w p = None \<and> dc \<noteq> NULL \<and> datas w dc = None"

lemma fresh_ptrsD:
  assumes "fresh_ptrs p dc w"
  shows "p \<noteq> NULL" "objs w p = None" "dc \<noteq> NULL" "datas w dc = None"
  using assms by (auto simp: fresh_ptrs_def)

lemma fresh_free_cell:
  assumes "routes_owned valid None w" and "fresh_ptrs p dc w"
  shows "free_cell dc w"
  using routes_ownedD(2) [OF assms(1)] fresh_ptrsD [OF assms(2)]
  by (fastforce simp: free_cell_def has_payload_def)

lemma with_route_owned:
  assumes own: "routes_owned valid None w" and f: "fresh_ptrs p dc w"
  shows "routes_owned valid (Some p) (with_route p r dc d w)"
  using own fresh_free_cell [OF own f] fresh_ptrsD [OF f]
  unfolding routes_owned_def has_payload_def free_cell_def by (auto split: if_splits)

lemma with_route_fresh:
  assumes own: "routes_owned valid None w" and f: "fresh_ptrs p dc w" and "valid d"
  shows "route_fresh valid p (with_route p (draft_route i t dc) dc d w)"
  using with_route_owned [OF own f] fresh_free_cell [OF own f] fresh_ptrsD [OF f] assms(3)
  by (auto simp: route_fresh_def has_payload_def free_cell_def)

lemma with_route_broker:
  assumes "route_ok zh valid w" and "fresh_ptrs p dc w" and "brks w b = Some br"
  shows "broker_wf b br (objs (with_route p r dc d w)) (clis (with_route p r dc d w))"
proof -
  note ok = route_okD(1) [OF assms(1)]
  have "unqueued (brks w) p" using unqueuedI [OF ok] fresh_ptrsD(2) [OF assms(2)] by blast
  then have "brokers_ok (brks w) ((objs w)(p \<mapsto> r)) (clis w)" by (rule brokers_ok_alloc [OF ok])
  then show ?thesis using broker_okD(1) brokers_okD(1) assms(3) by fastforce
qed

lemma with_route_unqueued:
  assumes "route_ok zh valid w" and "fresh_ptrs p dc w" and "brks w b = Some br"
  shows "Obj p \<notin> set (b_obj_list br)"
  using unqueuedI [OF route_okD(1) [OF assms(1)]] fresh_ptrsD(2) [OF assms(2)] assms(3)
  by (auto simp: unqueued_def)

lemma arr_level:
  "levels_ok w \<Longrightarrow> i < ROUTE_PRIORITY_MAX \<Longrightarrow> arr (route_broker w) (int i) = Some (route_broker w ! i)"
  by (simp add: arr_def levels_ok_def)

lemma mem_upd_order: "(w :: ('d, 'h) route_mem)\<lparr>datas := ds, objs := os\<rparr> = w\<lparr>objs := os, datas := ds\<rparr>"
  by simp

lemma brk_upd_order: "br\<lparr>brk_id := i, b_obj_list := l\<rparr> = br\<lparr>b_obj_list := l, brk_id := i\<rparr>"
  by simp

section \<open>The pieces of a publish\<close>

context route_callbacks
begin

lemma add_with_route:
  assumes ok: "route_ok zh valid w" and f: "fresh_ptrs p dc w" and i: "i < ROUTE_PRIORITY_MAX"
  shows "broker_add_obj (route_broker_ops zh cb) (route_broker w ! i) p ROUTE_BROKER_ROUTE
           (with_route p (draft_route (int i) t dc) dc d w) = Some (add_route i t p dc d w)"
proof -
  obtain br where br: "brks w (route_broker w ! i) = Some br"
    using level_broker [OF route_okD(2) [OF ok] i] .
  let ?r = "draft_route (int i) t dc"
  have b: "brks (with_route p ?r dc d w) (route_broker w ! i) = Some br" using br by simp
  have o: "objs (with_route p ?r dc d w) p = Some ?r" by simp
  show ?thesis
    using broker_add_obj_eq [OF b with_route_broker [OF ok f br] o fresh_ptrsD(1) [OF f]
        with_route_unqueued [OF ok f br]]
    by (simp add: add_route_eq [OF br] with_route_def draft_route_def route_grab_def brk_upd_order)
qed

lemma hash_insert_add:
  assumes "route_ok zh valid w" and "i < ROUTE_PRIORITY_MAX"
  shows "hash_insert zh p (add_route i t p dc d w) = Some (file_route zh t p (add_route i t p dc d w))"
proof -
  obtain br where br: "brks w (route_broker w ! i) = Some br"
    using level_broker [OF route_okD(2) [OF assms(1)] assms(2)] .
  obtain h where "route_hashtbl w = Some h" using routes_ownedD(1) [OF route_okD(3) [OF assms(1)]] by auto
  then show ?thesis by (simp add: hash_insert_def file_route_def add_route_eq [OF br])
qed

lemma drop_with_route:
  assumes ok: "route_ok zh valid w" and f: "fresh_ptrs p dc w" and h: "objs w h = Some hr"
  shows "broker_del_obj_now (route_broker_ops zh cb) (route_broker w ! unat (pri hr)) (Obj h)
           (with_route p r dc d w) = Some (with_route p r dc d (drop_route zh h w))"
proof -
  obtain br where br: "brks w (route_broker w ! unat (pri hr)) = Some br" "Obj h \<in> set (b_obj_list br)"
    using route_placedD [OF ok h] by metis
  note own = route_okD(3) [OF ok]
  have b: "brks (with_route p r dc d w) (route_broker w ! unat (pri hr)) = Some br" using br by simp
  have ne: "h \<noteq> p" "data hr \<noteq> dc"
    using h fresh_ptrsD [OF f] fresh_free_cell [OF own f] by (auto simp: free_cell_def)
  have "broker_del_obj_now (route_broker_ops zh cb) (route_broker w ! unat (pri hr)) (Obj h)
      (with_route p r dc d w) =
    Some (release_step (route_release zh) (route_broker w ! unat (pri hr)) h (with_route p r dc d w))"
    using broker_del_obj_now_step [OF b with_route_broker [OF ok f br(1)] with_route_owned [OF own f]] ne(1) br(2)
    by simp
  then show ?thesis
    using ne br(1) h
    by (simp add: drop_route_eq [OF h br(1)] release_step_def route_release_def with_route_def fun_upd_twist)
qed

lemma drop_route_step:
  assumes ok: "route_ok zh valid w" and h: "objs w h = Some hr"
  shows "broker_del_obj_now (route_broker_ops zh cb) (route_broker w ! unat (pri hr)) (Obj h) w =
    Some (drop_route zh h w)"
proof -
  obtain br where br: "brks w (route_broker w ! unat (pri hr)) = Some br" "Obj h \<in> set (b_obj_list br)"
    using route_placedD [OF ok h] by metis
  show ?thesis
    using broker_del_obj_now_step [OF br(1) route_ok_broker [OF ok br(1)] route_okD(3) [OF ok] _ br(2)] h
    by (simp add: drop_route_def)
qed

lemma swap_with_route:
  assumes ok: "route_ok zh valid w" and f: "fresh_ptrs p dc w" and h: "objs w h = Some hr"
  shows "swap_data cb h p (with_route p (draft_route i t dc) dc d w) =
    Some ((swap_payload h dc d w)\<lparr>objs := (objs (swap_payload h dc d w))(p \<mapsto> draft_route i t dc)\<rparr>)"
proof -
  have ne: "h \<noteq> p" "data hr \<noteq> dc"
    using h fresh_ptrsD [OF f] fresh_free_cell [OF route_okD(3) [OF ok] f] by (auto simp: free_cell_def)
  have live: "data hr \<noteq> NULL" "((datas w)(dc \<mapsto> d)) (data hr) \<noteq> None"
    using routes_ownedD(2) [OF route_okD(3) [OF ok] h] by (auto simp: has_payload_def)
  show ?thesis
    using ne h free [of "data hr" "(datas w)(dc \<mapsto> d)", OF live]
    by (simp add: swap_data_def free_data_def upd_obj_def swap_payload_def with_route_def fun_upd_twist)
qed

lemma upd_obj_stamp:
  assumes ok: "route_ok zh valid w" and h: "objs w h = Some hr"
  shows "broker_upd_obj (route_broker_ops zh cb) (route_broker w ! unat (pri hr)) h ROUTE_BROKER_ROUTE w =
    Some (stamp_route 1 h w)"
proof -
  obtain br where br: "brks w (route_broker w ! unat (pri hr)) = Some br" "Obj h \<in> set (b_obj_list br)"
    using route_placedD [OF ok h] by metis
  have "flags hr AND NOT BROKER_FLAGS_DELETE = 1" using route_hdr(1) [OF ok h] by auto
  moreover have "h \<noteq> NULL" using routes_ownedD(2) [OF route_okD(3) [OF ok] h] by simp
  ultimately show ?thesis
    using broker_upd_obj_eq [OF br(1) route_ok_broker [OF ok br(1)] h _ br(2)]
    by (simp add: stamp_route_eq [OF h br(1)])
qed

lemma del_obj_stamp:
  assumes ok: "route_ok zh valid w" and h: "objs w h = Some hr"
    and cl: "level_clients w (unat (pri hr)) \<noteq> []"
  shows "broker_del_obj (route_broker_ops zh cb) (route_broker w ! unat (pri hr)) h ROUTE_BROKER_ROUTE w =
    Some (stamp_route 5 h w)"
proof -
  obtain br where br: "brks w (route_broker w ! unat (pri hr)) = Some br" "Obj h \<in> set (b_obj_list br)"
    using route_placedD [OF ok h] by metis
  have "flags hr OR BROKER_FLAGS_DELETE = 5" using route_hdr(1) [OF ok h] by auto
  moreover have "h \<noteq> NULL" using routes_ownedD(2) [OF route_okD(3) [OF ok] h] by simp
  moreover have "b_client_list br \<noteq> []" using cl br by (simp add: level_clients_def)
  ultimately show ?thesis
    using broker_del_obj_mark_eq [OF br(1) route_ok_broker [OF ok br(1)] h _ br(2)]
    by (simp add: stamp_route_eq [OF h br(1)])
qed

lemma del_obj_drop:
  assumes ok: "route_ok zh valid w" and h: "objs w h = Some hr"
    and cl: "level_clients w (unat (pri hr)) = []"
  shows "broker_del_obj (route_broker_ops zh cb) (route_broker w ! unat (pri hr)) h ROUTE_BROKER_ROUTE w =
    Some (drop_route zh h w)"
proof -
  obtain br where br: "brks w (route_broker w ! unat (pri hr)) = Some br"
    using route_placedD [OF ok h] by metis
  have "h \<noteq> NULL" using routes_ownedD(2) [OF route_okD(3) [OF ok] h] by simp
  then show ?thesis
    using broker_del_obj_none_eq [OF br, of h] drop_route_step [OF ok h] cl br
    by (simp add: level_clients_def)
qed

lemma del_obj_beside:
  assumes ok: "route_ok zh valid w" and h: "objs w h = Some hr" and p: "objs w p = None"
    and w': "w' = (if level_clients w (unat (pri hr)) = [] then drop_route zh h w else stamp_route 5 h w)"
  shows "broker_del_obj (route_broker_ops zh cb) (route_broker w ! unat (pri hr)) h ROUTE_BROKER_ROUTE
           (w\<lparr>objs := (objs w)(p \<mapsto> r)\<rparr>) = Some (w'\<lparr>objs := (objs w')(p \<mapsto> r)\<rparr>)"
proof -
  obtain br where br: "brks w (route_broker w ! unat (pri hr)) = Some br" "Obj h \<in> set (b_obj_list br)"
    using route_placedD [OF ok h] by metis
  let ?w = "w\<lparr>objs := (objs w)(p \<mapsto> r)\<rparr>"
  have b: "brks ?w (route_broker w ! unat (pri hr)) = Some br" using br by simp
  have nn: "h \<noteq> NULL" "h \<noteq> p" using routes_ownedD(2) [OF route_okD(3) [OF ok] h] h p by auto
  have oh: "objs ?w h = Some hr" using h nn by simp
  have "brokers_ok (brks w) ((objs w)(p \<mapsto> r)) (clis w)"
    using brokers_ok_alloc [OF route_okD(1) [OF ok]] unqueuedI [OF route_okD(1) [OF ok] p] by blast
  then have wf: "broker_wf (route_broker w ! unat (pri hr)) br (objs ?w) (clis ?w)"
    using broker_okD(1) brokers_okD(1) br(1) by fastforce
  show ?thesis
  proof (cases "b_client_list br = []")
    case True
    have own: "routes_owned valid (Some p) ?w"
      using route_okD(3) [OF ok] p unfolding routes_owned_def has_payload_def by (auto split: if_splits)
    have "broker_del_obj (route_broker_ops zh cb) (route_broker w ! unat (pri hr)) h ROUTE_BROKER_ROUTE ?w =
        Some (release_step (route_release zh) (route_broker w ! unat (pri hr)) h ?w)"
      using broker_del_obj_none_eq [OF b nn(1) True] broker_del_obj_now_step [OF b wf own _ br(2)] nn(2) by simp
    then show ?thesis
      using True h br(1) nn(2) w'
      by (simp add: level_clients_def drop_route_eq [OF h br(1)] release_step_def route_release_def fun_upd_twist)
  next
    case False
    have "flags hr OR BROKER_FLAGS_DELETE = 5" using route_hdr(1) [OF ok h] by auto
    then show ?thesis
      using broker_del_obj_mark_eq [OF b wf oh nn(1) br(2) False] False br(1) nn(2) w'
      by (simp add: level_clients_def stamp_route_eq [OF h br(1)] fun_upd_twist)
  qed
qed

end

section \<open>The effect of a message\<close>

text \<open>The level a route lives on.\<close>

definition level_of :: "('d, 'h) route_mem \<Rightarrow> ptr \<Rightarrow> nat" where
  "level_of w p = (case objs w p of None \<Rightarrow> 0 | Some r \<Rightarrow> unat (pri r))"

text \<open>Deleting a route: mark it when the level has clients, release it at once when not.\<close>

definition retire_route :: "'h zhash_ops \<Rightarrow> ptr \<Rightarrow> ('d, 'h) route_mem \<Rightarrow> ('d, 'h) route_mem" where
  "retire_route zh p w = (if level_clients w (level_of w p) = [] then drop_route zh p w else stamp_route 5 p w)"

definition publish_effect ::
  "'h zhash_ops \<Rightarrow> string \<Rightarrow> bool \<Rightarrow> nat \<Rightarrow> ptr \<Rightarrow> ptr \<Rightarrow> 'd \<Rightarrow> ('d, 'h) route_mem \<Rightarrow> ('d, 'h) route_mem" where
  "publish_effect zh t del i p dc d w =
     (let h = hashed zh w t in
      if del then
        if h = NULL then w
        else if level_of w h > i then retire_route zh p (add_route i t p dc d (drop_route zh h w))
        else retire_route zh h (swap_payload h dc d w)
      else
        if h = NULL then file_route zh t p (add_route i t p dc d w)
        else if level_of w h > i then file_route zh t p (add_route i t p dc d (drop_route zh h w))
        else stamp_route 1 h (swap_payload h dc d w))"

lemma retire_route_objs: "p \<noteq> h \<Longrightarrow> objs (retire_route zh h w) p = objs w p"
  by (auto simp: retire_route_def stamp_route_def drop_route_def release_step_def Let_def split: option.split)

lemma level_of_simps [simp]: "objs w p = Some r \<Longrightarrow> level_of w p = unat (pri r)"
  by (simp add: level_of_def)

lemma drop_route_fresh:
  "objs w h = Some hr \<Longrightarrow> brks w (route_broker w ! unat (pri hr)) = Some br \<Longrightarrow>
     fresh_ptrs p dc w \<Longrightarrow> fresh_ptrs p dc (drop_route zh h w)"
  by (auto simp: fresh_ptrs_def drop_route_eq)

lemma pri_less: "i < ROUTE_PRIORITY_MAX \<Longrightarrow> (of_nat i < (x :: u32)) = (i < unat x)"
  by (simp add: word_less_nat_alt unat_level)

context route_callbacks
begin

text \<open>What \<open>object_broker_publish\<close> knows of the route its topic is hashed to.\<close>

lemma hashed_old:
  assumes ok: "route_ok zh valid w" and f: "fresh_ptrs p dc w" and h: "hashed zh w t \<noteq> NULL"
  obtains hr br where "objs w (hashed zh w t) = Some hr" "brks w (route_broker w ! unat (pri hr)) = Some br"
    "hashed zh w t \<noteq> p" "arr (route_broker w) (uint (pri hr)) = Some (route_broker w ! unat (pri hr))"
proof -
  obtain hr where r: "objs w (hashed zh w t) = Some hr" using hash_soundD [OF route_okD(5) [OF ok] h] by auto
  from ok r obtain br where br: "unat (pri hr) < 3" "brks w (route_broker w ! unat (pri hr)) = Some br"
    by (rule route_placedD)
  have "hashed zh w t \<noteq> p" using r fresh_ptrsD(2) [OF f] by auto
  then show ?thesis using that r br arr_level [OF route_okD(2) [OF ok] br(1)] by simp
qed

lemma dropped_mem:
  assumes ok: "route_ok zh valid w" and f: "fresh_ptrs p dc w" and h: "objs w h = Some hr" "brks w (route_broker w ! unat (pri hr)) = Some br"
  shows "route_ok zh valid (drop_route zh h w)" "fresh_ptrs p dc (drop_route zh h w)" "route_broker (drop_route zh h w) = route_broker w"
  using route_ok_drop [OF zhash_axioms ok h(1)] drop_route_fresh [OF h f] by (simp_all add: drop_route_eq [OF h])

lemma swapped_mem:
  assumes ok: "route_ok zh valid w" and f: "fresh_ptrs p dc w" and h: "objs w h = Some hr" "h \<noteq> p" and d: "valid d"
  shows "route_ok zh valid (swap_payload h dc d w)" "objs (swap_payload h dc d w) h = Some (hr\<lparr>data := dc\<rparr>)"
    "objs (swap_payload h dc d w) p = None" "route_broker (swap_payload h dc d w) = route_broker w"
  using route_ok_swap [OF ok h(1) fresh_free_cell [OF route_okD(3) [OF ok] f] d] h fresh_ptrsD(2) [OF f]
  by (simp_all add: swap_payload_def)

lemma free_draft: "objs w p = None \<Longrightarrow> free_route p (w\<lparr>objs := (objs w)(p \<mapsto> r)\<rparr>) = Some w"
  by (simp add: free_route_def fun_upd_idem)

lemma publish_add_eq:
  assumes ok: "route_ok zh valid w" and f: "fresh_ptrs p dc w" and i: "i < ROUTE_PRIORITY_MAX"
    and d: "valid d"
  shows "publish_add zh cb (hashed zh w t) p (int i) (with_route p (draft_route (int i) t dc) dc d w) =
    Some (publish_effect zh t False i p dc d w)"
proof -
  let ?h = "hashed zh w t"
  have lv: "arr (route_broker w) (int i) = Some (route_broker w ! i)"
    using arr_level [OF route_okD(2) [OF ok] i] by simp
  show ?thesis
  proof (cases "?h = NULL")
    case True
    then show ?thesis
      using lv add_with_route [OF ok f i] hash_insert_add [OF ok i]
      by (simp add: publish_add_def publish_effect_def)
  next
    case False
    with ok f obtain hr br where h: "objs w ?h = Some hr" "brks w (route_broker w ! unat (pri hr)) = Some br" "?h \<noteq> p"
      "arr (route_broker w) (uint (pri hr)) = Some (route_broker w ! unat (pri hr))" by (rule hashed_old)
    show ?thesis
    proof (cases "unat (pri hr) > i")
      case True
      note w1 = dropped_mem [OF ok f h(1,2)]
      show ?thesis
        using False True h lv drop_with_route [OF ok f h(1)] w1(3)
          add_with_route [OF w1(1,2) i] hash_insert_add [OF w1(1) i]
        by (simp add: publish_add_def publish_effect_def pri_less [OF i])
    next
      case le: False
      note s = swapped_mem [OF ok f h(1,3) d]
      have "pri hr < of_nat i \<or> pri hr = of_nat i"
        using le pri_less [OF i, of "pri hr"] by (auto simp: not_less order_le_less)
      then show ?thesis
        using False le h s(2-4) upd_obj_stamp [OF s(1,2)] swap_with_route [OF ok f h(1)] free_draft [OF s(3)]
        by (auto simp: publish_add_def publish_effect_def pri_less [OF i] Let_def)
    qed
  qed
qed

lemma del_obj_retire:
  "route_ok zh valid w \<Longrightarrow> objs w p = Some r \<Longrightarrow>
     broker_del_obj (route_broker_ops zh cb) (route_broker w ! unat (pri r)) p ROUTE_BROKER_ROUTE w = Some (retire_route zh p w)"
  using del_obj_stamp [of w p r] del_obj_drop [of w p r] by (simp add: retire_route_def)

lemma del_obj_new:
  assumes ok: "route_ok zh valid w" and f: "fresh_ptrs p dc w" and i: "i < ROUTE_PRIORITY_MAX"
    and d: "valid d" and room: "\<And>b br. brks w b = Some br \<Longrightarrow> brk_id br \<noteq> - 1"
  shows "broker_del_obj (route_broker_ops zh cb) (route_broker w ! i) p ROUTE_BROKER_ROUTE (add_route i t p dc d w) =
    Some (retire_route zh p (add_route i t p dc d w))"
    "route_broker (add_route i t p dc d w) = route_broker w"
proof -
  obtain bi where bi: "brks w (route_broker w ! i) = Some bi" using level_broker [OF route_okD(2) [OF ok] i] .
  have "route_ok zh valid (add_route i t p dc d w)"
    using route_ok_add [OF ok fresh_ptrsD(2,1) [OF f] i bi room [OF bi]] fresh_free_cell [OF route_okD(3) [OF ok] f] d by blast
  from del_obj_retire [OF this, of p]
  show "broker_del_obj (route_broker_ops zh cb) (route_broker w ! i) p ROUTE_BROKER_ROUTE (add_route i t p dc d w) =
    Some (retire_route zh p (add_route i t p dc d w))"
    using unat_level [OF i] by (simp add: add_route_eq [OF bi])
  show "route_broker (add_route i t p dc d w) = route_broker w" by (simp add: add_route_eq [OF bi])
qed

lemma del_obj_swapped:
  assumes ok: "route_ok zh valid w" and f: "fresh_ptrs p dc w" and h: "objs w h = Some hr" "h \<noteq> p" and d: "valid d"
  shows "(broker_del_obj (route_broker_ops zh cb) (route_broker w ! unat (pri hr)) h ROUTE_BROKER_ROUTE
      ((swap_payload h dc d w)\<lparr>objs := (objs (swap_payload h dc d w))(p \<mapsto> r)\<rparr>) \<bind> free_route p) =
    Some (retire_route zh h (swap_payload h dc d w))"
proof -
  let ?s = "swap_payload h dc d w"
  note s = swapped_mem [OF assms]
  have "broker_del_obj (route_broker_ops zh cb) (route_broker w ! unat (pri hr)) h ROUTE_BROKER_ROUTE
      (?s\<lparr>objs := (objs ?s)(p \<mapsto> r)\<rparr>) = Some ((retire_route zh h ?s)\<lparr>objs := (objs (retire_route zh h ?s))(p \<mapsto> r)\<rparr>)"
    using del_obj_beside [OF s(1-3) refl] s(2,4) by (simp add: retire_route_def)
  moreover have "objs (retire_route zh h ?s) p = None" using s(3) h(2) by (simp add: retire_route_objs)
  ultimately show ?thesis by (simp add: free_draft)
qed

lemma publish_delete_eq:
  assumes ok: "route_ok zh valid w" and f: "fresh_ptrs p dc w" and i: "i < ROUTE_PRIORITY_MAX"
    and d: "valid d" and room: "\<And>b br. brks w b = Some br \<Longrightarrow> brk_id br \<noteq> - 1"
  shows "publish_delete zh cb (hashed zh w t) p (int i) (with_route p (draft_route (int i) t dc) dc d w) =
    Some (publish_effect zh t True i p dc d w)"
proof -
  let ?h = "hashed zh w t"
  have lv: "arr (route_broker w) (int i) = Some (route_broker w ! i)"
    using arr_level [OF route_okD(2) [OF ok] i] by simp
  show ?thesis
  proof (cases "?h = NULL")
    case True
    have "free_obj cb dc ((datas w)(dc \<mapsto> d)) = Some (datas w)"
      using free [of dc "(datas w)(dc \<mapsto> d)"] fresh_ptrsD(3,4) [OF f] by (simp add: fun_upd_idem)
    then show ?thesis
      using True fresh_ptrsD(2) [OF f]
      by (simp add: publish_delete_def publish_effect_def free_data_def free_route_def with_route_def fun_upd_idem)
  next
    case False
    with ok f obtain hr br where h: "objs w ?h = Some hr" "brks w (route_broker w ! unat (pri hr)) = Some br" "?h \<noteq> p"
      "arr (route_broker w) (uint (pri hr)) = Some (route_broker w ! unat (pri hr))" by (rule hashed_old)
    show ?thesis
    proof (cases "unat (pri hr) > i")
      case True
      note w1 = dropped_mem [OF ok f h(1,2)]
      have "brk_id br' \<noteq> - 1" if "brks (drop_route zh ?h w) b = Some br'" for b br'
        using that room h(2) by (auto simp: drop_route_eq [OF h(1,2)] split: if_splits)
      from del_obj_new [where t = t, OF w1(1,2) i d this] show ?thesis
        using False True h lv drop_with_route [OF ok f h(1)] w1(3) add_with_route [OF w1(1,2) i]
        by (simp add: publish_delete_def publish_effect_def pri_less [OF i])
    next
      case le: False
      then show ?thesis
        using False h swapped_mem(4) [OF ok f h(1,3) d] swap_with_route [OF ok f h(1)] del_obj_swapped [OF ok f h(1,3) d]
        by (simp add: publish_delete_def publish_effect_def pri_less [OF i] Let_def)
    qed
  qed
qed

end

section \<open>Waking the clients\<close>

text \<open>Client \<open>rcl\<close> and the broker of level \<open>i\<close> differ in their stamps.\<close>

definition lag :: "('d, 'h) route_mem \<Rightarrow> route_broker_client \<Rightarrow> nat \<Rightarrow> bool" where
  "lag w rcl i \<longleftrightarrow>
     (\<exists>cl br. clis w (client rcl ! i) = Some cl \<and> brks w (route_broker w ! i) = Some br \<and>
        obj_id (cl_obj cl) \<noteq> brk_id br)"

definition first_lag :: "('d, 'h) route_mem \<Rightarrow> route_broker_client \<Rightarrow> int" where
  "first_lag w rcl = (if lag w rcl 0 then 0 else if lag w rcl 1 then 1 else if lag w rcl 2 then 2 else - 1)"

definition woken :: "('d, 'h) route_mem \<Rightarrow> ptr list \<Rightarrow> ('d, 'h) route_mem" where
  "woken w rcs = w\<lparr>rclis := (\<lambda>rc. if rc \<in> set rcs
     then map_option (\<lambda>rcl. if first_lag w rcl \<ge> 0 then rcl\<lparr>client_cond := True\<rparr> else rcl) (rclis w rc)
     else rclis w rc)\<rparr>"

lemma less_3: "i < (3 :: nat) \<longleftrightarrow> i = 0 \<or> i = 1 \<or> i = 2"
  by auto

lemma client_at_level:
  assumes ok: "route_ok zh valid w" and "rcl_ok (level_clients w) rcl" and i: "i < ROUTE_PRIORITY_MAX"
    and br: "brks w (route_broker w ! i) = Some br"
  obtains cl where "clis w (client rcl ! i) = Some cl" "cl_broker cl = route_broker w ! i"
    "client rcl ! i \<in> set (b_client_list br)" "Cli (client rcl ! i) \<in> set (b_obj_list br)" "client rcl ! i \<noteq> NULL"
proof -
  have c: "client rcl ! i \<in> set (b_client_list br)"
    using assms(2) i br by (auto simp: rcl_ok_def level_clients_def)
  show thesis
    using broker_wf_client [OF route_ok_broker [OF ok br] c] that c by metis
qed

lemma data_available_loop_step:
  assumes ok: "route_ok zh valid w" and rcl: "rcl_ok (level_clients w) rcl" and i: "i < ROUTE_PRIORITY_MAX"
  shows "data_available_loop w rcl (int i # js) =
    (if lag w rcl i then Some (int i) else data_available_loop w rcl js)"
proof -
  obtain br where br: "brks w (route_broker w ! i) = Some br"
    using level_broker [OF route_okD(2) [OF ok] i] .
  obtain cl where cl: "clis w (client rcl ! i) = Some cl" using client_at_level [OF ok rcl i br] by metis
  have a: "arr (client rcl) (int i) = Some (client rcl ! i)" using rcl i by (simp add: rcl_ok_def arr_def)
  show ?thesis using a arr_level [OF route_okD(2) [OF ok] i] br cl by (simp add: lag_def)
qed

lemma data_available_eq:
  assumes ok: "route_ok zh valid w" and rcl: "rcl_ok (level_clients w) rcl" "rclis w rc = Some rcl"
  shows "data_available_for_client rc w = Some (first_lag w rcl)"
  using rcl data_available_loop_step [OF ok rcl(1), of 0] data_available_loop_step [OF ok rcl(1), of 1]
    data_available_loop_step [OF ok rcl(1), of 2]
  by (simp add: data_available_for_client_def first_lag_def)

lemma lag_rclis [simp, frame_simps]: "lag (w\<lparr>rclis := x\<rparr>) = lag w"
  by (simp add: lag_def fun_eq_iff)

lemma first_lag_rclis [simp, frame_simps]: "first_lag (w\<lparr>rclis := x\<rparr>) = first_lag w"
  by (simp add: first_lag_def fun_eq_iff)

lemma lag_cond [simp]: "lag w (rcl\<lparr>client_cond := x\<rparr>) = lag w rcl"
  by (simp add: lag_def fun_eq_iff)

lemma clients_okD:
  assumes "clients_ok w" and "rc \<in> set (client_list_head w)"
  obtains rcl where "rclis w rc = Some rcl" "rcl_ok (level_clients w) rcl"
  using assms unfolding clients_ok_def by blast

lemma clients_ok_inj:
  assumes "clients_ok w" and "rc \<in> set (client_list_head w)" and "rc' \<in> set (client_list_head w)"
    and "i < ROUTE_PRIORITY_MAX" and "rclis w rc = Some rcl" and "rclis w rc' = Some rcl'"
    and "client rcl ! i = client rcl' ! i"
  shows "rc = rc'"
  using assms unfolding clients_ok_def by blast

text \<open>Only the conditions and the counters of the registered consumers differ.\<close>

definition same_members :: "('d, 'h) route_mem \<Rightarrow> ('d, 'h) route_mem \<Rightarrow> bool" where
  "same_members w w' \<longleftrightarrow> (\<exists>rs. w' = w\<lparr>rclis := rs\<rparr> \<and> (\<forall>rc. map_option client (rs rc) = map_option client (rclis w rc)))"

lemma same_members_client:
  assumes "same_members w w'" and "rclis w' rc = Some rcl'"
  shows "\<exists>rcl. rclis w rc = Some rcl \<and> client rcl' = client rcl"
proof -
  obtain rs where rs: "w' = w\<lparr>rclis := rs\<rparr>" "map_option client (rs rc) = map_option client (rclis w rc)"
    using assms(1) by (auto simp: same_members_def)
  then have "map_option client (rclis w rc) = Some (client rcl')" using assms(2) by simp
  then show ?thesis by auto
qed

lemma route_ok_same_members:
  assumes ok: "route_ok zh valid w" and s: "same_members w w'"
  shows "route_ok zh valid w'"
proof -
  obtain rs where w': "w' = w\<lparr>rclis := rs\<rparr>" and rs: "\<And>rc. map_option client (rs rc) = map_option client (rclis w rc)"
    using s by (auto simp: same_members_def)
  note okD = route_okD [OF ok]
  have "clients_ok w'"
    unfolding clients_ok_def
  proof (intro conjI ballI allI impI)
    show "distinct (client_list_head w')" using okD(6) by (simp add: clients_ok_def w')
    fix rc assume "rc \<in> set (client_list_head w')"
    then have rc: "rc \<in> set (client_list_head w)" by (simp add: w')
    then obtain rcl where rcl: "rclis w rc = Some rcl" "rcl_ok (level_clients w) rcl"
      using clients_okD [OF okD(6)] by metis
    then have "map_option client (rs rc) = Some (client rcl)" using rs by simp
    then show "\<exists>rcl. rclis w' rc = Some rcl \<and> rcl_ok (level_clients w') rcl"
      using rcl(2) by (auto simp: w' rcl_ok_def)
    fix rc' rcl1 rcl2 i
    assume "rc' \<in> set (client_list_head w')" and i: "i < ROUTE_PRIORITY_MAX"
      and r1: "rclis w' rc = Some rcl1" and r2: "rclis w' rc' = Some rcl2"
      and eq: "client rcl1 ! i = client rcl2 ! i"
    then have rc': "rc' \<in> set (client_list_head w)" by (simp add: w')
    obtain s1 where s1: "rclis w rc = Some s1" "client rcl1 = client s1" using same_members_client [OF s r1] by blast
    obtain s2 where s2: "rclis w rc' = Some s2" "client rcl2 = client s2" using same_members_client [OF s r2] by blast
    have "client s1 ! i = client s2 ! i" using eq s1(2) s2(2) by simp
    then show "rc = rc'" by (rule clients_ok_inj [OF okD(6) rc rc' i s1(1) s2(1)])
  qed
  then show ?thesis
    using okD by (simp add: route_ok_def levels_ok_def routes_placed_def hash_sound_def w')
qed

lemma same_members_woken: "same_members w (woken w rcs)"
proof -
  let ?rs = "rclis (woken w rcs)"
  have "map_option client (?rs rc) = map_option client (rclis w rc)" for rc
    by (cases "rclis w rc") (simp_all add: woken_def)
  moreover have "woken w rcs = w\<lparr>rclis := ?rs\<rparr>" by (simp add: woken_def)
  ultimately show ?thesis unfolding same_members_def by blast
qed

lemma route_ok_woken:
  assumes "route_ok zh valid w"
  shows "route_ok zh valid (woken w rcs)"
  using assms same_members_woken by (rule route_ok_same_members)

lemma wake_clients_loop_eq:
  assumes ok: "route_ok zh valid w" and "set rcs \<subseteq> set (client_list_head w)" and "distinct rcs"
  shows "wake_clients_loop rcs w = Some (woken w rcs)"
  using assms
proof (induction rcs arbitrary: w)
  case Nil
  then show ?case by (simp add: woken_def)
next
  case (Cons rc rcs)
  then have "rc \<in> set (client_list_head w)" by simp
  then obtain rcl where rcl: "rclis w rc = Some rcl" "rcl_ok (level_clients w) rcl"
    using clients_okD [OF route_okD(6) [OF Cons.prems(1)]] by metis
  let ?w = "woken w [rc]"
  have w1: "?w = (if first_lag w rcl \<ge> 0 then w\<lparr>rclis := (rclis w)(rc \<mapsto> rcl\<lparr>client_cond := True\<rparr>)\<rparr> else w)"
    using rcl(1) by (auto simp: woken_def fun_eq_iff)
  have "wake_clients_loop rcs ?w = Some (woken ?w rcs)"
    using Cons.prems by (intro Cons.IH route_ok_woken) (auto simp: woken_def)
  moreover have "woken ?w rcs = woken w (rc # rcs)"
    using Cons.prems(3) by (auto simp: woken_def fun_eq_iff)
  ultimately show ?case
    using rcl data_available_eq [OF Cons.prems(1) rcl(2,1)] w1 by (simp add: Let_def)
qed

lemma wake_clients_eq:
  "route_ok zh valid w \<Longrightarrow> route_broker_wake_clients w = Some (woken w (client_list_head w))"
  using wake_clients_loop_eq [of zh valid w "client_list_head w"] route_okD(6)
  by (auto simp: route_broker_wake_clients_def clients_ok_def)

section \<open>Publishing\<close>

text \<open>
  The counter of a broker is far from its end: a message takes two stamps at most. At one message
  per nanosecond the 64 bits last for centuries.
\<close>

definition stamps_left :: "('d, 'h) route_mem \<Rightarrow> bool" where
  "stamps_left w \<longleftrightarrow> (\<forall>b br. brks w b = Some br \<longrightarrow> brk_id br \<noteq> - 1 \<and> brk_id br \<noteq> - 2)"

definition topic_of :: "'d object_cbs \<Rightarrow> 'd \<Rightarrow> (string \<times> bool) option" where
  "topic_of cb d =
     (case topic_gen cb d ROUTE_TOPIC_LEN of
        None \<Rightarrow> None
      | Some (rc, t, del) \<Rightarrow> if rc > 0 then Some (t, del) else None)"

lemma route_ok_retire:
  assumes zh: "zhash zh" and ok: "route_ok zh valid w" and p: "objs w p = Some r"
    and room: "\<And>br. brks w (route_broker w ! unat (pri r)) = Some br \<Longrightarrow> brk_id br \<noteq> - 1"
  shows "route_ok zh valid (retire_route zh p w)"
proof -
  from ok p obtain br where br: "brks w (route_broker w ! unat (pri r)) = Some br" by (rule route_placedD)
  show ?thesis
    using route_ok_drop [OF zh ok p] route_ok_stamp [OF ok p br room [OF br], of 5] p br
    by (auto simp: retire_route_def level_clients_def)
qed

text \<open>What a level looks like behind a change of another kind.\<close>

lemma drop_route_brks:
  assumes "route_ok zh valid w" and "objs w p = Some r"
  shows "brks (drop_route zh p w) b =
    (if b = route_broker w ! unat (pri r)
     then map_option (\<lambda>br. br\<lparr>b_obj_list := remove1 (Obj p) (b_obj_list br)\<rparr>) (brks w b) else brks w b)"
    "route_broker (drop_route zh p w) = route_broker w"
    "client_list_head (drop_route zh p w) = client_list_head w"
    "level_clients (drop_route zh p w) = level_clients w"
proof -
  from assms obtain br where br: "brks w (route_broker w ! unat (pri r)) = Some br" by (rule route_placedD)
  note eq = drop_route_eq [OF assms(2) br, of zh]
  show "brks (drop_route zh p w) b =
    (if b = route_broker w ! unat (pri r)
     then map_option (\<lambda>br. br\<lparr>b_obj_list := remove1 (Obj p) (b_obj_list br)\<rparr>) (brks w b) else brks w b)"
    "route_broker (drop_route zh p w) = route_broker w"
    "client_list_head (drop_route zh p w) = client_list_head w"
    using br by (simp_all add: eq)
  show "level_clients (drop_route zh p w) = level_clients w"
    by (rule level_clients_cong) (auto simp: eq br)
qed

lemma stamps_left_drop:
  assumes "route_ok zh valid w" and "objs w p = Some r" and "stamps_left w"
  shows "stamps_left (drop_route zh p w)"
  using assms(3) drop_route_brks(1) [OF assms(1,2)] by (auto simp: stamps_left_def split: if_splits)

lemma minus_one_step:
  assumes "(x :: u64) \<noteq> - 2"
  shows "x + 1 \<noteq> - 1"
proof
  assume "x + 1 = - 1"
  then have "2 + x = 0" by simp
  then have "x = - 2" by (metis minus_unique)
  with assms show False by simp
qed

lemma route_ok_added:
  assumes ok: "route_ok zh valid w" and f: "fresh_ptrs p dc w" and i: "i < ROUTE_PRIORITY_MAX"
    and d: "valid d" and room: "stamps_left w"
  obtains r br where "route_ok zh valid (add_route i t p dc d w)"
    "objs (add_route i t p dc d w) p = Some r" "topic r = t" "unat (pri r) = i" "data r = dc" "flags r = 1"
    "brks (add_route i t p dc d w) (route_broker (add_route i t p dc d w) ! i) = Some br" "brk_id br \<noteq> - 1"
    "obj_id r = brk_id br"
proof -
  obtain br where br: "brks w (route_broker w ! i) = Some br"
    using level_broker [OF route_okD(2) [OF ok] i] .
  have nw: "brk_id br \<noteq> - 1" "brk_id br \<noteq> - 2" using br room by (auto simp: stamps_left_def)
  note f' = fresh_ptrsD [OF f]
  have "route_ok zh valid (add_route i t p dc d w)"
    by (rule route_ok_add [OF ok f'(2,1) i br nw(1) fresh_free_cell [OF route_okD(3) [OF ok] f] d])
  then show thesis
    by (rule that) (auto simp: add_route_eq [OF br] unat_level [OF i] minus_one_step [OF nw(2)])
qed

lemma hashed_route:
  assumes "route_ok zh valid w" and "hashed zh w t \<noteq> NULL"
  obtains hr br where "objs w (hashed zh w t) = Some hr" "topic hr = t" "unat (pri hr) < ROUTE_PRIORITY_MAX"
    "brks w (route_broker w ! unat (pri hr)) = Some br" "level_of w (hashed zh w t) = unat (pri hr)"
proof -
  obtain hr where hr: "objs w (hashed zh w t) = Some hr" "topic hr = t"
    using hash_soundD [OF route_okD(5) [OF assms(1)] assms(2)] by auto
  from assms(1) hr(1) obtain br where "unat (pri hr) < ROUTE_PRIORITY_MAX"
    "brks w (route_broker w ! unat (pri hr)) = Some br" by (rule route_placedD)
  with hr show thesis by (intro that) auto
qed

lemma route_ok_publish_effect:
  assumes zh: "zhash zh" and ok: "route_ok zh valid w" and f: "fresh_ptrs p dc w"
    and i: "i < ROUTE_PRIORITY_MAX" and d: "valid d" and room: "stamps_left w"
  shows "route_ok zh valid (publish_effect zh t del i p dc d w)"
proof (cases "hashed zh w t = NULL")
  case True
  from ok f i d room obtain r br where r: "route_ok zh valid (add_route i t p dc d w)"
    "objs (add_route i t p dc d w) p = Some r" "topic r = t" by (rule route_ok_added)
  then show ?thesis
    using ok True route_ok_file [OF zh r] by (auto simp: publish_effect_def)
next
  case False
  let ?h = "hashed zh w t"
  from ok False obtain hr hb where h: "objs w ?h = Some hr" "topic hr = t"
    "brks w (route_broker w ! unat (pri hr)) = Some hb" "level_of w ?h = unat (pri hr)"
    by (rule hashed_route)
  show ?thesis
  proof (cases "unat (pri hr) > i")
    case True
    let ?w = "drop_route zh ?h w"
    have ok1: "route_ok zh valid ?w" by (rule route_ok_drop [OF zh ok h(1)])
    from ok1 drop_route_fresh [OF h(1,3) f] i d stamps_left_drop [OF ok h(1) room]
    obtain r br where r: "route_ok zh valid (add_route i t p dc d ?w)"
      "objs (add_route i t p dc d ?w) p = Some r" "topic r = t" "unat (pri r) = i"
      "brks (add_route i t p dc d ?w) (route_broker (add_route i t p dc d ?w) ! i) = Some br" "brk_id br \<noteq> - 1"
      by (rule route_ok_added)
    then show ?thesis
      using False True h route_ok_file [OF zh r(1-3)] route_ok_retire [OF zh r(1,2)]
      by (auto simp: publish_effect_def Let_def)
  next
    case le: False
    let ?s = "swap_payload ?h dc d w"
    have ok1: "route_ok zh valid ?s"
      using d by (rule route_ok_swap [OF ok h(1) fresh_free_cell [OF route_okD(3) [OF ok] f]])
    have o: "objs ?s ?h = Some (hr\<lparr>data := dc\<rparr>)" "route_broker ?s = route_broker w" "brks ?s = brks w"
      using h by (simp_all add: swap_payload_def)
    have nw: "brk_id hb \<noteq> - 1" using room h(3) by (auto simp: stamps_left_def)
    show ?thesis
      using False le h(4) route_ok_retire [OF zh ok1 o(1)] route_ok_stamp [OF ok1 o(1), of hb 1] o h(3) nw
      by (auto simp: publish_effect_def Let_def)
  qed
qed

lemma publish_effect_head [simp]:
  assumes zh: "zhash zh" and ok: "route_ok zh valid w"
  shows "client_list_head (publish_effect zh t del i p dc d w) = client_list_head w"
  by (auto simp: publish_effect_def Let_def retire_route_def stamp_route_def drop_route_def
      release_step_def swap_payload_def file_route_def add_route_def split: option.split)

lemma publish_effect_counters [simp]:
  "hashed zh (w\<lparr>processed_msg := x\<rparr>) = hashed zh w"
  "stamps_left (w\<lparr>processed_msg := x\<rparr>) = stamps_left w"
  "fresh_ptrs p dc (w\<lparr>processed_msg := x\<rparr>) = fresh_ptrs p dc w"
  by (simp_all add: hashed_def fun_eq_iff stamps_left_def fresh_ptrs_def)

context route_callbacks
begin

lemma object_broker_publish_eq:
  assumes ok: "route_ok zh valid w" and f: "fresh_ptrs p dc w" and i: "i < ROUTE_PRIORITY_MAX"
    and d: "valid (norm d)" and room: "stamps_left w"
  shows "object_broker_publish zh cb d (int i) p dc w = Some
    (case topic_of cb (norm d) of
       None \<Rightarrow> w\<lparr>processed_msg := processed_msg w + 1, ignored_msg := ignored_msg w + 1\<rparr>
     | Some (t, del) \<Rightarrow>
         woken (publish_effect zh t del i p dc (norm d) (w\<lparr>processed_msg := processed_msg w + 1\<rparr>))
           (client_list_head w))"
proof -
  let ?w = "w\<lparr>processed_msg := processed_msg w + 1\<rparr>"
  let ?d = "norm d"
  note f' = fresh_ptrsD [OF f]
  obtain rc t del where top: "topic_gen cb ?d ROUTE_TOPIC_LEN = Some (rc, t, del)"
    using topic [OF d] by metis
  show ?thesis
  proof (cases "rc \<le> 0")
    case True
    have fr: "free_obj cb dc ((datas w)(dc \<mapsto> ?d)) = Some (datas w)"
      using free [of dc "(datas w)(dc \<mapsto> ?d)"] f' by (simp add: fun_upd_idem)
    show ?thesis
      using True top f' fr
      by (simp add: object_broker_publish_def rib_route_create_def copy [OF d] Let_def upd_obj_def topic_of_def
          free_data_def free_route_def fun_upd_idem)
  next
    case False
    have eff: "route_ok zh valid (publish_effect zh t del i p dc ?d ?w)"
      by (rule route_ok_publish_effect [OF zhash_axioms]) (use ok f room i d in simp_all)
    have add: "publish_add zh cb (hashed zh w t) p (int i) (with_route p (draft_route (int i) t dc) dc ?d ?w) =
        Some (publish_effect zh t False i p dc ?d ?w)"
      using publish_add_eq [of ?w p dc i ?d t] ok f i d by simp
    have del: "publish_delete zh cb (hashed zh w t) p (int i) (with_route p (draft_route (int i) t dc) dc ?d ?w) =
        Some (publish_effect zh t True i p dc ?d ?w)"
      using publish_delete_eq [of ?w p dc i ?d t] ok f i d room by (auto simp: stamps_left_def)
    have hd: "client_list_head (publish_effect zh t del i p dc ?d ?w) = client_list_head w"
      using publish_effect_head [OF zhash_axioms, of valid ?w] ok by simp
    obtain h where h: "route_hashtbl w = Some h" using routes_ownedD(1) [OF route_okD(3) [OF ok]] by auto
    have start: "object_broker_publish zh cb d (int i) p dc w =
        Option.bind (if del then publish_delete zh cb (hashed zh w t) p (int i) (with_route p (draft_route (int i) t dc) dc ?d ?w)
              else publish_add zh cb (hashed zh w t) p (int i) (with_route p (draft_route (int i) t dc) dc ?d ?w))
          route_broker_wake_clients"
      using False top f' h
      by (simp add: object_broker_publish_def rib_route_create_def copy [OF d] Let_def upd_obj_def
          hashed_def with_route_def draft_route_def mem_upd_order)
    show ?thesis
      using start add del wake_clients_eq [OF eff] hd False top by (cases del) (simp_all add: topic_of_def)
  qed
qed

end

end
