(* ===== verification/Route_Table.thy ===== *)
theory Route_Table
  imports Route_Publish
begin

text \<open>
  What publishing does to the table of routes: \<open>rib\<close> maps a topic to the payload that was published
  last, unless a delete came after it.
\<close>

section \<open>Entries\<close>

lemma hashed_frame:
  "hashed zh (stamp_route f p w) = hashed zh w" "hashed zh (swap_payload p dc d w) = hashed zh w"
  "hashed zh (add_route i t p dc d w) = hashed zh w" "hashed zh (woken w rcs) = hashed zh w"
  by (auto simp: hashed_def stamp_route_def swap_payload_def add_route_def woken_def Let_def fun_eq_iff
      split: option.split)

lemma hashed_drop:
  assumes "zhash zh" and "route_ok zh valid w" and "objs w p = Some r"
  shows "hashed zh (drop_route zh p w) t = (if t = topic r then NULL else hashed zh w t)"
proof -
  from assms(2,3) obtain br where "brks w (route_broker w ! unat (pri r)) = Some br" by (rule route_placedD)
  from drop_route_eq [OF assms(3) this] show ?thesis by (intro hashed_delete [OF assms(1)]) simp
qed

lemma entry_cong: "objs w' q = objs w q \<Longrightarrow> datas w' = datas w \<Longrightarrow> entry w' q = entry w q"
  by (cases "objs w q") (simp_all add: entry_def)

lemma entry_Some:
  "objs w q = Some s \<Longrightarrow>
     entry w q = (if flags s AND BROKER_FLAGS_DELETE \<noteq> 0 then None else datas w (data s))"
  "objs w q = None \<Longrightarrow> entry w q = None"
  by (simp_all add: entry_def)

lemma entry_stamp:
  assumes "route_ok zh valid w" and "objs w p = Some r"
  shows "entry (stamp_route f p w) q =
    (if q = p then if f AND BROKER_FLAGS_DELETE \<noteq> 0 then None else datas w (data r) else entry w q)"
proof -
  from assms obtain br where "brks w (route_broker w ! unat (pri r)) = Some br" by (rule route_placedD)
  note eq = stamp_route_eq [OF assms(2) this, of f]
  have "q \<noteq> p \<Longrightarrow> entry (stamp_route f p w) q = entry w q" by (rule entry_cong) (simp_all add: eq)
  then show ?thesis by (simp add: eq entry_Some)
qed

lemma entry_drop:
  assumes ok: "route_ok zh valid w" and p: "objs w p = Some r"
  shows "entry (drop_route zh p w) q = (if q = p then None else entry w q)"
proof -
  from ok p obtain br where "brks w (route_broker w ! unat (pri r)) = Some br" by (rule route_placedD)
  note eq = drop_route_eq [OF p this, of zh]
  show ?thesis
  proof (cases "objs w q")
    case (Some s)
    then show ?thesis
      using routes_ownedD(3) [OF route_okD(3) [OF ok] Some p] by (auto simp: eq entry_def)
  qed (simp add: eq entry_def)
qed

lemma entry_swap:
  assumes ok: "route_ok zh valid w" and p: "objs w p = Some r" and cell: "free_cell dc w"
  shows "entry (swap_payload p dc d w) q =
    (if q = p then if flags r AND BROKER_FLAGS_DELETE \<noteq> 0 then None else Some d else entry w q)"
proof (cases "objs w q")
  case (Some s)
  then show ?thesis
    using routes_ownedD(3) [OF route_okD(3) [OF ok] Some p] p cell
    by (auto simp: swap_payload_def entry_def free_cell_def)
qed (use p in \<open>auto simp: swap_payload_def entry_def\<close>)

lemma entry_add:
  assumes ok: "route_ok zh valid w" and f: "fresh_ptrs p dc w" and i: "i < ROUTE_PRIORITY_MAX"
  shows "entry (add_route i t p dc d w) q = (if q = p then Some d else entry w q)"
proof -
  obtain br where br: "brks w (route_broker w ! i) = Some br"
    using level_broker [OF route_okD(2) [OF ok] i] .
  show ?thesis
    using fresh_free_cell [OF route_okD(3) [OF ok] f]
    by (cases "objs w q") (auto simp: add_route_eq [OF br] entry_def free_cell_def)
qed

lemma entry_file: "entry (file_route zh t p w) = entry w"
  by (rule ext, rule entry_cong) (simp_all add: file_route_def)

lemma entry_woken: "entry (woken w rcs) = entry w"
  by (rule ext, rule entry_cong) (simp_all add: woken_def)

lemma rib_woken [simp]: "rib zh (woken w rcs) = rib zh w"
  by (simp add: rib_entry hashed_frame entry_woken fun_eq_iff)

section \<open>The table behind a message\<close>

lemma hashed_topic:
  "route_ok zh valid w \<Longrightarrow> hashed zh w t = p \<Longrightarrow> p \<noteq> NULL \<Longrightarrow> objs w p = Some r \<Longrightarrow> topic r = t"
  using hash_soundD [OF route_okD(5), of zh valid w t] by fastforce

lemma hashed_inj:
  assumes "route_ok zh valid w" and "hashed zh w t \<noteq> NULL" and "hashed zh w t = hashed zh w t'"
  shows "t = t'"
proof -
  obtain r where r: "objs w (hashed zh w t) = Some r" "topic r = t"
    using hash_soundD [OF route_okD(5) [OF assms(1)] assms(2)] by blast
  from hashed_topic [OF assms(1) assms(3) [symmetric] assms(2) r(1)] r(2) show ?thesis by simp
qed

lemma hashed_not_fresh: "route_ok zh valid w \<Longrightarrow> fresh_ptrs p dc w \<Longrightarrow> hashed zh w t \<noteq> p"
  using hash_soundD [OF route_okD(5), of zh valid w t] fresh_ptrsD(1,2) by (metis option.distinct(1))

lemma rib_drop:
  assumes zh: "zhash zh" and ok: "route_ok zh valid w" and p: "objs w p = Some r"
  shows "rib zh (drop_route zh p w) t = (if t = topic r then None else rib zh w t)"
proof -
  have "hashed zh w t \<noteq> p" if "t \<noteq> topic r" "hashed zh w t \<noteq> NULL"
    using hashed_topic [OF ok _ _ p] that by metis
  then show ?thesis by (simp add: rib_entry hashed_drop [OF zh ok p] entry_drop [OF ok p])
qed

lemma rib_add:
  assumes "route_ok zh valid w" and "fresh_ptrs p dc w" and "i < ROUTE_PRIORITY_MAX"
  shows "rib zh (add_route i t p dc d w) = rib zh w"
  using hashed_not_fresh [OF assms(1,2)]
  by (simp add: rib_entry hashed_frame entry_add [OF assms] fun_eq_iff)

lemma rib_file:
  assumes "zhash zh" and "route_hashtbl w \<noteq> None" and "p \<noteq> NULL" and "hashed zh w t = NULL"
  shows "rib zh (file_route zh t p w) = (rib zh w)(t := entry w p)"
  using assms(3,4) hashed_file [OF assms(1-3)] by (auto simp: rib_entry entry_file fun_eq_iff)

lemma rib_stamp:
  assumes ok: "route_ok zh valid w" and p: "objs w (hashed zh w t) = Some r" and nn: "hashed zh w t \<noteq> NULL"
  shows "rib zh (stamp_route f (hashed zh w t) w) =
    (rib zh w)(t := if f AND BROKER_FLAGS_DELETE \<noteq> 0 then None else datas w (data r))"
  using nn hashed_inj [OF ok] by (auto simp: rib_entry hashed_frame entry_stamp [OF ok p] fun_eq_iff)

lemma rib_swap_other:
  assumes ok: "route_ok zh valid w" and p: "objs w (hashed zh w t) = Some r" and nn: "hashed zh w t \<noteq> NULL"
    and cell: "free_cell dc w"
  shows "(rib zh (swap_payload (hashed zh w t) dc d w))(t := x) = (rib zh w)(t := x)"
  using nn hashed_inj [OF ok] by (auto simp: rib_entry hashed_frame entry_swap [OF ok p cell] fun_eq_iff)

lemma rib_retire:
  assumes zh: "zhash zh" and ok: "route_ok zh valid w" and p: "objs w p = Some r"
    and h: "hashed zh w (topic r) = NULL \<or> hashed zh w (topic r) = p"
  shows "rib zh (retire_route zh p w) = (rib zh w)(topic r := None)"
proof (cases "level_clients w (level_of w p) = []")
  case True
  then show ?thesis by (auto simp: retire_route_def rib_drop [OF zh ok p] fun_eq_iff)
next
  case False
  have "p \<noteq> NULL" using routes_ownedD(2) [OF route_okD(3) [OF ok] p] by simp
  then have "t \<noteq> topic r \<Longrightarrow> hashed zh w t \<noteq> p" for t using hashed_topic [OF ok _ _ p] by metis
  then show ?thesis
    using False h by (auto simp: retire_route_def rib_entry hashed_frame entry_stamp [OF ok p] fun_eq_iff)
qed

text \<open>A route of a lower level is replaced by a new one; one of the same or a higher level gets the new payload.\<close>

lemma rib_replace:
  assumes zh: "zhash zh" and ok: "route_ok zh valid w" and f: "fresh_ptrs p dc w"
    and i: "i < ROUTE_PRIORITY_MAX" and d: "valid d" and room: "stamps_left w"
    and h: "objs w h = Some hr" "hashed zh w (topic hr) = h" "brks w (route_broker w ! unat (pri hr)) = Some hb"
  shows "rib zh (retire_route zh p (add_route i (topic hr) p dc d (drop_route zh h w))) = (rib zh w)(topic hr := None)"
    "rib zh (file_route zh (topic hr) p (add_route i (topic hr) p dc d (drop_route zh h w))) = (rib zh w)(topic hr \<mapsto> d)"
proof -
  let ?w = "drop_route zh h w" and ?t = "topic hr"
  have ok1: "route_ok zh valid ?w" by (rule route_ok_drop [OF zh ok h(1)])
  have f1: "fresh_ptrs p dc ?w" by (rule drop_route_fresh [OF h(1,3) f])
  from ok1 f1 i d stamps_left_drop [OF ok h(1) room]
  obtain r br where r: "route_ok zh valid (add_route i ?t p dc d ?w)"
    "objs (add_route i ?t p dc d ?w) p = Some r" "topic r = ?t" by (rule route_ok_added)
  have n: "hashed zh (add_route i ?t p dc d ?w) ?t = NULL"
    by (simp add: hashed_frame hashed_drop [OF zh ok h(1)])
  have w1: "rib zh (add_route i ?t p dc d ?w) = (rib zh w)(?t := None)"
    using rib_add [OF ok1 f1 i] rib_drop [OF zh ok h(1)] h(2) by (auto simp: fun_eq_iff)
  show "rib zh (retire_route zh p (add_route i ?t p dc d ?w)) = (rib zh w)(?t := None)"
    using w1 n rib_retire [OF zh r(1,2)] r(3) by auto
  show "rib zh (file_route zh ?t p (add_route i ?t p dc d ?w)) = (rib zh w)(?t \<mapsto> d)"
    using w1 entry_add [OF ok1 f1 i] rib_file [OF zh routes_ownedD(1) [OF route_okD(3) [OF r(1)]] fresh_ptrsD(1) [OF f] n] by auto
qed

lemma rib_renew:
  assumes zh: "zhash zh" and ok: "route_ok zh valid w" and f: "fresh_ptrs p dc w" and d: "valid d"
    and h: "objs w (hashed zh w t) = Some hr" "topic hr = t" "hashed zh w t \<noteq> NULL"
  shows "rib zh (retire_route zh (hashed zh w t) (swap_payload (hashed zh w t) dc d w)) = (rib zh w)(t := None)"
    "rib zh (stamp_route 1 (hashed zh w t) (swap_payload (hashed zh w t) dc d w)) = (rib zh w)(t \<mapsto> d)"
proof -
  let ?h = "hashed zh w t"
  let ?s = "swap_payload ?h dc d w"
  note cell = fresh_free_cell [OF route_okD(3) [OF ok] f]
  have ok1: "route_ok zh valid ?s" using d by (rule route_ok_swap [OF ok h(1) cell])
  have hs: "hashed zh ?s = hashed zh w" by (simp add: hashed_frame)
  have o: "objs ?s ?h = Some (hr\<lparr>data := dc\<rparr>)" "datas ?s dc = Some d" using h by (simp_all add: swap_payload_def)
  have "rib zh (stamp_route 1 ?h ?s) = (rib zh ?s)(t := Some d)"
    using rib_stamp [of zh valid ?s t "hr\<lparr>data := dc\<rparr>" 1] ok1 o h(3) hs by simp
  moreover have "rib zh (retire_route zh ?h ?s) = (rib zh ?s)(t := None)"
    using rib_retire [OF zh ok1 o(1)] h(2) hs by simp
  ultimately show "rib zh (retire_route zh ?h ?s) = (rib zh w)(t := None)" "rib zh (stamp_route 1 ?h ?s) = (rib zh w)(t \<mapsto> d)"
    using rib_swap_other [OF ok h(1,3) cell] by auto
qed

lemma rib_publish_effect:
  assumes zh: "zhash zh" and ok: "route_ok zh valid w" and f: "fresh_ptrs p dc w"
    and i: "i < ROUTE_PRIORITY_MAX" and d: "valid d" and room: "stamps_left w"
  shows "rib zh (publish_effect zh t del i p dc d w) = (rib zh w)(t := if del then None else Some d)"
proof (cases "hashed zh w t = NULL")
  case True
  from ok f i d room obtain r br where r: "route_ok zh valid (add_route i t p dc d w)"
    "objs (add_route i t p dc d w) p = Some r" "topic r = t" by (rule route_ok_added)
  have "rib zh w t = None" using True by (simp add: rib_entry)
  then show ?thesis
    using True rib_file [OF zh routes_ownedD(1) [OF route_okD(3) [OF r(1)]] fresh_ptrsD(1) [OF f], of t]
      rib_add [OF ok f i] entry_add [OF ok f i]
    by (auto simp: publish_effect_def hashed_frame fun_upd_idem)
next
  case False
  with ok obtain hr hb where h: "objs w (hashed zh w t) = Some hr" "topic hr = t"
    "brks w (route_broker w ! unat (pri hr)) = Some hb" "level_of w (hashed zh w t) = unat (pri hr)"
    by (rule hashed_route)
  show ?thesis
    using False h(2,4) rib_replace [OF zh ok f i d room h(1) _ h(3)] rib_renew [OF zh ok f d h(1,2) False]
    by (simp add: publish_effect_def Let_def)
qed

section \<open>Every route is filed\<close>

text \<open>
  A delete that comes with a higher priority than the route it deletes. The code adds a route for
  it that is never filed under its topic.
\<close>

definition delete_overtakes :: "'h zhash_ops \<Rightarrow> string \<Rightarrow> bool \<Rightarrow> nat \<Rightarrow> ('d, 'h) route_mem \<Rightarrow> bool" where
  "delete_overtakes zh t del i w \<longleftrightarrow>
     del \<and> hashed zh w t \<noteq> NULL \<and> i < level_of w (hashed zh w t)"

lemma level_of_bound:
  assumes "route_ok zh valid w"
  shows "level_of w p < ROUTE_PRIORITY_MAX"
proof (cases "objs w p")
  case (Some r)
  have "unat (pri r) < ROUTE_PRIORITY_MAX" using assms Some by (rule route_placedD)
  then show ?thesis using Some by (simp add: level_of_def)
qed (simp add: level_of_def)

text \<open>\<open>all_hashed\<close> in terms of \<open>hashed\<close>, for memories that satisfy the invariant.\<close>

lemma all_hashed_iff':
  assumes "route_ok zh valid w"
  shows "all_hashed zh w \<longleftrightarrow> (\<forall>p r. objs w p = Some r \<longrightarrow> hashed zh w (topic r) = p)"
  by (rule all_hashed_iff [OF routes_ownedD(1) [OF route_okD(3) [OF assms]]])

lemma all_hashedD:
  "all_hashed zh w \<Longrightarrow> route_ok zh valid w \<Longrightarrow> objs w p = Some r \<Longrightarrow> hashed zh w (topic r) = p"
  by (simp add: all_hashed_iff')

text \<open>Topics are untouched by stamping and swapping.\<close>

lemma topics_stamp:
  assumes "objs (stamp_route f p w) q = Some s"
  shows "\<exists>r. objs w q = Some r \<and> topic r = topic s \<and> pri r = pri s \<and> data r = data s"
  using assms by (auto simp: stamp_route_def Let_def split: option.splits if_splits)

lemma topics_swap:
  assumes "objs (swap_payload p dc d w) q = Some s"
  shows "\<exists>r. objs w q = Some r \<and> topic r = topic s \<and> pri r = pri s \<and> flags r = flags s \<and> obj_id r = obj_id s"
  using assms by (auto simp: swap_payload_def split: option.splits if_splits)

lemma all_hashed_cong:
  assumes "all_hashed zh w" and "route_hashtbl w' = route_hashtbl w"
    and "\<And>q s. objs w' q = Some s \<Longrightarrow> \<exists>r. objs w q = Some r \<and> topic r = topic s"
  shows "all_hashed zh w'"
  unfolding all_hashed_def
proof (intro allI impI)
  fix p s h
  assume s: "objs w' p = Some s" and h: "route_hashtbl w' = Some h"
  obtain r where "objs w p = Some r" "topic r = topic s" using assms(3) [OF s] by blast
  with assms(1,2) h show "zhash_lookup zh h (topic s) = p" unfolding all_hashed_def by metis
qed

lemma all_hashed_stamp: "all_hashed zh w \<Longrightarrow> all_hashed zh (stamp_route f p w)"
proof (erule all_hashed_cong)
  show "route_hashtbl (stamp_route f p w) = route_hashtbl w"
    by (auto simp: stamp_route_def Let_def split: option.splits)
qed (use topics_stamp in blast)

lemma all_hashed_swap: "all_hashed zh w \<Longrightarrow> all_hashed zh (swap_payload p dc d w)"
proof (erule all_hashed_cong)
  show "route_hashtbl (swap_payload p dc d w) = route_hashtbl w"
    by (auto simp: swap_payload_def split: option.splits)
qed (fastforce dest: topics_swap)

lemma all_hashed_drop:
  assumes zh: "zhash zh" and ok: "route_ok zh valid w" and all: "all_hashed zh w" and p: "objs w p = Some r"
  shows "all_hashed zh (drop_route zh p w)"
  unfolding all_hashed_iff' [OF route_ok_drop [OF zh ok p]]
proof (intro allI impI)
  fix q s
  from ok p obtain br where "brks w (route_broker w ! unat (pri r)) = Some br" by (rule route_placedD)
  note eq = drop_route_eq [OF p this, of zh]
  assume "objs (drop_route zh p w) q = Some s"
  then have s: "q \<noteq> p" "objs w q = Some s" by (auto simp: eq split: if_splits)
  have "topic s \<noteq> topic r" using all_hashedD [OF all ok s(2)] all_hashedD [OF all ok p] s(1) by metis
  then show "hashed zh (drop_route zh p w) (topic s) = q"
    using all_hashedD [OF all ok s(2)] hashed_drop [OF zh ok p] by simp
qed

lemma all_hashed_retire:
  assumes "zhash zh" and "route_ok zh valid w" and "all_hashed zh w" and "objs w p = Some r"
  shows "all_hashed zh (retire_route zh p w)"
  using all_hashed_drop [OF assms] all_hashed_stamp [OF assms(3)] by (simp add: retire_route_def)

lemma all_hashed_file_add:
  assumes zh: "zhash zh" and ok: "route_ok zh valid w" and all: "all_hashed zh w" and f: "fresh_ptrs p dc w"
    and i: "i < ROUTE_PRIORITY_MAX" and d: "valid d" and room: "stamps_left w" and n: "hashed zh w t = NULL"
  shows "all_hashed zh (file_route zh t p (add_route i t p dc d w))"
proof -
  let ?a = "add_route i t p dc d w"
  from ok f i d room obtain r br where r: "route_ok zh valid ?a" "objs ?a p = Some r" "topic r = t"
    by (rule route_ok_added)
  have tbl: "route_hashtbl ?a \<noteq> None" by (rule routes_ownedD(1) [OF route_okD(3) [OF r(1)]])
  obtain b where b: "brks w (route_broker w ! i) = Some b"
    using level_broker [OF route_okD(2) [OF ok] i] .
  have "hashed zh (file_route zh t p ?a) (topic s) = q" if s: "objs ?a q = Some s" for q s
  proof (cases "q = p")
    case True
    then show ?thesis
      using s r hashed_file [OF zh tbl fresh_ptrsD(1) [OF f], of t t] n by (simp add: hashed_frame)
  next
    case False
    then have s': "objs w q = Some s" using s by (simp add: add_route_eq [OF b])
    note h = all_hashedD [OF all ok s']
    have "q \<noteq> NULL" using routes_ownedD(2) [OF route_okD(3) [OF ok] s'] by simp
    then have "topic s \<noteq> t" using h n by auto
    then show ?thesis
      using h hashed_file [OF zh tbl fresh_ptrsD(1) [OF f], of t "topic s"] by (simp add: hashed_frame)
  qed
  then show ?thesis
    unfolding all_hashed_iff' [OF route_ok_file [OF zh r]] by (simp add: file_route_def)
qed

lemma all_hashed_publish_effect:
  assumes zh: "zhash zh" and ok: "route_ok zh valid w" and all: "all_hashed zh w" and f: "fresh_ptrs p dc w"
    and i: "i < ROUTE_PRIORITY_MAX" and d: "valid d" and room: "stamps_left w"
    and no: "\<not> delete_overtakes zh t del i w"
  shows "all_hashed zh (publish_effect zh t del i p dc d w)"
proof (cases "hashed zh w t = NULL")
  case True
  then show ?thesis
    using all all_hashed_file_add [OF zh ok all f i d room] by (simp add: publish_effect_def)
next
  case False
  let ?h = "hashed zh w t"
  from ok False obtain hr hb where h: "objs w ?h = Some hr" "topic hr = t"
    "brks w (route_broker w ! unat (pri hr)) = Some hb" "level_of w ?h = unat (pri hr)"
    by (rule hashed_route)
  show ?thesis
  proof (cases "unat (pri hr) > i")
    case True
    with no False h(4) have "\<not> del" by (auto simp: delete_overtakes_def)
    moreover have "hashed zh (drop_route zh ?h w) t = NULL" by (simp add: hashed_drop [OF zh ok h(1)] h(2))
    ultimately show ?thesis
      using False True h(4) all_hashed_file_add [OF zh route_ok_drop [OF zh ok h(1)] all_hashed_drop [OF zh ok all h(1)]
          drop_route_fresh [OF h(1,3) f] i d stamps_left_drop [OF ok h(1) room]]
      by (simp add: publish_effect_def)
  next
    case le: False
    let ?s = "swap_payload ?h dc d w"
    have ok1: "route_ok zh valid ?s"
      using d by (rule route_ok_swap [OF ok h(1) fresh_free_cell [OF route_okD(3) [OF ok] f]])
    have o: "objs ?s ?h = Some (hr\<lparr>data := dc\<rparr>)" using h by (simp add: swap_payload_def)
    note all1 = all_hashed_swap [OF all, of ?h dc d]
    show ?thesis
      using False le h(4) all_hashed_stamp [OF all1] all_hashed_retire [OF zh ok1 all1 o]
      by (simp add: publish_effect_def Let_def)
  qed
qed

end
