(* ===== verification/Route_Clients.thy ===== *)
theory Route_Clients
  imports Route_Table
begin

text \<open>
  Clients of the route broker: what a read does (\<open>route_broker_client_get_data\<close>), and that it keeps
  the invariant.
\<close>

section \<open>The memory behind a read\<close>

text \<open>Client \<open>c\<close> of broker \<open>b\<close> has been given the route \<open>p\<close> and stands right behind it.\<close>

definition moved ::
  "ptr \<Rightarrow> broker \<Rightarrow> ptr \<Rightarrow> broker_client \<Rightarrow> ptr \<Rightarrow> ('d, 'h) route_mem \<Rightarrow> ('d, 'h) route_mem" where
  "moved b br c cl p w =
     w\<lparr>brks := (brks w)(b \<mapsto> br\<lparr>b_obj_list := jump c p (b_obj_list br)\<rparr>),
       clis := (clis w)(c \<mapsto> (client_at (nid (objs w) (clis w) (Obj p)) cl)\<lparr>consumed := consumed cl + 1\<rparr>)\<rparr>"

text \<open>The last client that waited for a marked route.\<close>

definition last_reader :: "broker \<Rightarrow> ptr \<Rightarrow> ptr \<Rightarrow> ('d, 'h) route_mem \<Rightarrow> bool" where
  "last_reader br c p w \<longleftrightarrow>
     ndel (objs w) (clis w) (Obj p) \<and>
     (\<forall>c' \<in> set (b_client_list br). c' \<noteq> c \<longrightarrow> nid (objs w) (clis w) (Obj p) \<le> nid (objs w) (clis w) (Cli c'))"

definition delivered ::
  "'h zhash_ops \<Rightarrow> ptr \<Rightarrow> broker \<Rightarrow> ptr \<Rightarrow> broker_client \<Rightarrow> ptr \<Rightarrow> ('d, 'h) route_mem \<Rightarrow> ('d, 'h) route_mem" where
  "delivered zh b br c cl p w =
     (if last_reader br c p w then drop_route zh p (moved b br c cl p w) else moved b br c cl p w)"

text \<open>Client \<open>c\<close> found nothing.\<close>

definition caught_up :: "broker \<Rightarrow> ptr \<Rightarrow> broker_client \<Rightarrow> ('d, 'h) route_mem \<Rightarrow> ('d, 'h) route_mem" where
  "caught_up br c cl w = w\<lparr>clis := (clis w)(c \<mapsto> client_at (brk_id br) cl)\<rparr>"

lemma owed_jumped:
  assumes "c \<in> set (b_client_list br)" and "obj_id (cl_obj cl') = nid os cs (Obj p)"
  shows "owed br os (cs(c \<mapsto> cl')) (Obj p) \<longleftrightarrow>
    (\<exists>c' \<in> set (b_client_list br). c' \<noteq> c \<and> nid os cs (Cli c') < nid os cs (Obj p))"
  using assms by (auto simp: owed_def)

lemma given_delivered:
  assumes p: "objs w p = Some r" and b: "b = route_broker w ! unat (pri r)" "brks w b = Some br"
    and c: "c \<in> set (b_client_list br)"
  shows "given (route_release zh) b br c cl p w = delivered zh b br c cl p w"
proof -
  let ?m = "moved b br c cl p w"
  have m: "objs ?m p = Some r" "route_broker ?m = route_broker w"
    "brks ?m b = Some (br\<lparr>b_obj_list := jump c p (b_obj_list br)\<rparr>)"
    using p by (simp_all add: moved_def)
  have "last_reader br c p w \<longleftrightarrow> ndel (objs w) (clis w) (Obj p) \<and>
      \<not> owed br (objs w) ((clis w)(c \<mapsto> client_at (nid (objs w) (clis w) (Obj p)) cl)) (Obj p)"
    by (subst owed_jumped [OF c]) (auto simp: last_reader_def not_less)
  then show ?thesis
    using p drop_route_eq [of ?m p r "br\<lparr>b_obj_list := jump c p (b_obj_list br)\<rparr>" zh] m b
    by (simp add: given_def delivered_def Let_def release_step_def route_release_def) (simp add: moved_def)
qed

section \<open>The invariant behind a read\<close>

lemma route_rest_requeue:
  assumes rest: "route_rest zh valid w" and b: "brks w b = Some br"
    and br': "b_client_list br' = b_client_list br"
      "\<And>p. Obj p \<in> set (b_obj_list br) \<Longrightarrow> Obj p \<in> set (b_obj_list br')"
  shows "route_rest zh valid (w\<lparr>brks := (brks w)(b \<mapsto> br'), clis := cs\<rparr>)"
proof -
  note okD = route_restD [OF rest]
  let ?w = "w\<lparr>brks := (brks w)(b \<mapsto> br'), clis := cs\<rparr>"
  have "routes_placed ?w"
    unfolding routes_placed_def
  proof (intro allI impI)
    fix x s assume "objs ?w x = Some s"
    then have s: "objs w x = Some s" by simp
    from rest s obtain bx where bx: "unat (pri s) < 3"
        "brks w (route_broker w ! unat (pri s)) = Some bx" "Obj x \<in> set (b_obj_list bx)"
      by (rule route_rest_placed)
    show "unat (pri s) < 3 \<and> (\<exists>br. brks ?w (route_broker ?w ! unat (pri s)) = Some br \<and> Obj x \<in> set (b_obj_list br))"
      using bx b br'(2) by (cases "route_broker w ! unat (pri s) = b") auto
  qed
  moreover have "clients_ok ?w"
    by (rule clients_ok_same_lists [OF okD(5)]) (auto simp: b br'(1))
  moreover have "levels_ok ?w" using okD(1) b by (auto simp: levels_ok_def dom_def)
  moreover have "hash_sound zh ?w" using okD(4) by (simp add: hash_sound_def)
  ultimately show ?thesis using okD(2) by (simp add: route_rest_def)
qed

lemma route_rest_clis:
  "route_rest zh valid w \<Longrightarrow> route_rest zh valid (w\<lparr>clis := cs\<rparr>)"
proof -
  assume rest: "route_rest zh valid w"
  note okD = route_restD [OF rest]
  have "clients_ok (w\<lparr>clis := cs\<rparr>)"
    by (rule clients_ok_same_lists [OF okD(5)]) auto
  then show ?thesis
    using okD by (simp add: route_rest_def levels_ok_def routes_placed_def hash_sound_def)
qed

lemma route_ok_delivered:
  assumes zh: "zhash zh" and ok: "route_ok zh valid w" and b: "brks w b = Some br"
    and c: "c \<in> set (b_client_list br)" "clis w c = Some cl"
    and nxt: "find is_Obj (after (Cli c) (b_obj_list br)) = Some (Obj p)"
  shows "route_ok zh valid (delivered zh b br c cl p w)"
proof -
  note bok = route_okD(1) [OF ok]
  note wf = route_ok_broker [OF ok b]
  have cin: "Cli c \<in> set (b_obj_list br)" using broker_wf_client [OF wf c(1)] by metis
  have p: "Obj p \<in> set (b_obj_list br)" using find_is_Obj_Some [OF nxt] in_set_afterD by fastforce
  then obtain r where r: "objs w p = Some r" using broker_wf_nodes [OF wf] by fastforce
  have bp: "b = route_broker w ! unat (pri r)" by (rule route_queued_at [OF ok r b p])
  note sj = set_jump [OF broker_wfD(1) [OF wf] cin p]
  let ?m = "moved b br c cl p w"
  let ?cl = "(client_at (nid (objs w) (clis w) (Obj p)) cl)\<lparr>consumed := consumed cl + 1\<rparr>"
  have cl': "cl_broker ?cl = b" "cl_obj ?cl = cl_obj (client_at (nid (objs w) (clis w) (Obj p)) cl)"
    using broker_wf_client_flags(3) [OF wf cin c(2)] by simp_all
  have rest: "route_rest zh valid ?m"
    unfolding moved_def using ok sj(1) by (intro route_rest_requeue [OF _ b]) (auto simp: route_ok_rest)
  show ?thesis
  proof (cases "last_reader br c p w")
    case True
    have rm: "objs ?m p = Some r" "brks ?m (route_broker ?m ! unat (pri r)) = Some (br\<lparr>b_obj_list := jump c p (b_obj_list br)\<rparr>)"
      using r bp by (simp_all add: moved_def)
    have "brokers_ok (brks (drop_route zh p ?m)) (objs (drop_route zh p ?m)) (clis (drop_route zh p ?m))"
      unfolding drop_route_eq [OF rm]
      using brokers_ok_jump_release [OF bok b cin c(2) nxt cl'] bp by (simp add: moved_def)
    then show ?thesis
      using True route_rest_drop [OF zh rest rm(1)] by (simp add: delivered_def route_ok_rest)
  next
    case False
    have "owed br (objs w) ((clis w)(c \<mapsto> client_at (nid (objs w) (clis w) (Obj p)) cl)) (Obj p)"
      if "ndel (objs w) (clis w) (Obj p)"
      using that False by (subst owed_jumped [OF c(1)]) (auto simp: last_reader_def not_less)
    then have "brokers_ok (brks ?m) (objs ?m) (clis ?m)"
      using brokers_ok_jump [OF bok b cin c(2) nxt cl'] by (simp add: moved_def)
    then show ?thesis using False rest by (simp add: delivered_def route_ok_rest)
  qed
qed

lemma route_ok_caught_up:
  assumes ok: "route_ok zh valid w" and b: "brks w b = Some br"
    and c: "c \<in> set (b_client_list br)" "clis w c = Some cl"
    and none: "find is_Obj (after (Cli c) (b_obj_list br)) = None"
  shows "route_ok zh valid (caught_up br c cl w)"
proof -
  have "Cli c \<in> set (b_obj_list br)" using broker_wf_client [OF route_ok_broker [OF ok b] c(1)] by metis
  then show ?thesis
    using brokers_ok_client_to_top [OF route_okD(1) [OF ok] b _ c(2) none] ok
    by (simp add: route_ok_rest caught_up_def route_rest_clis)
qed

section \<open>Reading\<close>

text \<open>The copy of the payload that the client is given; no copy when \<open>malloc\<close> fails.\<close>

definition copied :: "ptr \<Rightarrow> 'd \<Rightarrow> ('d, 'h) route_mem \<Rightarrow> ('d, 'h) route_mem" where
  "copied m d w = (if m = NULL then w else w\<lparr>datas := (datas w)(m \<mapsto> d)\<rparr>)"

lemma copied_simps [simp]:
  "objs (copied m d w) = objs w" "clis (copied m d w) = clis w" "brks (copied m d w) = brks w"
  "route_broker (copied m d w) = route_broker w" "rclis (copied m d w) = rclis w"
  "client_list_head (copied m d w) = client_list_head w" "route_hashtbl (copied m d w) = route_hashtbl w"
  by (simp_all add: copied_def)

lemma routes_owned_datas:
  assumes own: "routes_owned valid None w" and "\<And>p r. objs w p = Some r \<Longrightarrow> ds (data r) = datas w (data r)"
  shows "routes_owned valid None (w\<lparr>datas := ds\<rparr>)"
  using own assms(2) unfolding routes_owned_def has_payload_def by fastforce

lemma route_ok_datas:
  assumes ok: "route_ok zh valid w" and "\<And>p r. objs w p = Some r \<Longrightarrow> ds (data r) = datas w (data r)"
  shows "route_ok zh valid (w\<lparr>datas := ds\<rparr>)"
proof -
  note okD = route_okD [OF ok]
  have "clients_ok (w\<lparr>datas := ds\<rparr>)" by (rule clients_ok_same_lists [OF okD(6)]) auto
  then show ?thesis
    using okD routes_owned_datas [OF okD(3) assms(2)]
    by (simp add: route_ok_def levels_ok_def routes_placed_def hash_sound_def)
qed

definition free_or_null :: "ptr \<Rightarrow> ('d, 'h) route_mem \<Rightarrow> bool" where
  "free_or_null m w \<longleftrightarrow> m = NULL \<or> datas w m = None"

lemma free_or_null_data:
  assumes "route_ok zh valid w" and "free_or_null m w" and "objs w p = Some r"
  shows "data r \<noteq> m"
  using routes_ownedD(2) [OF route_okD(3) [OF assms(1)] assms(3)] assms(2)
  by (auto simp: has_payload_def free_or_null_def)

lemma route_ok_copied:
  assumes "route_ok zh valid w" and "free_or_null m w"
  shows "route_ok zh valid (copied m d w)"
  using route_ok_datas [OF assms(1), of "(datas w)(m \<mapsto> d)"] free_or_null_data [OF assms] assms(1)
  by (auto simp: copied_def)

lemma route_payload:
  assumes "route_ok zh valid w" and "objs w p = Some r"
  obtains d where "datas w (data r) = Some d" "valid d" "data r \<noteq> NULL"
  using routes_ownedD(2) [OF route_okD(3) [OF assms(1)] assms(2)] by (auto simp: has_payload_def)

text \<open>The client of level \<open>i\<close> of a reader, with its broker.\<close>

definition reader_at ::
  "('d, 'h) route_mem \<Rightarrow> route_broker_client \<Rightarrow> nat \<Rightarrow> broker \<Rightarrow> broker_client \<Rightarrow> bool" where
  "reader_at w rcl i br cl \<longleftrightarrow>
     i < ROUTE_PRIORITY_MAX \<and> brks w (route_broker w ! i) = Some br \<and>
     clis w (client rcl ! i) = Some cl \<and> client rcl ! i \<in> set (b_client_list br)"

lemma reader_atD:
  assumes "reader_at w rcl i br cl"
  shows "i < ROUTE_PRIORITY_MAX" "brks w (route_broker w ! i) = Some br"
    "clis w (client rcl ! i) = Some cl" "client rcl ! i \<in> set (b_client_list br)"
  using assms by (auto simp: reader_at_def)

lemma reader_at_ex:
  assumes "route_ok zh valid w" and "rcl_ok (level_clients w) rcl" and "i < ROUTE_PRIORITY_MAX"
  obtains br cl where "reader_at w rcl i br cl"
proof -
  obtain br where br: "brks w (route_broker w ! i) = Some br"
    using level_broker [OF route_okD(2) [OF assms(1)] assms(3)] .
  from assms br obtain cl where "clis w (client rcl ! i) = Some cl" "client rcl ! i \<in> set (b_client_list br)"
    by (rule client_at_level)
  with br assms(3) show thesis by (intro that) (simp add: reader_at_def)
qed

lemma first_lag_cases:
  obtains (none) "first_lag w rcl = - 1" "\<And>i. i < ROUTE_PRIORITY_MAX \<Longrightarrow> \<not> lag w rcl i"
  | (some) i where "first_lag w rcl = int i" "i < ROUTE_PRIORITY_MAX" "lag w rcl i" "\<And>j. j < i \<Longrightarrow> \<not> lag w rcl j"
proof (cases "lag w rcl 0")
  case True
  then show thesis by (intro some [of 0]) (auto simp: first_lag_def)
next
  case n0: False
  show thesis
  proof (cases "lag w rcl 1")
    case True
    then show thesis using n0 by (intro some [of 1]) (auto simp: first_lag_def less_Suc_eq)
  next
    case n1: False
    show thesis
    proof (cases "lag w rcl 2")
      case True
      then show thesis using n0 n1 by (intro some [of 2]) (auto simp: first_lag_def less_Suc_eq numeral_2_eq_2)
    next
      case False
      then show thesis using n0 n1 by (intro none) (auto simp: first_lag_def less_3)
    qed
  qed
qed

context route_callbacks
begin

lemma client_get_eq:
  assumes ok: "route_ok zh valid w" and p: "objs w p = Some r" and d: "datas w (data r) = Some d"
  shows "route_broker_client_get cb m w (Obj p) = Some (m, copied m d w)"
proof -
  have "obj_type r = 0" "data r \<noteq> NULL" "valid d"
    using routes_ownedD(2) [OF route_okD(3) [OF ok] p] d by (auto simp: has_payload_def)
  then show ?thesis
    using p d copy [of d m] norm [of d]
    by (simp add: route_broker_client_get_def broker_obj_to_rib_route_def copied_def)
qed

lemma level_get_some:
  assumes ok: "route_ok zh valid w" and r: "reader_at w rcl i br cl" and m: "free_or_null m w"
    and nxt: "find is_Obj (after (Cli (client rcl ! i)) (b_obj_list br)) = Some (Obj p)"
    and p: "objs w p = Some ro" "datas w (data ro) = Some d"
  shows "broker_client_get_data (route_broker_ops zh cb) (route_broker_client_ops cb m) (client rcl ! i) w =
    Some (m, delivered zh (route_broker w ! i) br (client rcl ! i) cl p (copied m d w))"
proof -
  note rD = reader_atD [OF r]
  note wf = route_ok_broker [OF ok rD(2)]
  have cin: "Cli (client rcl ! i) \<in> set (b_obj_list br)" using broker_wf_client [OF wf rD(4)] by metis
  have pin: "Obj p \<in> set (b_obj_list br)" using find_is_Obj_Some [OF nxt] in_set_afterD by fastforce
  have bp: "route_broker w ! i = route_broker w ! unat (pri ro)" by (rule route_queued_at [OF ok p(1) rD(2) pin])
  have own: "routes_owned valid None (copied m d w)" by (rule route_okD(3) [OF route_ok_copied [OF ok m]])
  have "broker_client_get_data (route_broker_ops zh cb) (route_broker_client_ops cb m) (client rcl ! i) w =
    Some (m, given (route_release zh) (route_broker w ! i) br (client rcl ! i) cl p (copied m d w))"
    using client_get_eq [OF ok p]
    by (intro get_data_some_eq [where f = "route_broker_client_get cb m", OF rD(2) wf own cin rD(3) nxt])
       (simp_all add: route_broker_client_ops_def)
  then show ?thesis
    using given_delivered [of "copied m d w" p ro "route_broker w ! i" br "client rcl ! i"] p(1) bp rD(2,4) by simp
qed

lemma level_get_none:
  assumes ok: "route_ok zh valid w" and r: "reader_at w rcl i br cl"
    and none: "find is_Obj (after (Cli (client rcl ! i)) (b_obj_list br)) = None"
  shows "broker_client_get_data (route_broker_ops zh cb) co (client rcl ! i) w =
    Some (NULL, caught_up br (client rcl ! i) cl w)"
proof -
  note rD = reader_atD [OF r]
  note wf = route_ok_broker [OF ok rD(2)]
  have cin: "Cli (client rcl ! i) \<in> set (b_obj_list br)" using broker_wf_client [OF wf rD(4)] by metis
  show ?thesis using get_data_none_eq [OF rD(2) wf cin rD(3) none] by (simp add: caught_up_def)
qed

lemma get_data_level:
  assumes ok: "route_ok zh valid w" and rcl: "rcl_ok (level_clients w) rcl" "rclis w rc = Some rcl"
    and lag: "first_lag w rcl = int i" and r: "reader_at w rcl i br cl"
  shows "route_broker_client_get_data zh cb rc m waits w =
    map_option (\<lambda>(d, w). (Got d (client rcl ! i), w))
      (broker_client_get_data (route_broker_ops zh cb) (route_broker_client_ops cb m) (client rcl ! i) w)"
proof -
  have "arr (client rcl) (int i) = Some (client rcl ! i)"
    using rcl(1) reader_atD(1) [OF r] by (simp add: rcl_ok_def arr_def)
  then show ?thesis
    using data_available_eq [OF ok rcl] rcl(2) lag
    by (cases waits) (auto split: option.split simp: map_option_case bind_eq_Some split: bind_splits)
qed

end

end
