(* ===== verification/Route_Members.thy ===== *)
theory Route_Members
  imports Route_Clients
begin

text \<open>
  Clients of the route broker come and go: \<open>route_broker_client_create\<close> joins every level,
  \<open>route_broker_client_delete\<close> leaves every level, and what only the leaving client waited for is
  released.
\<close>

section \<open>Joining\<close>

definition join_level :: "string \<Rightarrow> nat \<Rightarrow> ptr \<Rightarrow> ('d, 'h) route_mem \<Rightarrow> ('d, 'h) route_mem" where
  "join_level nm i c w =
     (case brks w (route_broker w ! i) of None \<Rightarrow> w | Some br \<Rightarrow>
        w\<lparr>clis := (clis w)(c \<mapsto> new_client (route_broker w ! i) nm
                     (if \<exists>p. Obj p \<in> set (b_obj_list br) then 0 else brk_id br)),
          brks := (brks w)(route_broker w ! i \<mapsto> br\<lparr>b_client_list := c # b_client_list br,
                                                    b_obj_list := Cli c # b_obj_list br\<rparr>)\<rparr>)"

lemma join_level_frame [simp, frame_simps]:
  "objs (join_level nm i c w) = objs w" "datas (join_level nm i c w) = datas w"
  "route_hashtbl (join_level nm i c w) = route_hashtbl w" "route_broker (join_level nm i c w) = route_broker w"
  "rclis (join_level nm i c w) = rclis w" "client_list_head (join_level nm i c w) = client_list_head w"
  by (simp_all add: join_level_def split: option.split)

lemma clients_ok_ex:
  "clients_ok w \<Longrightarrow> rc \<in> set (client_list_head w) \<Longrightarrow>
     \<exists>rcl. rclis w rc = Some rcl \<and> rcl_ok (level_clients w) rcl"
  by (simp add: clients_ok_def)

lemma clients_ok_mono:
  assumes "clients_ok w" and "rclis w' = rclis w" and "client_list_head w' = client_list_head w"
    and "\<And>i. set (level_clients w i) \<subseteq> set (level_clients w' i)"
  shows "clients_ok w'"
proof -
  have "rcl_ok (level_clients w') rcl" if "rcl_ok (level_clients w) rcl" for rcl
    using that assms(4) unfolding rcl_ok_def by blast
  then show ?thesis using assms(1-3) unfolding clients_ok_def by metis
qed

lemma level_clients_join:
  assumes ok: "route_ok zh valid w" and i: "i < ROUTE_PRIORITY_MAX" and j: "j < ROUTE_PRIORITY_MAX"
  shows "level_clients (join_level nm i c w) j =
    (if j = i then c # level_clients w i else level_clients w j)"
proof -
  obtain br where br: "brks w (route_broker w ! i) = Some br"
    using level_broker [OF route_okD(2) [OF ok] i] .
  then show ?thesis
    using level_inj [OF route_okD(2) [OF ok] j i] by (auto simp: level_clients_def join_level_def)
qed

lemma route_ok_join:
  assumes ok: "route_ok zh valid w" and i: "i < ROUTE_PRIORITY_MAX" and c: "clis w c = None" "c \<noteq> NULL"
  shows "route_ok zh valid (join_level nm i c w)"
proof -
  note okD = route_okD [OF ok]
  obtain br where br: "brks w (route_broker w ! i) = Some br" using level_broker [OF okD(2) i] .
  let ?w = "join_level nm i c w"
  have "brokers_ok (brks ?w) (objs ?w) (clis ?w)"
    using brokers_ok_new_client [OF okD(1) br c refl] br by (simp add: join_level_def)
  moreover have "levels_ok ?w" using okD(2) br by (auto simp: levels_ok_def join_level_def dom_def)
  moreover have "routes_placed ?w"
    unfolding routes_placed_def
  proof (intro allI impI)
    fix x s assume "objs ?w x = Some s"
    then have "objs w x = Some s" by simp
    from ok this obtain bx where "unat (pri s) < 3"
        "brks w (route_broker w ! unat (pri s)) = Some bx" "Obj x \<in> set (b_obj_list bx)"
      by (rule route_placedD)
    then show "unat (pri s) < 3 \<and> (\<exists>br. brks ?w (route_broker ?w ! unat (pri s)) = Some br \<and> Obj x \<in> set (b_obj_list br))"
      using br by (auto simp: join_level_def)
  qed
  moreover have "clients_ok ?w"
    by (rule clients_ok_mono [OF okD(6)]) (auto simp: level_clients_def join_level_def br)
  moreover have "routes_owned valid None ?w" "hash_sound zh ?w"
    using okD(3,5) by (simp_all add: routes_owned_def has_payload_def hash_sound_def)
  ultimately show ?thesis by (simp add: route_ok_def)
qed

lemma create_joins:
  assumes ok: "route_ok zh valid w" and i: "i < ROUTE_PRIORITY_MAX" and c: "clis w c = None" "c \<noteq> NULL"
  shows "broker_client_create (route_broker w ! i) (Some co) nm c True w = Some (c, join_level nm i c w)"
proof -
  obtain br where br: "brks w (route_broker w ! i) = Some br"
    using level_broker [OF route_okD(2) [OF ok] i] .
  show ?thesis
    using broker_client_create_eq [OF br brokers_okD(1) [OF route_okD(1) [OF ok] br] c refl] br
    by (simp add: join_level_def)
qed

text \<open>All three levels, and the list of clients.\<close>

definition joined :: "string \<Rightarrow> ptr \<Rightarrow> ptr \<Rightarrow> ptr \<Rightarrow> ('d, 'h) route_mem \<Rightarrow> ('d, 'h) route_mem" where
  "joined nm c0 c1 c2 w = join_level nm 2 c2 (join_level nm 1 c1 (join_level nm 0 c0 w))"

definition registered :: "ptr \<Rightarrow> ptr list \<Rightarrow> ('d, 'h) route_mem \<Rightarrow> ('d, 'h) route_mem" where
  "registered rc cs w =
     w\<lparr>rclis := (rclis w)(rc \<mapsto> \<lparr>client = cs, client_cond = False, errors = 0\<rparr>),
       client_list_head := rc # client_list_head w\<rparr>"

definition fresh_clients :: "ptr \<Rightarrow> ptr \<Rightarrow> ptr \<Rightarrow> ('d, 'h) route_mem \<Rightarrow> bool" where
  "fresh_clients c0 c1 c2 w \<longleftrightarrow>
     c0 \<noteq> NULL \<and> c1 \<noteq> NULL \<and> c2 \<noteq> NULL \<and> distinct [c0, c1, c2] \<and>
     clis w c0 = None \<and> clis w c1 = None \<and> clis w c2 = None"

lemma join_level_clis: "clis (join_level nm i c w) c' = None \<longleftrightarrow> clis w c' = None \<and>
    (c' = c \<longrightarrow> brks w (route_broker w ! i) = None)"
  by (auto simp: join_level_def split: option.split)

lemma route_ok_joined:
  assumes ok: "route_ok zh valid w" and f: "fresh_clients c0 c1 c2 w"
  shows "route_ok zh valid (join_level nm 0 c0 w)" "route_ok zh valid (join_level nm 1 c1 (join_level nm 0 c0 w))"
    "route_ok zh valid (joined nm c0 c1 c2 w)"
proof -
  show ok0: "route_ok zh valid (join_level nm 0 c0 w)"
    using f by (intro route_ok_join [OF ok]) (auto simp: fresh_clients_def)
  show ok1: "route_ok zh valid (join_level nm 1 c1 (join_level nm 0 c0 w))"
    using f by (intro route_ok_join [OF ok0]) (auto simp: fresh_clients_def join_level_clis)
  show "route_ok zh valid (joined nm c0 c1 c2 w)"
    unfolding joined_def
    using f by (intro route_ok_join [OF ok1]) (auto simp: fresh_clients_def join_level_clis)
qed

lemma create_loop_eq:
  assumes ok: "route_ok zh valid w" and f: "fresh_clients c0 c1 c2 w"
  shows "client_create_loop cb nm (route_broker w) [(c0, True), (c1, True), (c2, True)] [] w =
    Some ([c0, c1, c2], joined nm c0 c1 c2 w)"
proof -
  note oks = route_ok_joined [OF ok f, of nm]
  obtain b0 b1 b2 where bs: "route_broker w = [b0, b1, b2]"
    using route_okD(2) [OF ok] by (auto simp: levels_ok_def numeral_3_eq_3 length_Suc_conv)
  have s0: "broker_client_create b0 (Some co) nm c0 True w = Some (c0, join_level nm 0 c0 w)" for co
    using create_joins [OF ok, of 0 c0] f bs by (simp add: fresh_clients_def)
  have s1: "broker_client_create b1 (Some co) nm c1 True (join_level nm 0 c0 w) =
      Some (c1, join_level nm 1 c1 (join_level nm 0 c0 w))" for co
    using create_joins [OF oks(1), of 1 c1] f bs by (simp add: fresh_clients_def join_level_clis)
  have s2: "broker_client_create b2 (Some co) nm c2 True (join_level nm 1 c1 (join_level nm 0 c0 w)) =
      Some (c2, joined nm c0 c1 c2 w)" for co
    using create_joins [OF oks(2), of 2 c2] f bs by (simp add: fresh_clients_def join_level_clis joined_def)
  show ?thesis by (simp add: bs s0 s1 s2 del: One_nat_def)
qed

lemma joined_level_clients:
  assumes ok: "route_ok zh valid w" and f: "fresh_clients c0 c1 c2 w" and i: "i < ROUTE_PRIORITY_MAX"
  shows "level_clients (joined nm c0 c1 c2 w) i = [c0, c1, c2] ! i # level_clients w i"
  using i level_clients_join [OF ok, of 0 i nm c0] level_clients_join [OF route_ok_joined(1) [OF ok f], of 1 i]
    level_clients_join [OF route_ok_joined(2) [OF ok f], of 2 i]
  unfolding joined_def less_3 by auto

lemma registered_client_new:
  assumes ok: "route_ok zh valid w" and f: "fresh_clients c0 c1 c2 w" and i: "i < ROUTE_PRIORITY_MAX"
    and rc: "rc \<in> set (client_list_head w)" "rclis w rc = Some rcl"
  shows "client rcl ! i \<noteq> [c0, c1, c2] ! i"
proof -
  obtain rcl' where "rclis w rc = Some rcl'" "rcl_ok (level_clients w) rcl'"
    using clients_okD [OF route_okD(6) [OF ok] rc(1)] by metis
  then have r: "rcl_ok (level_clients w) rcl" using rc(2) by simp
  obtain br cl where "reader_at w rcl i br cl" using reader_at_ex [OF ok r i] .
  then have "clis w (client rcl ! i) \<noteq> None" by (simp add: reader_at_def)
  then show ?thesis using f i unfolding fresh_clients_def less_3 by auto
qed

lemma route_ok_registered:
  assumes ok: "route_ok zh valid w" and f: "fresh_clients c0 c1 c2 w"
    and rc: "rc \<notin> set (client_list_head w)" "rclis w rc = None"
  shows "route_ok zh valid (registered rc [c0, c1, c2] (joined nm c0 c1 c2 w))"
proof -
  let ?j = "joined nm c0 c1 c2 w"
  let ?w = "registered rc [c0, c1, c2] ?j"
  note okj = route_ok_joined(3) [OF ok f, of nm]
  note okD = route_okD [OF okj]
  have fr: "rclis ?j = rclis w" "client_list_head ?j = client_list_head w" by (simp_all add: joined_def)
  have lc: "level_clients ?w = level_clients ?j" by (simp add: registered_def level_clients_def fun_eq_iff)
  have new: "rcl_ok (level_clients ?j) \<lparr>client = [c0, c1, c2], client_cond = False, errors = 0\<rparr>"
    using joined_level_clients [OF ok f, of _ nm] by (simp add: rcl_ok_def)
  have "clients_ok ?w"
    unfolding clients_ok_def
  proof (intro conjI ballI allI impI)
    show "distinct (client_list_head ?w)" using okD(6) rc fr by (simp add: registered_def clients_ok_def)
    fix x assume "x \<in> set (client_list_head ?w)"
    then have x: "x = rc \<or> x \<noteq> rc \<and> x \<in> set (client_list_head ?j)" using rc fr by (auto simp: registered_def)
    then show "\<exists>rcl. rclis ?w x = Some rcl \<and> rcl_ok (level_clients ?w) rcl"
      using new clients_ok_ex [OF okD(6), of x] unfolding lc by (cases "x = rc") (auto simp: registered_def)
    fix y rx ry i
    assume "y \<in> set (client_list_head ?w)" and i: "i < ROUTE_PRIORITY_MAX"
      and rx: "rclis ?w x = Some rx" and ry: "rclis ?w y = Some ry" and eq: "client rx ! i = client ry ! i"
    then have y: "y = rc \<or> y \<noteq> rc \<and> y \<in> set (client_list_head ?j)" using rc fr by (auto simp: registered_def)
    have new_ne: "client rcl ! i \<noteq> [c0, c1, c2] ! i" if "z \<in> set (client_list_head ?j)" "rclis ?j z = Some rcl" for z rcl
      using registered_client_new [OF ok f i] that fr by metis
    show "x = y"
    proof (cases "x = rc \<or> y = rc")
      case True
      then show ?thesis using x y rx ry eq new_ne [of x rx] new_ne [of y ry] by (auto simp: registered_def)
    next
      case False
      then have "x \<in> set (client_list_head ?j)" "y \<in> set (client_list_head ?j)"
        "rclis ?j x = Some rx" "rclis ?j y = Some ry"
        using x y rx ry by (auto simp: registered_def)
      then show ?thesis using clients_ok_inj [OF okD(6) _ _ i] eq by metis
    qed
  qed
  then show ?thesis
    using okD by (simp add: route_ok_def levels_ok_def routes_placed_def hash_sound_def registered_def)
qed

lemma client_create_eq:
  assumes ok: "route_ok zh valid w" and f: "fresh_clients c0 c1 c2 w" and rc: "rc \<noteq> NULL"
  shows "route_broker_client_create zh cb (Some nm) rc [(c0, True), (c1, True), (c2, True)] 0 w =
    Some (rc, registered rc [c0, c1, c2] (joined nm c0 c1 c2 w))"
proof -
  let ?j = "joined nm c0 c1 c2 w"
  have "\<forall>x \<in> set (client_list_head ?j). ((rclis ?j)(rc \<mapsto> y)) x \<noteq> None" for y
    using clients_okD [OF route_okD(6) [OF route_ok_joined(3) [OF ok f]]] by (metis fun_upd_apply option.distinct(1))
  then show ?thesis
    using rc create_loop_eq [OF ok f]
    by (simp add: route_broker_client_create_def registered_def circleq_simps Let_def)
qed

section \<open>Leaving\<close>

definition leave_level ::
  "'h zhash_ops \<Rightarrow> ptr \<Rightarrow> broker \<Rightarrow> ptr \<Rightarrow> ('d, 'h) route_mem \<Rightarrow> ('d, 'h) route_mem" where
  "leave_level zh b br c w =
     fold (release_step (route_release zh) b)
       (garbage (without_client c br) (objs w) ((clis w)(c := None)) (b_obj_list (without_client c br)))
       (w\<lparr>brks := (brks w)(b \<mapsto> without_client c br), clis := (clis w)(c := None)\<rparr>)"

lemma release_step_drop:
  "objs w p = Some r \<Longrightarrow> route_broker w ! unat (pri r) = b \<Longrightarrow>
     release_step (route_release zh) b p w = drop_route zh p w"
  by (simp add: drop_route_def)

lemma release_step_frame [simp]:
  "route_broker (release_step (route_release zh) b p w) = route_broker w"
  "rclis (release_step (route_release zh) b p w) = rclis w"
  "client_list_head (release_step (route_release zh) b p w) = client_list_head w"
  by (simp_all add: release_step_def)

lemma fold_release_frame:
  "route_broker (fold (release_step (route_release zh) b) ps w) = route_broker w"
  "rclis (fold (release_step (route_release zh) b) ps w) = rclis w"
  "client_list_head (fold (release_step (route_release zh) b) ps w) = client_list_head w"
  by (induction ps arbitrary: w) simp_all

lemma fold_release_head:
  "fold (release_step (route_release zh) b) ps (w\<lparr>client_list_head := x\<rparr>) =
     (fold (release_step (route_release zh) b) ps w)\<lparr>client_list_head := x\<rparr>"
proof (induction ps arbitrary: w)
  case (Cons p ps)
  have "release_step (route_release zh) b p (w\<lparr>client_list_head := x\<rparr>) =
      (release_step (route_release zh) b p w)\<lparr>client_list_head := x\<rparr>"
    by (cases "objs w p") (simp_all add: release_step_def route_release_def)
  then show ?case using Cons.IH by simp
qed simp

lemma leave_level_head:
  "leave_level zh b br c (w\<lparr>client_list_head := x\<rparr>) = (leave_level zh b br c w)\<lparr>client_list_head := x\<rparr>"
proof -
  have eq: "w\<lparr>client_list_head := x, brks := bs, clis := cs\<rparr> = w\<lparr>brks := bs, clis := cs, client_list_head := x\<rparr>" for bs cs
    by simp
  show ?thesis unfolding leave_level_def eq fold_release_head [symmetric] by simp
qed

lemma entry_payload: "objs w' q = objs w q \<Longrightarrow> payload w' q = payload w q \<Longrightarrow> entry w' q = entry w q"
  by (cases "objs w q") (simp_all add: entry_def payload_def)

text \<open>Releasing several routes of one level.\<close>

lemma fold_release_effect:
  assumes zh: "zhash zh" and "route_rest zh valid w" and "distinct ps"
    and "\<And>p. p \<in> set ps \<Longrightarrow> \<exists>r. objs w p = Some r \<and> route_broker w ! unat (pri r) = b"
    and w': "w' = fold (release_step (route_release zh) b) ps w"
  shows "route_rest zh valid w' \<and>
    (\<forall>t. hashed zh w' t = (if \<exists>p \<in> set ps. \<exists>r. objs w p = Some r \<and> topic r = t then NULL else hashed zh w t)) \<and>
    (\<forall>q. q \<notin> set ps \<longrightarrow> objs w' q = objs w q \<and> payload w' q = payload w q)"
  using assms(2-5)
proof (induction ps arbitrary: w w')
  case (Cons p ps)
  obtain r where r: "objs w p = Some r" "route_broker w ! unat (pri r) = b" using Cons.prems(3) [of p] by auto
  from Cons.prems(1) r(1) obtain br where br: "brks w (route_broker w ! unat (pri r)) = Some br"
    by (rule route_rest_placed)
  let ?w = "drop_route zh p w"
  note eq = drop_route_eq [OF r(1) br, of zh]
  have w': "w' = fold (release_step (route_release zh) b) ps ?w"
    using Cons.prems(4) release_step_drop [OF r] by simp
  have rest: "route_rest zh valid ?w" by (rule route_rest_drop [OF zh Cons.prems(1) r(1)])
  have d: "distinct ps" "p \<notin> set ps" using Cons.prems(2) by simp_all
  have live: "\<exists>r. objs ?w q = Some r \<and> route_broker ?w ! unat (pri r) = b" if "q \<in> set ps" for q
    using Cons.prems(3) [of q] that d(2) by (auto simp: eq)
  note IH = Cons.IH [OF rest d(1) live w']
  have hd: "hashed zh ?w t = (if t = topic r then NULL else hashed zh w t)" for t
    by (rule hashed_delete [OF zh]) (simp add: eq)
  have gone: "(\<exists>q \<in> set ps. \<exists>r. objs ?w q = Some r \<and> topic r = t) = (\<exists>q \<in> set ps. \<exists>r. objs w q = Some r \<and> topic r = t)" for t
    using d(2) by (auto simp: eq)
  have "hashed zh w' t = (if \<exists>p \<in> set (p # ps). \<exists>r. objs w p = Some r \<and> topic r = t then NULL else hashed zh w t)" for t
    using IH r(1) by (auto simp: gone hd)
  moreover have "objs w' q = objs w q \<and> payload w' q = payload w q" if q: "q \<notin> set (p # ps)" for q
  proof -
    have "payload ?w q = payload w q"
    proof (cases "objs w q")
      case (Some s)
      then have "data s \<noteq> data r"
        using routes_ownedD(3) [OF route_restD(2) [OF Cons.prems(1)] Some r(1)] q by auto
      then show ?thesis using Some q by (simp add: eq payload_def)
    qed (use q in \<open>simp add: eq payload_def\<close>)
    then show ?thesis using IH q by (simp add: eq)
  qed
  ultimately show ?case using IH by blast
qed simp

text \<open>A client that no registered client uses leaves level \<open>i\<close>.\<close>

definition unregistered :: "nat \<Rightarrow> ptr \<Rightarrow> ('d, 'h) route_mem \<Rightarrow> bool" where
  "unregistered i c w \<longleftrightarrow>
     (\<forall>rc \<in> set (client_list_head w). \<forall>rcl. rclis w rc = Some rcl \<longrightarrow> client rcl ! i \<noteq> c)"

lemma route_rest_without:
  assumes rest: "route_rest zh valid w" and i: "i < ROUTE_PRIORITY_MAX" and b: "brks w (route_broker w ! i) = Some br"
    and un: "unregistered i c w"
  shows "route_rest zh valid (w\<lparr>brks := (brks w)(route_broker w ! i \<mapsto> without_client c br), clis := cs\<rparr>)"
proof -
  note okD = route_restD [OF rest]
  let ?w = "w\<lparr>brks := (brks w)(route_broker w ! i \<mapsto> without_client c br), clis := cs\<rparr>"
  have "routes_placed ?w"
    unfolding routes_placed_def
  proof (intro allI impI)
    fix x s assume "objs ?w x = Some s"
    then have s: "objs w x = Some s" by simp
    from rest s obtain bx where bx: "unat (pri s) < 3"
        "brks w (route_broker w ! unat (pri s)) = Some bx" "Obj x \<in> set (b_obj_list bx)"
      by (rule route_rest_placed)
    show "unat (pri s) < 3 \<and> (\<exists>br. brks ?w (route_broker ?w ! unat (pri s)) = Some br \<and> Obj x \<in> set (b_obj_list br))"
      using bx b by (cases "route_broker w ! unat (pri s) = route_broker w ! i") auto
  qed
  moreover have "clients_ok ?w"
  proof -
    have "level_clients ?w j = (if j = i then remove1 c (level_clients w j) else level_clients w j)"
      if "j < ROUTE_PRIORITY_MAX" for j
      using b level_inj [OF okD(1) that i] by (auto simp: level_clients_def)
    then have "rcl_ok (level_clients ?w) rcl" if "rcl_ok (level_clients w) rcl" "client rcl ! i \<noteq> c" for rcl
      using that unfolding rcl_ok_def by (auto split: if_splits)
    then show ?thesis
      using okD(5) un unfolding clients_ok_def unregistered_def by (simp, metis)
  qed
  moreover have "levels_ok ?w" using okD(1) b by (auto simp: levels_ok_def dom_def)
  moreover have "hash_sound zh ?w" using okD(4) by (simp add: hash_sound_def)
  ultimately show ?thesis using okD(2) by (simp add: route_rest_def)
qed

definition leavers :: "broker \<Rightarrow> ptr \<Rightarrow> ('d, 'h) route_mem \<Rightarrow> ptr list" where
  "leavers br c w =
     garbage (without_client c br) (objs w) ((clis w)(c := None)) (b_obj_list (without_client c br))"

text \<open>What is released on leaving: marked, and nobody else waits for it.\<close>

lemma leavers_props:
  assumes ok: "route_ok zh valid w" and b: "brks w b = Some br" and c: "c \<in> set (b_client_list br)"
  shows "distinct (leavers br c w)"
    "\<And>p. p \<in> set (leavers br c w) \<Longrightarrow> \<exists>r. objs w p = Some r \<and> b = route_broker w ! unat (pri r) \<and> flags r = 5 \<and>
       (\<forall>c' \<in> set (b_client_list br). c' \<noteq> c \<longrightarrow> obj_id r \<le> nid (objs w) (clis w) (Cli c'))"
proof -
  note wf = route_ok_broker [OF ok b]
  show "distinct (leavers br c w)"
    unfolding leavers_def using broker_wfD(1) [OF wf] by (intro distinct_garbage) simp
  fix p
  assume "p \<in> set (leavers br c w)"
  then have p: "Obj p \<in> set (remove1 (Cli c) (b_obj_list br))" "ndel (objs w) ((clis w)(c := None)) (Obj p)"
    "\<not> owed (without_client c br) (objs w) ((clis w)(c := None)) (Obj p)"
    by (auto simp: leavers_def set_garbage)
  have q: "Obj p \<in> set (b_obj_list br)" using p(1) set_remove1_subset [of "Cli c"] by blast
  then obtain r where r: "objs w p = Some r" using broker_wf_nodes [OF wf] by fastforce
  have "flags r = 5" using p(2) r route_hdr(1) [OF ok r] by (auto simp: ndel_def)
  moreover have "obj_id r \<le> nid (objs w) (clis w) (Cli c')" if "c' \<in> set (b_client_list br)" "c' \<noteq> c" for c'
  proof -
    have "c' \<in> set (b_client_list (without_client c br))" using that broker_wfD(2) [OF wf] by (simp add: clients_agree_def)
    then have "\<not> nid (objs w) ((clis w)(c := None)) (Cli c') < nid (objs w) ((clis w)(c := None)) (Obj p)"
      using p(3) by (auto simp: owed_def)
    then show ?thesis using that(2) r by (simp add: nid_def not_less)
  qed
  ultimately show "\<exists>r. objs w p = Some r \<and> b = route_broker w ! unat (pri r) \<and> flags r = 5 \<and>
       (\<forall>c' \<in> set (b_client_list br). c' \<noteq> c \<longrightarrow> obj_id r \<le> nid (objs w) (clis w) (Cli c'))"
    using r route_queued_at [OF ok r b q] by blast
qed

context route_callbacks
begin

lemma leave_level_mem:
  fixes w :: "('d, 'h) route_mem"
  shows "objs (leave_level zh b br c w) = free_all (leavers br c w) (objs w)"
  "clis (leave_level zh b br c w) = (clis w)(c := None)"
  "brks (leave_level zh b br c w) = (brks w)(b \<mapsto> without_objs (leavers br c w) (without_client c br))"
  "route_broker (leave_level zh b br c w) = route_broker w"
  "rclis (leave_level zh b br c w) = rclis w"
  "client_list_head (leave_level zh b br c w) = client_list_head w"
  by (simp_all add: leave_level_def leavers_def fold_release_mem fold_release_frame)

text \<open>The memory after leaving a level: the routes that nobody is owed any more are gone, also from the hash table.\<close>

lemma leave_level_ok:
  assumes ok: "route_ok zh valid w" and i: "i < ROUTE_PRIORITY_MAX" and b: "brks w (route_broker w ! i) = Some br"
    and c: "c \<in> set (b_client_list br)" and un: "unregistered i c w"
  shows "route_ok zh valid (leave_level zh (route_broker w ! i) br c w)"
    "\<And>q. q \<notin> set (leavers br c w) \<Longrightarrow> objs (leave_level zh (route_broker w ! i) br c w) q = objs w q \<and>
       payload (leave_level zh (route_broker w ! i) br c w) q = payload w q"
    "\<And>t. hashed zh (leave_level zh (route_broker w ! i) br c w) t =
       (if \<exists>p \<in> set (leavers br c w). \<exists>r. objs w p = Some r \<and> topic r = t then NULL else hashed zh w t)"
proof -
  let ?b = "route_broker w ! i"
  let ?ps = "leavers br c w"
  let ?u = "w\<lparr>brks := (brks w)(?b \<mapsto> without_client c br), clis := (clis w)(c := None)\<rparr>"
  let ?w = "leave_level zh ?b br c w"
  note lp = leavers_props [OF ok b c]
  have rest0: "route_rest zh valid ?u"
    using ok by (intro route_rest_without [OF _ i b un]) (simp add: route_ok_rest)
  have live: "\<exists>r. objs ?u p = Some r \<and> route_broker ?u ! unat (pri r) = ?b" if "p \<in> set ?ps" for p
    using lp(2) [OF that] by auto
  have eff: "route_rest zh valid ?w \<and>
    (\<forall>t. hashed zh ?w t = (if \<exists>p \<in> set ?ps. \<exists>r. objs ?u p = Some r \<and> topic r = t then NULL else hashed zh ?u t)) \<and>
    (\<forall>q. q \<notin> set ?ps \<longrightarrow> objs ?w q = objs ?u q \<and> payload ?w q = payload ?u q)"
    by (rule fold_release_effect [OF zhash_axioms rest0 lp(1) live]) (simp_all add: leave_level_def leavers_def)
  have "objs ?u = objs w" "hashed zh ?u = hashed zh w" by (simp_all add: hashed_def fun_eq_iff)
  then show "hashed zh ?w t = (if \<exists>p \<in> set ?ps. \<exists>r. objs w p = Some r \<and> topic r = t then NULL else hashed zh w t)" for t
    using eff by (simp only:)
  show "objs ?w q = objs w q \<and> payload ?w q = payload w q" if "q \<notin> set ?ps" for q
    using eff that by (auto simp: payload_def)
  have "brokers_ok (brks ?w) (objs ?w) (clis ?w)"
    unfolding leave_level_mem
    by (rule brokers_ok_without_client [OF route_okD(1) [OF ok] b c refl refl]) (simp add: leavers_def)
  then show "route_ok zh valid ?w" using eff by (simp add: route_ok_rest)
qed

lemma leavers_hashed:
  assumes ok: "route_ok zh valid w" and b: "brks w (route_broker w ! i) = Some br"
    and c: "c \<in> set (b_client_list br)" and all: "all_hashed zh w"
  shows "(\<exists>p \<in> set (leavers br c w). \<exists>r. objs w p = Some r \<and> topic r = t) \<longleftrightarrow> hashed zh w t \<in> set (leavers br c w)"
proof
  assume "\<exists>p \<in> set (leavers br c w). \<exists>r. objs w p = Some r \<and> topic r = t"
  then show "hashed zh w t \<in> set (leavers br c w)" using all_hashedD [OF all ok] by metis
next
  assume h: "hashed zh w t \<in> set (leavers br c w)"
  then obtain r where r: "objs w (hashed zh w t) = Some r" using leavers_props(2) [OF ok b c] by blast
  have "hashed zh w t \<noteq> NULL" using routes_ownedD(2) [OF route_okD(3) [OF ok] r] by simp
  then have "topic r = t" using hashed_topic [OF ok refl _ r] by blast
  with h r show "\<exists>p \<in> set (leavers br c w). \<exists>r. objs w p = Some r \<and> topic r = t" by auto
qed

lemma leave_level_effect:
  assumes ok: "route_ok zh valid w" and i: "i < ROUTE_PRIORITY_MAX" and b: "brks w (route_broker w ! i) = Some br"
    and c: "c \<in> set (b_client_list br)" and un: "unregistered i c w"
  shows "route_ok zh valid (leave_level zh (route_broker w ! i) br c w)"
    "all_hashed zh w \<Longrightarrow> all_hashed zh (leave_level zh (route_broker w ! i) br c w)"
    "all_hashed zh w \<Longrightarrow> rib zh (leave_level zh (route_broker w ! i) br c w) = rib zh w"
    "\<And>q. q \<notin> set (leavers br c w) \<Longrightarrow> payload (leave_level zh (route_broker w ! i) br c w) q = payload w q"
proof -
  let ?ps = "leavers br c w"
  let ?w = "leave_level zh (route_broker w ! i) br c w"
  note eff = leave_level_ok [OF assms]
  show "route_ok zh valid ?w" "\<And>q. q \<notin> set ?ps \<Longrightarrow> payload ?w q = payload w q" using eff(1,2) by simp_all
  assume all: "all_hashed zh w"
  have hash: "hashed zh ?w t = (if hashed zh w t \<in> set ?ps then NULL else hashed zh w t)" for t
    using eff(3) leavers_hashed [OF ok b c all] by simp
  have "hashed zh ?w (topic s) = q" if "objs ?w q = Some s" for q s
  proof -
    have "objs w q = Some s" "q \<notin> set ?ps" using that by (auto simp: leave_level_mem free_all_def split: if_splits)
    then show ?thesis using all_hashedD [OF all ok] hash by simp
  qed
  then show "all_hashed zh ?w" by (simp add: all_hashed_iff' [OF eff(1)])
  have "rib zh ?w t = rib zh w t" for t
  proof (cases "hashed zh w t \<in> set ?ps")
    case True
    then obtain r where "objs w (hashed zh w t) = Some r" "flags r = 5" using leavers_props(2) [OF ok b c] by blast
    then show ?thesis using True hash by (simp add: rib_entry entry_Some)
  next
    case False
    then show ?thesis using hash entry_payload [of ?w "hashed zh w t" w] eff(2) by (simp add: rib_entry)
  qed
  then show "rib zh ?w = rib zh w" by (rule ext)
qed

lemma client_delete_leaves:
  assumes "route_ok zh valid w" and "brks w b = Some br" and "c \<in> set (b_client_list br)"
  shows "broker_client_delete (route_broker_ops zh cb) c w = Some (leave_level zh b br c w)"
  using broker_client_delete_eq [OF assms(2) route_ok_broker [OF assms(1,2)] route_okD(3) [OF assms(1)] assms(3) refl]
  by (simp add: leave_level_def)

end

text \<open>Leaving level \<open>i\<close>, and all levels.\<close>

definition leave :: "'h zhash_ops \<Rightarrow> nat \<Rightarrow> ptr \<Rightarrow> ('d, 'h) route_mem \<Rightarrow> ('d, 'h) route_mem" where
  "leave zh i c w =
     (case brks w (route_broker w ! i) of None \<Rightarrow> w | Some br \<Rightarrow> leave_level zh (route_broker w ! i) br c w)"

definition left :: "'h zhash_ops \<Rightarrow> ptr list \<Rightarrow> ('d, 'h) route_mem \<Rightarrow> ('d, 'h) route_mem" where
  "left zh cs w = leave zh 2 (cs ! 2) (leave zh 1 (cs ! 1) (leave zh 0 (cs ! 0) w))"

definition unlisted :: "ptr \<Rightarrow> ('d, 'h) route_mem \<Rightarrow> ('d, 'h) route_mem" where
  "unlisted rc w = w\<lparr>client_list_head := remove1 rc (client_list_head w)\<rparr>"

lemma leave_head: "leave zh i c (w\<lparr>client_list_head := x\<rparr>) = (leave zh i c w)\<lparr>client_list_head := x\<rparr>"
  by (simp add: leave_def leave_level_head split: option.split)

lemma left_head: "left zh cs (w\<lparr>client_list_head := x\<rparr>) = (left zh cs w)\<lparr>client_list_head := x\<rparr>"
  by (simp add: left_def leave_head)

lemma route_ok_unlisted:
  assumes ok: "route_ok zh valid w"
  shows "route_ok zh valid (unlisted rc w)"
proof -
  note okD = route_okD [OF ok]
  have sub: "set (remove1 rc (client_list_head w)) \<subseteq> set (client_list_head w)" by (rule set_remove1_subset)
  have lc: "level_clients (unlisted rc w) = level_clients w"
    by (rule level_clients_cong) (simp_all add: unlisted_def)
  have "clients_ok (unlisted rc w)"
    unfolding clients_ok_def lc
  proof (intro conjI ballI allI impI)
    show "distinct (client_list_head (unlisted rc w))"
      using okD(6) by (simp add: clients_ok_def unlisted_def)
    fix x assume "x \<in> set (client_list_head (unlisted rc w))"
    then have x: "x \<in> set (client_list_head w)" using sub by (auto simp: unlisted_def)
    show "\<exists>rcl. rclis (unlisted rc w) x = Some rcl \<and> rcl_ok (level_clients w) rcl"
      using clients_ok_ex [OF okD(6) x] by (simp add: unlisted_def)
    fix y rx ry i
    assume "y \<in> set (client_list_head (unlisted rc w))" and i: "i < ROUTE_PRIORITY_MAX"
      and rx: "rclis (unlisted rc w) x = Some rx" and ry: "rclis (unlisted rc w) y = Some ry"
      and eq: "client rx ! i = client ry ! i"
    then have y: "y \<in> set (client_list_head w)" using sub by (auto simp: unlisted_def)
    show "x = y" using clients_ok_inj [OF okD(6) x y i _ _ eq] rx ry by (simp add: unlisted_def)
  qed
  then show ?thesis
    using okD by (simp add: route_ok_def levels_ok_def routes_placed_def hash_sound_def unlisted_def
        routes_owned_def has_payload_def)
qed

lemma unlisted_unregistered:
  assumes ok: "route_ok zh valid w" and rc: "rc \<in> set (client_list_head w)" "rclis w rc = Some rcl"
    and i: "i < ROUTE_PRIORITY_MAX"
  shows "unregistered i (client rcl ! i) (unlisted rc w)"
  unfolding unregistered_def
proof (intro ballI allI impI)
  fix x rx
  assume "x \<in> set (client_list_head (unlisted rc w))" and rx: "rclis (unlisted rc w) x = Some rx"
  moreover have "distinct (client_list_head w)" using route_okD(6) [OF ok] by (simp add: clients_ok_def)
  ultimately have x: "x \<in> set (client_list_head w)" "x \<noteq> rc" by (auto simp: unlisted_def)
  have rx': "rclis w x = Some rx" using rx by (simp add: unlisted_def)
  show "client rx ! i \<noteq> client rcl ! i"
    using clients_ok_inj [OF route_okD(6) [OF ok] x(1) rc(1) i rx' rc(2)] x(2) by blast
qed

text \<open>A level can be left: the client is one of its clients and no registered client uses it.\<close>

definition can_leave :: "nat \<Rightarrow> ptr \<Rightarrow> ('d, 'h) route_mem \<Rightarrow> bool" where
  "can_leave i c w \<longleftrightarrow> i < ROUTE_PRIORITY_MAX \<and> c \<in> set (level_clients w i) \<and> unregistered i c w"

context route_callbacks
begin

lemma leave_effect:
  assumes ok: "route_ok zh valid w" and c: "can_leave i c w"
  shows "route_ok zh valid (leave zh i c w)"
    "all_hashed zh w \<Longrightarrow> all_hashed zh (leave zh i c w)" "all_hashed zh w \<Longrightarrow> rib zh (leave zh i c w) = rib zh w"
    "broker_client_delete (route_broker_ops zh cb) c w = Some (leave zh i c w)"
    "route_broker (leave zh i c w) = route_broker w" "rclis (leave zh i c w) = rclis w"
    "client_list_head (leave zh i c w) = client_list_head w"
    "\<And>j d. can_leave j d w \<Longrightarrow> j \<noteq> i \<Longrightarrow> can_leave j d (leave zh i c w)"
proof -
  have i: "i < ROUTE_PRIORITY_MAX" using c by (simp add: can_leave_def)
  obtain br where br: "brks w (route_broker w ! i) = Some br"
    using level_broker [OF route_okD(2) [OF ok] i] .
  have cin: "c \<in> set (b_client_list br)" and un: "unregistered i c w"
    using c br by (auto simp: can_leave_def level_clients_def)
  have eq: "leave zh i c w = leave_level zh (route_broker w ! i) br c w" by (simp add: leave_def br)
  note le = leave_level_effect [OF ok i br cin un]
  show "route_ok zh valid (leave zh i c w)"
    "all_hashed zh w \<Longrightarrow> all_hashed zh (leave zh i c w)" "all_hashed zh w \<Longrightarrow> rib zh (leave zh i c w) = rib zh w"
    using le by (simp_all add: eq)
  show "broker_client_delete (route_broker_ops zh cb) c w = Some (leave zh i c w)"
    using client_delete_leaves [OF ok br cin] by (simp add: eq)
  show fr: "route_broker (leave zh i c w) = route_broker w" "rclis (leave zh i c w) = rclis w"
    "client_list_head (leave zh i c w) = client_list_head w"
    by (simp_all add: eq leave_level_mem)
  show "can_leave j d (leave zh i c w)" if j: "can_leave j d w" "j \<noteq> i" for j d
  proof -
    have "route_broker w ! j \<noteq> route_broker w ! i"
      using level_inj [OF route_okD(2) [OF ok] _ i, of j] j by (simp add: can_leave_def)
    then have "level_clients (leave zh i c w) j = level_clients w j"
      by (simp add: level_clients_def eq leave_level_mem)
    then show ?thesis using j fr by (simp add: can_leave_def unregistered_def)
  qed
qed

lemma left_effect:
  assumes ok: "route_ok zh valid w" and c: "\<And>i. i < ROUTE_PRIORITY_MAX \<Longrightarrow> can_leave i (cs ! i) w"
  shows "route_ok zh valid (left zh cs w)" "all_hashed zh w \<Longrightarrow> all_hashed zh (left zh cs w)"
    "all_hashed zh w \<Longrightarrow> rib zh (left zh cs w) = rib zh w"
    "length cs = ROUTE_PRIORITY_MAX \<Longrightarrow> client_delete_loop zh cb cs w = Some (left zh cs w)"
    "rclis (left zh cs w) = rclis w" "client_list_head (left zh cs w) = client_list_head w"
    "route_broker (left zh cs w) = route_broker w"
proof -
  let ?a = "leave zh 0 (cs ! 0) w"
  let ?b = "leave zh 1 (cs ! 1) ?a"
  have c0: "can_leave 0 (cs ! 0) w" using c by simp
  note e0 = leave_effect [OF ok c0]
  have c1: "can_leave 1 (cs ! 1) ?a" by (rule e0(8)) (use c in simp_all)
  note e1 = leave_effect [OF e0(1) c1]
  have c2: "can_leave 2 (cs ! 2) ?b" by (rule e1(8), rule e0(8)) (use c in simp_all)
  note e2 = leave_effect [OF e1(1) c2]
  show "route_ok zh valid (left zh cs w)" "all_hashed zh w \<Longrightarrow> all_hashed zh (left zh cs w)"
    "all_hashed zh w \<Longrightarrow> rib zh (left zh cs w) = rib zh w"
    "rclis (left zh cs w) = rclis w" "client_list_head (left zh cs w) = client_list_head w"
    "route_broker (left zh cs w) = route_broker w"
    using e0 e1 e2 by (simp_all add: left_def)
  assume "length cs = ROUTE_PRIORITY_MAX"
  then have "cs = [cs ! 0, cs ! 1, cs ! 2]"
    by (auto simp: numeral_3_eq_3 length_Suc_conv)
  then have "client_delete_loop zh cb cs w = client_delete_loop zh cb [cs ! 0, cs ! 1, cs ! 2] w" by simp
  also have "\<dots> = Some (left zh cs w)" using e0(4) e1(4) e2(4) by (simp add: left_def del: One_nat_def)
  finally show "client_delete_loop zh cb cs w = Some (left zh cs w)" .
qed

text \<open>The deletes do not look at the list of clients, which still holds the leaving client.\<close>

lemma leave_delete_head:
  assumes ok: "route_ok zh valid u" and c: "can_leave i c u"
  shows "broker_client_delete (route_broker_ops zh cb) c (u\<lparr>client_list_head := l\<rparr>) =
    Some ((leave zh i c u)\<lparr>client_list_head := l\<rparr>)"
proof -
  have i: "i < ROUTE_PRIORITY_MAX" using c by (simp add: can_leave_def)
  obtain br where br: "brks u (route_broker u ! i) = Some br"
    using level_broker [OF route_okD(2) [OF ok] i] .
  have cin: "c \<in> set (b_client_list br)" using c br by (auto simp: can_leave_def level_clients_def)
  let ?w = "u\<lparr>client_list_head := l\<rparr>"
  have "broker_client_delete (route_broker_ops zh cb) c ?w = Some (leave_level zh (route_broker u ! i) br c ?w)"
    using broker_client_delete_eq [of ?w "route_broker u ! i" br c, OF _ _ _ cin refl]
      br route_ok_broker [OF ok br] route_okD(3) [OF ok]
    by (simp add: leave_level_def)
  then show ?thesis using br by (simp add: leave_def leave_level_head)
qed

lemma left_delete_head:
  assumes ok: "route_ok zh valid u" and c: "\<And>i. i < ROUTE_PRIORITY_MAX \<Longrightarrow> can_leave i (cs ! i) u"
    and "length cs = ROUTE_PRIORITY_MAX"
  shows "client_delete_loop zh cb cs (u\<lparr>client_list_head := l\<rparr>) = Some ((left zh cs u)\<lparr>client_list_head := l\<rparr>)"
proof -
  let ?a = "leave zh 0 (cs ! 0) u"
  let ?b = "leave zh 1 (cs ! 1) ?a"
  have c0: "can_leave 0 (cs ! 0) u" using c by simp
  note e0 = leave_effect [OF ok c0]
  have c1: "can_leave 1 (cs ! 1) ?a" by (rule e0(8)) (use c in simp_all)
  note e1 = leave_effect [OF e0(1) c1]
  have c2: "can_leave 2 (cs ! 2) ?b" by (rule e1(8), rule e0(8)) (use c in simp_all)
  have "cs = [cs ! 0, cs ! 1, cs ! 2]" using assms(3) by (auto simp: numeral_3_eq_3 length_Suc_conv)
  then have "client_delete_loop zh cb cs (u\<lparr>client_list_head := l\<rparr>) =
      client_delete_loop zh cb [cs ! 0, cs ! 1, cs ! 2] (u\<lparr>client_list_head := l\<rparr>)" by simp
  also have "\<dots> = Some ((left zh cs u)\<lparr>client_list_head := l\<rparr>)"
    using leave_delete_head [OF ok c0] leave_delete_head [OF e0(1) c1] leave_delete_head [OF e1(1) c2]
    by (simp add: left_def del: One_nat_def)
  finally show ?thesis .
qed

lemma can_leave_unlisted:
  assumes ok: "route_ok zh valid w" and rc: "rc \<in> set (client_list_head w)" "rclis w rc = Some rcl"
    and i: "i < ROUTE_PRIORITY_MAX"
  shows "can_leave i (client rcl ! i) (unlisted rc w)"
proof -
  have "rcl_ok (level_clients w) rcl" using clients_ok_ex [OF route_okD(6) [OF ok] rc(1)] rc(2) by simp
  moreover have "level_clients (unlisted rc w) = level_clients w"
    by (rule level_clients_cong) (simp_all add: unlisted_def)
  ultimately show ?thesis
    using unlisted_unregistered [OF ok rc i] i by (simp add: can_leave_def rcl_ok_def)
qed

lemma client_delete_eq:
  assumes ok: "route_ok zh valid w" and rc: "rc \<in> set (client_list_head w)" "rclis w rc = Some rcl"
  shows "route_broker_client_delete zh cb rc w =
    Some ((left zh (client rcl) (unlisted rc w))\<lparr>rclis := (rclis w)(rc := None)\<rparr>)"
proof -
  let ?u = "unlisted rc w"
  let ?l = "client_list_head w"
  have w: "w = ?u\<lparr>client_list_head := ?l\<rparr>" by (simp add: unlisted_def)
  have oku: "route_ok zh valid ?u" by (rule route_ok_unlisted [OF ok])
  have len: "length (client rcl) = ROUTE_PRIORITY_MAX"
    using clients_ok_ex [OF route_okD(6) [OF ok] rc(1)] rc(2) by (simp add: rcl_ok_def)
  have cl: "\<And>i. i < ROUTE_PRIORITY_MAX \<Longrightarrow> can_leave i (client rcl ! i) ?u"
    by (rule can_leave_unlisted [OF ok rc])
  note le = left_effect [OF oku cl]
  have loop: "client_delete_loop zh cb (client rcl) w = Some ((left zh (client rcl) ?u)\<lparr>client_list_head := ?l\<rparr>)"
    using left_delete_head [OF oku cl len, of ?l] by (simp add: unlisted_def)
  have alive: "\<forall>x \<in> set ?l. rclis w x \<noteq> None" using clients_ok_ex [OF route_okD(6) [OF ok]] by blast
  have fr: "rclis (left zh (client rcl) ?u) = rclis w"
    "client_list_head (left zh (client rcl) ?u) = remove1 rc ?l"
    using le(5,6) by (simp_all add: unlisted_def)
  show ?thesis
    using loop rc alive fr
    by (simp add: route_broker_client_delete_def client_delete_locked_def client_delete_unlink_def
        circleq_simps)
qed

lemma route_ok_forget:
  assumes ok: "route_ok zh valid w" and "rc \<notin> set (client_list_head w)"
  shows "route_ok zh valid (w\<lparr>rclis := (rclis w)(rc := None)\<rparr>)"
proof -
  note okD = route_okD [OF ok]
  have "clients_ok (w\<lparr>rclis := (rclis w)(rc := None)\<rparr>)"
    using okD(6) assms(2) unfolding clients_ok_def by (auto split: if_splits)
  then show ?thesis
    using okD by (simp add: route_ok_def levels_ok_def routes_placed_def hash_sound_def)
qed

end

end
