(* ===== verification/Route_Delivery.thy ===== *)
theory Route_Delivery
  imports Route_Members
begin

text \<open>
  Delivery. A consumer applies every message it reads to a table of its own. \<open>in_sync\<close> relates that
  table to the broker's: for every topic the two agree, or a route of that topic still waits for
  the consumer. Every operation of the route broker keeps \<open>in_sync\<close>; a consumer for which nothing
  waits has the broker's table.
\<close>

lemma rib_cong:
  assumes "objs w' = objs w" and "datas w' = datas w" and "route_hashtbl w' = route_hashtbl w"
  shows "rib zh w' = rib zh w"
proof -
  have "hashed zh w' = hashed zh w" using assms(3) by (simp add: hashed_def fun_eq_iff)
  moreover have "entry w' q = entry w q" for q by (rule entry_cong) (use assms in simp_all)
  ultimately show ?thesis by (simp add: rib_entry fun_eq_iff)
qed

section \<open>Messages carry their topic\<close>

text \<open>The payload of a route says the topic and the mark the route has.\<close>

definition labels_ok :: "'d object_cbs \<Rightarrow> ('d, 'h) route_mem \<Rightarrow> bool" where
  "labels_ok cb w \<longleftrightarrow>
     (\<forall>p r. objs w p = Some r \<longrightarrow>
        (\<exists>d. payload w p = Some d \<and> topic_of cb d = Some (topic r, flags r AND BROKER_FLAGS_DELETE \<noteq> 0)))"

definition apply_msg :: "'d object_cbs \<Rightarrow> 'd \<Rightarrow> (string \<rightharpoonup> 'd) \<Rightarrow> (string \<rightharpoonup> 'd)" where
  "apply_msg cb d view =
     (case topic_of cb d of None \<Rightarrow> view | Some (t, del) \<Rightarrow> view(t := if del then None else Some d))"

lemma labelsD:
  assumes "labels_ok cb w" and "objs w p = Some r"
  obtains d where "payload w p = Some d" "topic_of cb d = Some (topic r, flags r AND BROKER_FLAGS_DELETE \<noteq> 0)"
  using assms unfolding labels_ok_def by blast

lemma labels_ok_cong:
  assumes "labels_ok cb w" and "\<And>q s. objs w' q = Some s \<Longrightarrow> objs w q = Some s \<and> payload w' q = payload w q"
  shows "labels_ok cb w'"
  unfolding labels_ok_def
proof (intro allI impI)
  fix p r
  assume "objs w' p = Some r"
  from assms(2) [OF this] show "\<exists>d. payload w' p = Some d \<and> topic_of cb d = Some (topic r, flags r AND BROKER_FLAGS_DELETE \<noteq> 0)"
    using assms(1) unfolding labels_ok_def by simp
qed

lemma payload_other:
  assumes ok: "route_ok zh valid w" and p: "objs w p = Some r" and "q \<noteq> p" and "objs w' q = objs w q"
    and "datas w' = (datas w)(data r := None) \<or> free_cell dc w \<and> datas w' = (datas w)(data r := None, dc \<mapsto> d)"
  shows "payload w' q = payload w q"
proof (cases "objs w q")
  case (Some s)
  then have "data s \<noteq> data r" using routes_ownedD(3) [OF route_okD(3) [OF ok] Some p] assms(3) by auto
  then show ?thesis using Some assms(4,5) by (auto simp: payload_def free_cell_def)
qed (use assms(4) in \<open>simp add: payload_def\<close>)

lemma labels_drop:
  assumes ok: "route_ok zh valid w" and p: "objs w p = Some r" and l: "labels_ok cb w"
  shows "labels_ok cb (drop_route zh p w)"
proof (rule labels_ok_cong [OF l])
  from ok p obtain br where "brks w (route_broker w ! unat (pri r)) = Some br" by (rule route_placedD)
  note eq = drop_route_eq [OF p this, of zh]
  fix q s
  assume "objs (drop_route zh p w) q = Some s"
  then have q: "objs w q = Some s" "q \<noteq> p" by (auto simp: eq split: if_splits)
  then show "objs w q = Some s \<and> payload (drop_route zh p w) q = payload w q"
    using payload_other [OF ok p, of q "drop_route zh p w"] by (simp add: eq)
qed

lemma labels_set:
  assumes l: "\<And>q s. q \<noteq> p \<Longrightarrow> objs w' q = Some s \<Longrightarrow> objs w q = Some s \<and> payload w' q = payload w q"
    and "labels_ok cb w" and "objs w' p = Some r" and "payload w' p = Some d"
    and "topic_of cb d = Some (topic r, flags r AND BROKER_FLAGS_DELETE \<noteq> 0)"
  shows "labels_ok cb w'"
  unfolding labels_ok_def
proof (intro allI impI)
  fix q s
  assume s: "objs w' q = Some s"
  show "\<exists>d. payload w' q = Some d \<and> topic_of cb d = Some (topic s, flags s AND BROKER_FLAGS_DELETE \<noteq> 0)"
  proof (cases "q = p")
    case True
    then show ?thesis using assms(3-5) s by auto
  next
    case False
    from l [OF False s] show ?thesis using assms(2) unfolding labels_ok_def by simp
  qed
qed

lemma labels_add:
  assumes ok: "route_ok zh valid w" and f: "fresh_ptrs p dc w" and i: "i < ROUTE_PRIORITY_MAX"
    and l: "labels_ok cb w" and d: "topic_of cb d = Some (t, False)"
  shows "labels_ok cb (add_route i t p dc d w)"
proof -
  obtain br where br: "brks w (route_broker w ! i) = Some br"
    using level_broker [OF route_okD(2) [OF ok] i] .
  note eq = add_route_eq [OF br, of t p dc d]
  let ?r = "\<lparr>obj_type = 0, flags = 1, obj_id = brk_id br + 1, refcount = 1, pri = of_nat i, topic = t, data = dc\<rparr>"
  have pay: "payload (add_route i t p dc d w) q = payload w q" if "q \<noteq> p" for q
    using that fresh_free_cell [OF route_okD(3) [OF ok] f]
    by (cases "objs w q") (auto simp: eq payload_def free_cell_def)
  have r: "objs (add_route i t p dc d w) p = Some ?r" "payload (add_route i t p dc d w) p = Some d"
    by (simp_all add: eq payload_def)
  show ?thesis
    by (rule labels_set [OF _ l r]) (use pay d in \<open>simp_all add: eq\<close>)
qed

text \<open>Swapping the payload and stamping, in one step: in between, payload and mark may disagree.\<close>

lemma labels_swap_stamp:
  assumes ok: "route_ok zh valid w" and p: "objs w p = Some r" and cell: "free_cell dc w" and v: "valid d"
    and l: "labels_ok cb w" and d: "topic_of cb d = Some (topic r, f AND BROKER_FLAGS_DELETE \<noteq> 0)"
  shows "labels_ok cb (stamp_route f p (swap_payload p dc d w))"
proof -
  let ?s = "swap_payload p dc d w"
  have ps: "objs ?s p = Some (r\<lparr>data := dc\<rparr>)" using p by (simp add: swap_payload_def)
  from route_ok_swap [OF ok p cell v] ps obtain br where
    "brks ?s (route_broker ?s ! unat (pri (r\<lparr>data := dc\<rparr>))) = Some br" by (rule route_placedD)
  note eq = stamp_route_eq [OF ps this, of f]
  have same: "objs (stamp_route f p ?s) q = objs w q" if "q \<noteq> p" for q
    using that by (simp add: eq) (simp add: swap_payload_def p)
  have ds: "datas (stamp_route f p ?s) = (datas w)(data r := None, dc \<mapsto> d)"
    by (simp add: eq) (simp add: swap_payload_def p)
  have pay: "payload (stamp_route f p ?s) q = payload w q" if "q \<noteq> p" for q
    using payload_other [OF ok p that same [OF that]] ds cell by blast
  have r: "objs (stamp_route f p ?s) p = Some (r\<lparr>data := dc, flags := f, obj_id := brk_id br + 1\<rparr>)"
    "payload (stamp_route f p ?s) p = Some d"
    using ds by (simp_all add: eq payload_def)
  show ?thesis
    by (rule labels_set [OF _ l r]) (use same pay d in simp_all)
qed

lemma labels_file: "labels_ok cb w \<Longrightarrow> labels_ok cb (file_route zh t p w)"
  by (erule labels_ok_cong) (simp_all add: file_route_def payload_def)

lemma labels_stamp:
  assumes ok: "route_ok zh valid w" and p: "objs w p = Some r" and l: "labels_ok cb w"
    and d: "payload w p = Some d" "topic_of cb d = Some (topic r, f AND BROKER_FLAGS_DELETE \<noteq> 0)"
  shows "labels_ok cb (stamp_route f p w)"
proof -
  from ok p obtain br where "brks w (route_broker w ! unat (pri r)) = Some br" by (rule route_placedD)
  note eq = stamp_route_eq [OF p this, of f]
  have pay: "payload (stamp_route f p w) q = payload w q" for q
    by (cases "objs w q") (auto simp: eq payload_def p)
  have r: "objs (stamp_route f p w) p = Some (r\<lparr>flags := f, obj_id := brk_id br + 1\<rparr>)"
    "payload (stamp_route f p w) p = Some d"
    using pay d by (simp_all add: eq)
  show ?thesis
    by (rule labels_set [OF _ l r]) (use pay d in \<open>simp_all add: eq\<close>)
qed

lemma labels_swap_drop:
  assumes ok: "route_ok zh valid w" and p: "objs w p = Some r" and cell: "free_cell dc w" and v: "valid d"
    and l: "labels_ok cb w"
  shows "labels_ok cb (drop_route zh p (swap_payload p dc d w))"
proof (rule labels_ok_cong [OF l])
  let ?s = "swap_payload p dc d w"
  have ps: "objs ?s p = Some (r\<lparr>data := dc\<rparr>)" using p by (simp add: swap_payload_def)
  from route_ok_swap [OF ok p cell v] ps obtain br where
    "brks ?s (route_broker ?s ! unat (pri (r\<lparr>data := dc\<rparr>))) = Some br" by (rule route_placedD)
  note eq = drop_route_eq [OF ps this, of zh]
  fix q s
  assume "objs (drop_route zh p ?s) q = Some s"
  then have "q \<noteq> p" "objs ?s q = Some s" by (auto simp: eq split: if_splits)
  then have q: "q \<noteq> p" "objs w q = Some s" by (auto simp: swap_payload_def p)
  have "data s \<noteq> data r" "data s \<noteq> dc"
    using routes_ownedD(3) [OF route_okD(3) [OF ok] q(2) p] q cell by (auto simp: free_cell_def)
  then show "objs w q = Some s \<and> payload (drop_route zh p ?s) q = payload w q"
    using q p by (simp add: eq payload_def) (simp add: swap_payload_def)
qed

lemma labels_publish_effect:
  assumes zh: "zhash zh" and ok: "route_ok zh valid w" and f: "fresh_ptrs p dc w"
    and i: "i < ROUTE_PRIORITY_MAX" and d: "valid d" "topic_of cb d = Some (t, del)"
    and l: "labels_ok cb w" and no: "\<not> delete_overtakes zh t del i w"
  shows "labels_ok cb (publish_effect zh t del i p dc d w)"
proof (cases "hashed zh w t = NULL")
  case True
  then show ?thesis
    using l labels_file [OF labels_add [OF ok f i l]] d(2) by (cases del) (simp_all add: publish_effect_def)
next
  case False
  let ?h = "hashed zh w t"
  from ok False obtain hr hb where h: "objs w ?h = Some hr" "topic hr = t"
    "brks w (route_broker w ! unat (pri hr)) = Some hb" "level_of w ?h = unat (pri hr)"
    by (rule hashed_route)
  note cell = fresh_free_cell [OF route_okD(3) [OF ok] f]
  show ?thesis
  proof (cases "unat (pri hr) > i")
    case True
    with no False h(4) have "\<not> del" by (auto simp: delete_overtakes_def)
    then show ?thesis
      using False True h(4) d(2) labels_file [OF labels_add [OF route_ok_drop [OF zh ok h(1)]
          drop_route_fresh [OF h(1,3) f] i labels_drop [OF ok h(1) l]]]
      by (simp add: publish_effect_def)
  next
    case le: False
    have "labels_ok cb (stamp_route (if del then 5 else 1) ?h (swap_payload ?h dc d w))"
      using d(2) h(2) by (intro labels_swap_stamp [OF ok h(1) cell d(1) l]) simp
    then show ?thesis
      using False le h(4) labels_swap_drop [OF ok h(1) cell d(1) l]
      by (cases del) (simp_all add: publish_effect_def Let_def retire_route_def)
  qed
qed

section \<open>In step with the table\<close>

definition awaits :: "('d, 'h) route_mem \<Rightarrow> route_broker_client \<Rightarrow> rib_route \<Rightarrow> bool" where
  "awaits w rcl r \<longleftrightarrow> nid (objs w) (clis w) (Cli (client rcl ! unat (pri r))) < obj_id r"

definition in_sync ::
  "'h zhash_ops \<Rightarrow> ('d, 'h) route_mem \<Rightarrow> route_broker_client \<Rightarrow> (string \<rightharpoonup> 'd) \<Rightarrow> bool" where
  "in_sync zh w rcl view \<longleftrightarrow>
     (\<forall>t. view t = rib zh w t \<or> (\<exists>p r. objs w p = Some r \<and> topic r = t \<and> awaits w rcl r))"

lemma nid_Cli: "nid os cs (Cli c) = (case cs c of None \<Rightarrow> 0 | Some cl \<Rightarrow> obj_id (cl_obj cl))"
  by (simp add: nid_def split: option.split)

lemma awaits_cong: "(\<And>i. nid (objs w') (clis w') (Cli (client rcl ! i)) = nid (objs w) (clis w) (Cli (client rcl ! i))) \<Longrightarrow>
    awaits w' rcl r = awaits w rcl r"
  by (simp add: awaits_def)

lemma in_syncI:
  assumes "in_sync zh w rcl view"
    and "\<And>t. rib zh w' t = rib zh w t \<or> view' t = rib zh w' t \<or> (\<exists>p r. objs w' p = Some r \<and> topic r = t \<and> awaits w' rcl r)"
    and "\<And>t. view' t = view t \<or> view' t = rib zh w' t"
    and "\<And>p r. objs w p = Some r \<Longrightarrow> awaits w rcl r \<Longrightarrow> view' (topic r) = rib zh w' (topic r) \<or>
        (\<exists>p' r'. objs w' p' = Some r' \<and> topic r' = topic r \<and> awaits w' rcl r')"
  shows "in_sync zh w' rcl view'"
  unfolding in_sync_def
proof
  fix t
  show "view' t = rib zh w' t \<or> (\<exists>p r. objs w' p = Some r \<and> topic r = t \<and> awaits w' rcl r)"
  proof (cases "view t = rib zh w t")
    case True
    then show ?thesis using assms(2) [of t] assms(3) [of t] by auto
  next
    case False
    then obtain p r where "objs w p = Some r" "topic r = t" "awaits w rcl r"
      using assms(1) unfolding in_sync_def by blast
    then show ?thesis using assms(4) [of p r] by auto
  qed
qed

lemma in_sync_frame:
  assumes "in_sync zh w rcl view" and "rib zh w' = rib zh w"
    and "\<And>p r. objs w p = Some r \<Longrightarrow> awaits w rcl r \<Longrightarrow> objs w' p = Some r \<and> awaits w' rcl r"
  shows "in_sync zh w' rcl view"
  by (rule in_syncI [OF assms(1)]) (use assms(2,3) in auto)

subsection \<open>Publishing\<close>

lemma stamped_awaits:
  assumes ok: "route_ok zh valid w" and rcl: "rcl_ok (level_clients w) rcl" and i: "i < ROUTE_PRIORITY_MAX"
    and br: "brks w (route_broker w ! i) = Some br" "brk_id br \<noteq> - 1"
    and w': "clis w' = clis w" "obj_id r = brk_id br + 1" "unat (pri r) = i"
  shows "awaits w' rcl r"
proof -
  from ok rcl i br(1) obtain cl where cl: "clis w (client rcl ! i) = Some cl" "Cli (client rcl ! i) \<in> set (b_obj_list br)"
    by (rule client_at_level)
  have "nid (objs w) (clis w) (Cli (client rcl ! i)) < brk_id br + 1"
    by (rule broker_wf_below [OF route_ok_broker [OF ok br(1)] br(2) cl(2)])
  then show ?thesis using w' cl(1) by (simp add: awaits_def nid_Cli)
qed

lemma publish_rclis [simp]: "rclis (publish_effect zh t del i p dc d w) = rclis w"
  "client_list_head (publish_effect zh t del i p dc d w) = client_list_head w"
  by (auto simp: publish_effect_def Let_def retire_route_def stamp_route_def drop_route_def
      release_step_def swap_payload_def file_route_def add_route_def split: option.split)

lemma publish_clis [simp]: "clis (publish_effect zh t del i p dc d w) = clis w"
  by (auto simp: publish_effect_def Let_def retire_route_def stamp_route_def drop_route_def
      release_step_def swap_payload_def file_route_def add_route_def split: option.split)

lemma objs_other:
  "q \<noteq> p \<Longrightarrow> objs (stamp_route f p w) q = objs w q"
  "q \<noteq> p \<Longrightarrow> objs (drop_route zh p w) q = objs w q"
  "q \<noteq> p \<Longrightarrow> objs (swap_payload p dc d w) q = objs w q"
  "q \<noteq> p \<Longrightarrow> objs (add_route i t p dc d w) q = objs w q"
  "objs (file_route zh t p w) = objs w"
  by (auto simp: stamp_route_def drop_route_def release_step_def swap_payload_def add_route_def file_route_def Let_def
      split: option.split)

lemma publish_other:
  assumes ok: "route_ok zh valid w" and f: "fresh_ptrs p dc w" and q: "objs w q = Some s" "topic s \<noteq> t"
  shows "objs (publish_effect zh t del i p dc d w) q = Some s"
proof -
  have "q \<noteq> p" using q(1) fresh_ptrsD(2) [OF f] by auto
  moreover have "q \<noteq> hashed zh w t" if "hashed zh w t \<noteq> NULL"
    using hashed_topic [OF ok refl that] q by metis
  ultimately show ?thesis
    using q(1) by (auto simp: publish_effect_def Let_def objs_other retire_route_objs)
qed

lemma stamp_news:
  assumes ok: "route_ok zh valid w" and rcl: "rcl_ok (level_clients w) rcl" and p: "objs w p = Some r"
    and room: "\<And>br. brks w (route_broker w ! unat (pri r)) = Some br \<Longrightarrow> brk_id br \<noteq> - 1"
  shows "\<exists>r'. objs (stamp_route f p w) p = Some r' \<and> topic r' = topic r \<and> awaits (stamp_route f p w) rcl r'"
proof -
  from ok p obtain br where br: "unat (pri r) < ROUTE_PRIORITY_MAX"
    "brks w (route_broker w ! unat (pri r)) = Some br" by (rule route_placedD)
  note eq = stamp_route_eq [OF p br(2), of f]
  let ?r = "r\<lparr>flags := f, obj_id := brk_id br + 1\<rparr>"
  have "awaits (stamp_route f p w) rcl ?r"
    by (rule stamped_awaits [OF ok rcl br room [OF br(2)]]) (simp_all add: eq)
  then show ?thesis by (intro exI [of _ ?r]) (simp add: eq)
qed

lemma retire_news:
  assumes ok: "route_ok zh valid w" and rcl: "rcl_ok (level_clients w) rcl" and p: "objs w p = Some r"
    and room: "\<And>br. brks w (route_broker w ! unat (pri r)) = Some br \<Longrightarrow> brk_id br \<noteq> - 1"
  shows "\<exists>r'. objs (retire_route zh p w) p = Some r' \<and> topic r' = topic r \<and> awaits (retire_route zh p w) rcl r'"
proof -
  from ok p obtain br where "unat (pri r) < ROUTE_PRIORITY_MAX" by (rule route_placedD)
  then have "level_clients w (unat (pri r)) \<noteq> []" using rcl by (auto simp: rcl_ok_def)
  then show ?thesis using stamp_news [OF ok rcl p room, of 5] p by (simp add: retire_route_def)
qed

lemma add_news:
  assumes ok: "route_ok zh valid w" and rcl: "rcl_ok (level_clients w) rcl" and i: "i < ROUTE_PRIORITY_MAX"
    and room: "stamps_left w"
  shows "\<exists>r'. objs (add_route i t p dc d w) p = Some r' \<and> topic r' = t \<and> awaits (add_route i t p dc d w) rcl r'"
proof -
  obtain br where br: "brks w (route_broker w ! i) = Some br"
    using level_broker [OF route_okD(2) [OF ok] i] .
  note eq = add_route_eq [OF br, of t p dc d]
  let ?r = "\<lparr>obj_type = 0, flags = 1, obj_id = brk_id br + 1, refcount = 1, pri = of_nat i, topic = t, data = dc\<rparr>"
  have "brk_id br \<noteq> - 1" using room br by (auto simp: stamps_left_def)
  then have "awaits (add_route i t p dc d w) rcl ?r"
    by (rule stamped_awaits [OF ok rcl i br]) (simp_all add: eq unat_level [OF i])
  then show ?thesis by (intro exI [of _ ?r]) (simp add: eq)
qed

lemma level_clients_add:
  assumes ok: "route_ok zh valid w" and i: "i < ROUTE_PRIORITY_MAX"
  shows "level_clients (add_route i t p dc d w) = level_clients w"
proof -
  obtain br where br: "brks w (route_broker w ! i) = Some br"
    using level_broker [OF route_okD(2) [OF ok] i] .
  show ?thesis by (rule level_clients_cong) (auto simp: add_route_eq [OF br] br)
qed

lemma awaits_file [simp]: "awaits (file_route zh t p w) = awaits w"
  by (simp add: awaits_def file_route_def fun_eq_iff)

lemma publish_news:
  assumes zh: "zhash zh" and ok: "route_ok zh valid w" and f: "fresh_ptrs p dc w"
    and i: "i < ROUTE_PRIORITY_MAX" and d: "valid d" and room: "stamps_left w"
    and rcl: "rcl_ok (level_clients w) rcl"
  shows "publish_effect zh t del i p dc d w = w \<or>
    (\<exists>q r. objs (publish_effect zh t del i p dc d w) q = Some r \<and> topic r = t \<and>
       awaits (publish_effect zh t del i p dc d w) rcl r)"
proof (cases "hashed zh w t = NULL")
  case True
  then show ?thesis
    using add_news [OF ok rcl i room, of t p dc d] by (auto simp: publish_effect_def objs_other(5))
next
  case False
  let ?h = "hashed zh w t"
  from ok False obtain hr hb where h: "objs w ?h = Some hr" "topic hr = t"
    "brks w (route_broker w ! unat (pri hr)) = Some hb" "level_of w ?h = unat (pri hr)"
    by (rule hashed_route)
  show ?thesis
  proof (cases "unat (pri hr) > i")
    case True
    let ?w = "drop_route zh ?h w"
    let ?a = "add_route i t p dc d ?w"
    have ok1: "route_ok zh valid ?w" by (rule route_ok_drop [OF zh ok h(1)])
    have rcl1: "rcl_ok (level_clients ?w) rcl" using rcl drop_route_brks(4) [OF ok h(1)] by simp
    note room1 = stamps_left_drop [OF ok h(1) room]
    have rcl2: "rcl_ok (level_clients ?a) rcl" using rcl1 level_clients_add [OF ok1 i] by simp
    from ok1 drop_route_fresh [OF h(1,3) f] i d room1
    obtain r br where r: "route_ok zh valid ?a" "objs ?a p = Some r" "topic r = t" "unat (pri r) = i"
      "brks ?a (route_broker ?a ! i) = Some br" "brk_id br \<noteq> - 1"
      by (rule route_ok_added)
    show ?thesis
      using False True h(4) add_news [OF ok1 rcl1 i room1, of t p dc d] retire_news [OF r(1) rcl2 r(2)] r(3-6)
      by (cases del) (auto simp: publish_effect_def objs_other(5))
  next
    case le: False
    let ?s = "swap_payload ?h dc d w"
    have ok1: "route_ok zh valid ?s"
      using d by (rule route_ok_swap [OF ok h(1) fresh_free_cell [OF route_okD(3) [OF ok] f]])
    have o: "objs ?s ?h = Some (hr\<lparr>data := dc\<rparr>)" "route_broker ?s = route_broker w" "brks ?s = brks w"
      using h by (simp_all add: swap_payload_def)
    have rcl1: "rcl_ok (level_clients ?s) rcl"
      using rcl level_clients_cong [of ?s w] o by simp
    have nw: "brk_id hb \<noteq> - 1" using room h(3) by (auto simp: stamps_left_def)
    show ?thesis
      using False le h(2,3,4) o nw stamp_news [OF ok1 rcl1 o(1), of 1] retire_news [OF ok1 rcl1 o(1)]
      by (cases del) (auto simp: publish_effect_def Let_def)
  qed
qed

lemma in_sync_publish:
  assumes zh: "zhash zh" and ok: "route_ok zh valid w" and f: "fresh_ptrs p dc w"
    and i: "i < ROUTE_PRIORITY_MAX" and d: "valid d" and room: "stamps_left w"
    and rcl: "rcl_ok (level_clients w) rcl" and sync: "in_sync zh w rcl view"
  shows "in_sync zh (publish_effect zh t del i p dc d w) rcl view"
proof (cases "publish_effect zh t del i p dc d w = w")
  case False
  let ?w = "publish_effect zh t del i p dc d w"
  have news: "\<exists>q r. objs ?w q = Some r \<and> topic r = t \<and> awaits ?w rcl r"
    using publish_news [OF zh ok f i d room rcl] False by blast
  show ?thesis
  proof (rule in_syncI [OF sync])
    fix t'
    show "rib zh ?w t' = rib zh w t' \<or> view t' = rib zh ?w t' \<or> (\<exists>p r. objs ?w p = Some r \<and> topic r = t' \<and> awaits ?w rcl r)"
      using rib_publish_effect [OF zh ok f i d room] news by (cases "t' = t") auto
  next
    fix q s
    assume q: "objs w q = Some s" "awaits w rcl s"
    show "view (topic s) = rib zh ?w (topic s) \<or> (\<exists>p' r'. objs ?w p' = Some r' \<and> topic r' = topic s \<and> awaits ?w rcl r')"
    proof (cases "topic s = t")
      case False
      have "awaits ?w rcl s" using q(2) by (simp add: awaits_def nid_Cli)
      then show ?thesis using publish_other [OF ok f q(1) False] by blast
    qed (use news in auto)
  qed simp
qed (use sync in simp)

subsection \<open>Reading\<close>

text \<open>The facts a read starts from: reader \<open>rcl\<close> takes the route \<open>p\<close> on level \<open>i\<close>.\<close>

definition next_for ::
  "('d, 'h) route_mem \<Rightarrow> route_broker_client \<Rightarrow> nat \<Rightarrow> broker \<Rightarrow> broker_client \<Rightarrow> ptr \<Rightarrow> rib_route \<Rightarrow> bool" where
  "next_for w rcl i br cl p r \<longleftrightarrow>
     reader_at w rcl i br cl \<and> objs w p = Some r \<and> unat (pri r) = i \<and>
     find is_Obj (after (Cli (client rcl ! i)) (b_obj_list br)) = Some (Obj p)"

abbreviation read_mem where
  "read_mem zh w rcl i br cl p \<equiv> delivered zh (route_broker w ! i) br (client rcl ! i) cl p w"

lemma next_forD:
  assumes "next_for w rcl i br cl p r"
  shows "reader_at w rcl i br cl" "objs w p = Some r" "unat (pri r) = i"
    "find is_Obj (after (Cli (client rcl ! i)) (b_obj_list br)) = Some (Obj p)"
  using assms by (auto simp: next_for_def)

lemma next_for_ex:
  assumes ok: "route_ok zh valid w" and r: "reader_at w rcl i br cl"
    and nxt: "find is_Obj (after (Cli (client rcl ! i)) (b_obj_list br)) = Some n"
  obtains p ro where "n = Obj p" "next_for w rcl i br cl p ro"
proof -
  obtain p where p: "n = Obj p" "Obj p \<in> set (b_obj_list br)"
    using find_is_Obj_Some [OF nxt] in_set_afterD by fastforce
  note rD = reader_atD [OF r]
  obtain ro where ro: "objs w p = Some ro" using broker_wf_nodes [OF route_ok_broker [OF ok rD(2)]] p(2) by fastforce
  have lv: "unat (pri ro) < ROUTE_PRIORITY_MAX" using ok ro by (rule route_placedD)
  have "route_broker w ! i = route_broker w ! unat (pri ro)" by (rule route_queued_at [OF ok ro rD(2) p(2)])
  then have "unat (pri ro) = i" using level_inj [OF route_okD(2) [OF ok] rD(1) lv] by simp
  with r ro nxt p show thesis by (intro that) (auto simp: next_for_def)
qed

text \<open>The route that is read is the oldest one that waits on its level.\<close>

lemma next_for_first:
  assumes ok: "route_ok zh valid w" and nx: "next_for w rcl i br cl p r"
  shows "awaits w rcl r"
    "\<And>q s. objs w q = Some s \<Longrightarrow> unat (pri s) = i \<Longrightarrow> awaits w rcl s \<Longrightarrow> q \<noteq> p \<Longrightarrow> obj_id r < obj_id s"
proof -
  note nD = next_forD [OF nx]
  note rD = reader_atD [OF nD(1)]
  note wf = route_ok_broker [OF ok rD(2)]
  let ?c = "client rcl ! i"
  have cin: "Cli ?c \<in> set (b_obj_list br)" using broker_wf_client [OF wf rD(4)] by metis
  have nid_o: "nid (objs w) (clis w) (Obj q) = obj_id s" if "objs w q = Some s" for q s
    using that by (simp add: nid_def)
  obtain ms ns where ms: "after (Cli ?c) (b_obj_list br) = ms @ Obj p # ns" "\<forall>m \<in> set ms. \<not> is_Obj m"
    using find_SomeD [OF nD(4)] by blast
  have pin: "Obj p \<in> set (b_obj_list br)" using ms(1) in_set_afterD [of "Obj p" "Cli ?c"] by simp
  show "awaits w rcl r"
    using client_separates [OF wf cin pin] ms(1) nid_o [OF nD(2)] nD(3) by (simp add: awaits_def)
  fix q s
  assume s: "objs w q = Some s" "unat (pri s) = i" and aw: "awaits w rcl s" and ne: "q \<noteq> p"
  from ok s(1) obtain bs where bs: "brks w (route_broker w ! unat (pri s)) = Some bs" "Obj q \<in> set (b_obj_list bs)"
    by (rule route_placedD)
  then have qin: "Obj q \<in> set (b_obj_list br)" using s(2) rD(2) by simp
  have "Obj q \<in> set (after (Cli ?c) (b_obj_list br))"
    using client_separates [OF wf cin qin] aw s nid_o [OF s(1)] by (simp add: awaits_def)
  then have "Obj q \<in> set ns" using ms ne by auto
  moreover have "in_order (nid (objs w) (clis w)) (after (Cli ?c) (b_obj_list br))"
    using broker_wfD(4) [OF wf] before_after [OF cin] by (metis in_order_append in_order_Cons)
  ultimately have "nid (objs w) (clis w) (Obj p) < nid (objs w) (clis w) (Obj q)"
    using ms(1) by (auto simp: in_order_append in_order_Cons stamp_le_def)
  then show "obj_id r < obj_id s" using nid_o [OF nD(2)] nid_o [OF s(1)] by simp
qed

text \<open>What a read leaves.\<close>

lemma read_mem_eq:
  assumes nx: "next_for w rcl i br cl p r"
  shows "objs (read_mem zh w rcl i br cl p) = (if last_reader br (client rcl ! i) p w then (objs w)(p := None) else objs w)"
    "clis (read_mem zh w rcl i br cl p) =
       (clis w)(client rcl ! i \<mapsto> (client_at (obj_id r) cl)\<lparr>consumed := consumed cl + 1\<rparr>)"
    "datas (read_mem zh w rcl i br cl p) = (if last_reader br (client rcl ! i) p w then (datas w)(data r := None) else datas w)"
    "route_hashtbl (read_mem zh w rcl i br cl p) =
       (if last_reader br (client rcl ! i) p w then map_option (\<lambda>h. zhash_delete zh h (topic r)) (route_hashtbl w) else route_hashtbl w)"
    "rclis (read_mem zh w rcl i br cl p) = rclis w" "client_list_head (read_mem zh w rcl i br cl p) = client_list_head w"
    "route_broker (read_mem zh w rcl i br cl p) = route_broker w"
    "level_clients (read_mem zh w rcl i br cl p) = level_clients w"
proof -
  note nD = next_forD [OF nx]
  note rD = reader_atD [OF nD(1)]
  let ?b = "route_broker w ! i"
  let ?m = "moved ?b br (client rcl ! i) cl p w"
  let ?br = "br\<lparr>b_obj_list := jump (client rcl ! i) p (b_obj_list br)\<rparr>"
  have m: "objs ?m p = Some r" "brks ?m (route_broker ?m ! unat (pri r)) = Some ?br"
    using nD(2,3) by (simp_all add: moved_def)
  have nid: "nid (objs w) (clis w) (Obj p) = obj_id r" using nD(2) by (simp add: nid_def)
  note eq = drop_route_eq [OF m, of zh]
  show "objs (read_mem zh w rcl i br cl p) = (if last_reader br (client rcl ! i) p w then (objs w)(p := None) else objs w)"
    "clis (read_mem zh w rcl i br cl p) =
       (clis w)(client rcl ! i \<mapsto> (client_at (obj_id r) cl)\<lparr>consumed := consumed cl + 1\<rparr>)"
    "datas (read_mem zh w rcl i br cl p) = (if last_reader br (client rcl ! i) p w then (datas w)(data r := None) else datas w)"
    "route_hashtbl (read_mem zh w rcl i br cl p) =
       (if last_reader br (client rcl ! i) p w then map_option (\<lambda>h. zhash_delete zh h (topic r)) (route_hashtbl w) else route_hashtbl w)"
    "rclis (read_mem zh w rcl i br cl p) = rclis w" "client_list_head (read_mem zh w rcl i br cl p) = client_list_head w"
    "route_broker (read_mem zh w rcl i br cl p) = route_broker w"
    by (simp_all add: delivered_def eq) (simp_all add: moved_def nid)
  show "level_clients (read_mem zh w rcl i br cl p) = level_clients w"
    by (rule level_clients_cong) (auto simp: delivered_def eq, auto simp: moved_def rD(2) nD(3))
qed

lemma read_mem_table:
  assumes zh: "zhash zh" and ok: "route_ok zh valid w" and all: "all_hashed zh w"
    and nx: "next_for w rcl i br cl p r"
  shows "rib zh (read_mem zh w rcl i br cl p) = rib zh w" "all_hashed zh (read_mem zh w rcl i br cl p)"
proof -
  note nD = next_forD [OF nx]
  let ?w = "read_mem zh w rcl i br cl p"
  note eq = read_mem_eq [OF nx, of zh]
  have hp: "hashed zh w (topic r) = p" by (rule all_hashedD [OF all ok nD(2)])
  have hashed: "hashed zh ?w t = (if last_reader br (client rcl ! i) p w \<and> t = topic r then NULL else hashed zh w t)" for t
    using hashed_delete [OF zh, of ?w "topic r" w t] eq(4) by (auto simp: hashed_def)
  have "p \<noteq> NULL" using routes_ownedD(2) [OF route_okD(3) [OF ok] nD(2)] by simp
  then have hq: "hashed zh w t = p \<Longrightarrow> t = topic r" for t using hashed_topic [OF ok _ _ nD(2)] by metis
  have entry: "entry ?w q = entry w q" if "q \<noteq> p \<or> \<not> last_reader br (client rcl ! i) p w" for q
  proof (cases "objs w q")
    case (Some s)
    then have "q \<noteq> p \<Longrightarrow> data s \<noteq> data r" using routes_ownedD(3) [OF route_okD(3) [OF ok] Some nD(2)] by auto
    then show ?thesis using Some that by (auto simp: entry_def eq)
  qed (use that in \<open>auto simp: entry_def eq\<close>)
  have gone: "rib zh w (topic r) = None" if "last_reader br (client rcl ! i) p w"
    using that nD(2) hp by (auto simp: rib_entry entry_def last_reader_def ndel_def)
  show "rib zh ?w = rib zh w"
  proof
    fix t
    show "rib zh ?w t = rib zh w t"
    proof (cases "last_reader br (client rcl ! i) p w \<and> t = topic r")
      case True
      then show ?thesis using gone hashed [of t] by (simp add: rib_entry)
    next
      case False
      then have "hashed zh w t \<noteq> p \<or> \<not> last_reader br (client rcl ! i) p w" using hq by blast
      then show ?thesis using entry [of "hashed zh w t"] hashed [of t] False by (auto simp: rib_entry)
    qed
  qed
  have ok': "route_ok zh valid ?w"
    using route_ok_delivered [OF zh ok] reader_atD [OF nD(1)] nD(4) by blast
  show "all_hashed zh ?w"
    unfolding all_hashed_iff' [OF ok']
  proof (intro allI impI)
    fix q s
    assume "objs ?w q = Some s"
    then have q: "objs w q = Some s" "last_reader br (client rcl ! i) p w \<longrightarrow> q \<noteq> p"
      by (auto simp: eq split: if_splits)
    have "hashed zh w (topic s) = q" by (rule all_hashedD [OF all ok q(1)])
    then show "hashed zh ?w (topic s) = q" using q(2) hashed [of "topic s"] hp by auto
  qed
qed

lemma labels_read:
  assumes ok: "route_ok zh valid w" and l: "labels_ok cb w" and nx: "next_for w rcl i br cl p r"
  shows "labels_ok cb (read_mem zh w rcl i br cl p)"
proof (rule labels_ok_cong [OF l])
  note nD = next_forD [OF nx]
  note eq = read_mem_eq [OF nx, of zh]
  fix q s
  assume "objs (read_mem zh w rcl i br cl p) q = Some s"
  then have q: "objs w q = Some s" "objs (read_mem zh w rcl i br cl p) q = Some s"
    "last_reader br (client rcl ! i) p w \<longrightarrow> q \<noteq> p"
    by (auto simp: eq split: if_splits)
  have "last_reader br (client rcl ! i) p w \<longrightarrow> data s \<noteq> data r"
    using routes_ownedD(3) [OF route_okD(3) [OF ok] q(1) nD(2)] q(3) by auto
  then show "objs w q = Some s \<and> payload (read_mem zh w rcl i br cl p) q = payload w q"
    using q by (simp add: payload_def eq)
qed

text \<open>Another reader does not lose a route it waits for.\<close>

lemma read_mem_keeps:
  assumes nx: "next_for w rcl i br cl p r" and r': "reader_at w rcl' i br cl'"
    and ne: "client rcl' ! i \<noteq> client rcl ! i" "client rcl' ! unat (pri s) \<noteq> client rcl ! i"
    and q: "objs w q = Some s" "awaits w rcl' s"
  shows "objs (read_mem zh w rcl i br cl p) q = Some s" "awaits (read_mem zh w rcl i br cl p) rcl' s"
proof -
  note nD = next_forD [OF nx]
  note eq = read_mem_eq [OF nx, of zh]
  show "awaits (read_mem zh w rcl i br cl p) rcl' s"
    using q(2) ne by (simp add: awaits_def eq(2) nid_Cli)
  have "q \<noteq> p" if "last_reader br (client rcl ! i) p w"
  proof
    assume "q = p"
    then have "s = r" using q(1) nD(2) by simp
    then show False
      using that q(2) reader_atD(4) [OF r'] ne(1) nD(2,3)
      by (auto simp: last_reader_def awaits_def nid_Cli nid_def not_less [symmetric])
  qed
  then show "objs (read_mem zh w rcl i br cl p) q = Some s" using q(1) by (auto simp: eq)
qed

lemma in_sync_read_own:
  assumes zh: "zhash zh" and ok: "route_ok zh valid w" and all: "all_hashed zh w" and l: "labels_ok cb w"
    and nx: "next_for w rcl i br cl p r" and sync: "in_sync zh w rcl view"
    and inj: "\<And>j k. j < ROUTE_PRIORITY_MAX \<Longrightarrow> k < ROUTE_PRIORITY_MAX \<Longrightarrow> client rcl ! j = client rcl ! k \<Longrightarrow> j = k"
    and d: "datas w (data r) = Some d"
  shows "in_sync zh (read_mem zh w rcl i br cl p) rcl (apply_msg cb d view)"
proof (rule in_syncI [OF sync])
  note nD = next_forD [OF nx]
  note rD = reader_atD [OF nD(1)]
  let ?w = "read_mem zh w rcl i br cl p"
  note eq = read_mem_eq [OF nx, of zh]
  note same = read_mem_table(1) [OF zh ok all nx]
  have "payload w p = Some d" using nD(2) d by (simp add: payload_def)
  then have top: "topic_of cb d = Some (topic r, flags r AND BROKER_FLAGS_DELETE \<noteq> 0)"
    using labelsD [OF l nD(2)] by (metis option.inject)
  have "p \<noteq> NULL" using routes_ownedD(2) [OF route_okD(3) [OF ok] nD(2)] by simp
  then have "rib zh w (topic r) = (if flags r AND BROKER_FLAGS_DELETE \<noteq> 0 then None else Some d)"
    using all_hashedD [OF all ok nD(2)] nD(2) d by (simp add: rib_entry entry_def)
  then have new: "apply_msg cb d view (topic r) = rib zh ?w (topic r)" and
    old: "\<And>t. t \<noteq> topic r \<Longrightarrow> apply_msg cb d view t = view t"
    using top same by (simp_all add: apply_msg_def)
  show "rib zh ?w t = rib zh w t \<or> apply_msg cb d view t = rib zh ?w t \<or>
      (\<exists>p r. objs ?w p = Some r \<and> topic r = t \<and> awaits ?w rcl r)" for t
    using same by simp
  show "apply_msg cb d view t = view t \<or> apply_msg cb d view t = rib zh ?w t" for t
    using new old by (cases "t = topic r") auto
  fix q s
  assume q: "objs w q = Some s" "awaits w rcl s"
  show "apply_msg cb d view (topic s) = rib zh ?w (topic s) \<or>
      (\<exists>p' r'. objs ?w p' = Some r' \<and> topic r' = topic s \<and> awaits ?w rcl r')"
  proof (cases "q = p")
    case True
    then show ?thesis using q(1) nD(2) new by simp
  next
    case False
    have lv: "unat (pri s) < ROUTE_PRIORITY_MAX" using ok q(1) by (rule route_placedD)
    have "awaits ?w rcl s"
    proof (cases "unat (pri s) = i")
      case True
      then show ?thesis
        using next_for_first(2) [OF ok nx q(1) True q(2) False] by (simp add: awaits_def eq(2) nid_Cli)
    next
      case other: False
      then have "client rcl ! unat (pri s) \<noteq> client rcl ! i" using inj [OF lv rD(1)] by blast
      then show ?thesis using q(2) by (simp add: awaits_def eq(2) nid_Cli)
    qed
    then show ?thesis using q(1) False by (auto simp: eq(1))
  qed
qed

subsection \<open>Nothing to read\<close>

lemma no_await_find:
  assumes ok: "route_ok zh valid w" and r: "reader_at w rcl i br cl"
    and none: "find is_Obj (after (Cli (client rcl ! i)) (b_obj_list br)) = None"
    and q: "objs w q = Some s" "unat (pri s) = i"
  shows "\<not> awaits w rcl s"
proof
  assume aw: "awaits w rcl s"
  note rD = reader_atD [OF r]
  note wf = route_ok_broker [OF ok rD(2)]
  have cin: "Cli (client rcl ! i) \<in> set (b_obj_list br)" using broker_wf_client [OF wf rD(4)] by metis
  from ok q(1) obtain bs where "brks w (route_broker w ! unat (pri s)) = Some bs" "Obj q \<in> set (b_obj_list bs)"
    by (rule route_placedD)
  then have qin: "Obj q \<in> set (b_obj_list br)" using q(2) rD(2) by simp
  have "Obj q \<in> set (after (Cli (client rcl ! i)) (b_obj_list br))"
    using client_separates [OF wf cin qin] aw q by (simp add: awaits_def nid_def)
  then show False using none by (simp add: find_is_Obj_None)
qed

lemma in_sync_caught_up:
  assumes ok: "route_ok zh valid w" and r: "reader_at w rcl i br cl"
    and none: "find is_Obj (after (Cli (client rcl ! i)) (b_obj_list br)) = None"
    and sync: "in_sync zh w rcl' view"
    and inj: "\<And>j. j < ROUTE_PRIORITY_MAX \<Longrightarrow> client rcl' ! j = client rcl ! i \<Longrightarrow> rcl' = rcl \<and> j = i"
  shows "in_sync zh (caught_up br (client rcl ! i) cl w) rcl' view"
proof (rule in_sync_frame [OF sync])
  let ?w = "caught_up br (client rcl ! i) cl w"
  show "rib zh ?w = rib zh w" by (rule rib_cong) (simp_all add: caught_up_def)
  fix q s
  assume q: "objs w q = Some s" "awaits w rcl' s"
  have lv: "unat (pri s) < ROUTE_PRIORITY_MAX" using ok q(1) by (rule route_placedD)
  have "client rcl' ! unat (pri s) \<noteq> client rcl ! i"
    using inj [OF lv] no_await_find [OF ok r none q(1)] q(2) by blast
  then show "objs ?w q = Some s \<and> awaits ?w rcl' s"
    using q by (simp add: caught_up_def awaits_def nid_Cli)
qed

text \<open>A reader that is level with every broker has nothing to wait for.\<close>

lemma no_lag_no_await:
  assumes ok: "route_ok zh valid w" and rcl: "rcl_ok (level_clients w) rcl" and "first_lag w rcl = - 1"
    and q: "objs w q = Some s"
  shows "\<not> awaits w rcl s"
proof -
  from ok q obtain br where br: "unat (pri s) < ROUTE_PRIORITY_MAX"
    "brks w (route_broker w ! unat (pri s)) = Some br" "Obj q \<in> set (b_obj_list br)" by (rule route_placedD)
  from ok rcl br(1,2) obtain cl where cl: "clis w (client rcl ! unat (pri s)) = Some cl" by (rule client_at_level)
  have "\<not> lag w rcl (unat (pri s))"
    using assms(3) br(1) unfolding first_lag_def less_3 by (auto split: if_splits)
  then have "obj_id (cl_obj cl) = brk_id br" using br(2) cl by (auto simp: lag_def)
  moreover have "obj_id s \<le> brk_id br"
    using node_wfD(2) [OF broker_wfD(3) [OF route_ok_broker [OF ok br(2)] br(3)]] q by (simp add: nid_def)
  ultimately show ?thesis using cl by (simp add: awaits_def nid_Cli not_less)
qed

lemma in_sync_done:
  assumes "route_ok zh valid w" and "rcl_ok (level_clients w) rcl" and "first_lag w rcl = - 1"
    and "in_sync zh w rcl view"
  shows "view = rib zh w"
  using assms(4) no_lag_no_await [OF assms(1-3)] unfolding in_sync_def by blast

end
