(* ===== verification/Route_System.thy ===== *)
theory Route_System
  imports Route_Delivery
begin

text \<open>
  The route broker as a system: producers publish, consumers come, read and go, in any order. Every
  operation holds the mutex of the route broker, so a run is a sequence of whole operations.
\<close>

section \<open>Members and the table\<close>

lemma clients_levels:
  assumes ok: "route_ok zh valid w" and r: "rcl_ok (level_clients w) rcl" "rcl_ok (level_clients w) rcl'"
    and ij: "i < ROUTE_PRIORITY_MAX" "j < ROUTE_PRIORITY_MAX" and eq: "client rcl ! i = client rcl' ! j"
  shows "i = j"
proof -
  obtain bi where bi: "brks w (route_broker w ! i) = Some bi" using level_broker [OF route_okD(2) [OF ok] ij(1)] .
  obtain bj where bj: "brks w (route_broker w ! j) = Some bj" using level_broker [OF route_okD(2) [OF ok] ij(2)] .
  from ok r(1) ij(1) bi obtain cl where cl: "clis w (client rcl ! i) = Some cl" "cl_broker cl = route_broker w ! i"
    by (rule client_at_level)
  from ok r(2) ij(2) bj obtain cl' where "clis w (client rcl' ! j) = Some cl'" "cl_broker cl' = route_broker w ! j"
    by (rule client_at_level)
  then have "route_broker w ! i = route_broker w ! j" using cl eq by simp
  then show ?thesis using level_inj [OF route_okD(2) [OF ok] ij] by simp
qed

lemma registered_ok:
  assumes "route_ok zh valid w" and "rc \<in> set (client_list_head w)" and "rclis w rc = Some rcl"
  shows "rcl_ok (level_clients w) rcl"
  using clients_ok_ex [OF route_okD(6) [OF assms(1)] assms(2)] assms(3) by simp

lemma registered_alive:
  assumes "route_ok zh valid w" and "rcl_ok (level_clients w) rcl" and "i < ROUTE_PRIORITY_MAX"
  shows "clis w (client rcl ! i) \<noteq> None"
proof -
  obtain br cl where "reader_at w rcl i br cl" using reader_at_ex [OF assms] .
  then show ?thesis by (simp add: reader_at_def)
qed

text \<open>Joining.\<close>

lemma join_level_nid:
  "clis w c \<noteq> None \<Longrightarrow> c \<noteq> d \<Longrightarrow> nid (objs (join_level nm i d w)) (clis (join_level nm i d w)) (Cli c) = nid (objs w) (clis w) (Cli c)"
  by (simp add: nid_Cli join_level_def split: option.split)

lemma joined_frame [simp, frame_simps]:
  "objs (joined nm c0 c1 c2 w) = objs w" "datas (joined nm c0 c1 c2 w) = datas w"
  "route_hashtbl (joined nm c0 c1 c2 w) = route_hashtbl w" "rclis (joined nm c0 c1 c2 w) = rclis w"
  "client_list_head (joined nm c0 c1 c2 w) = client_list_head w"
  by (simp_all add: joined_def)

lemma registered_frame [simp, frame_simps]:
  "objs (registered rc cs w) = objs w" "datas (registered rc cs w) = datas w"
  "route_hashtbl (registered rc cs w) = route_hashtbl w" "clis (registered rc cs w) = clis w"
  by (simp_all add: registered_def)

lemma joined_rib: "rib zh (registered rc cs (joined nm c0 c1 c2 w)) = rib zh w"
  by (rule rib_cong) simp_all

lemma joined_nid:
  assumes "clis w c \<noteq> None" and "fresh_clients c0 c1 c2 w"
  shows "nid (objs (joined nm c0 c1 c2 w)) (clis (joined nm c0 c1 c2 w)) (Cli c) = nid (objs w) (clis w) (Cli c)"
proof -
  have ne: "c \<noteq> c0" "c \<noteq> c1" "c \<noteq> c2" using assms by (auto simp: fresh_clients_def)
  have a0: "clis (join_level nm 0 c0 w) c \<noteq> None" using assms(1) by (simp add: join_level_clis)
  have a1: "clis (join_level nm 1 c1 (join_level nm 0 c0 w)) c \<noteq> None" using a0 by (auto simp: join_level_clis)
  show ?thesis
    unfolding joined_def join_level_nid [OF a1 ne(3)] join_level_nid [OF a0 ne(2)] join_level_nid [OF assms(1) ne(1)] ..
qed

lemma in_sync_join_other:
  assumes ok: "route_ok zh valid w" and rcl: "rcl_ok (level_clients w) rcl" and f: "fresh_clients c0 c1 c2 w"
    and sync: "in_sync zh w rcl view"
  shows "in_sync zh (registered rc cs (joined nm c0 c1 c2 w)) rcl view"
proof (rule in_sync_frame [OF sync joined_rib])
  fix p r
  assume p: "objs w p = Some r" "awaits w rcl r"
  have "unat (pri r) < ROUTE_PRIORITY_MAX" using ok p(1) by (rule route_placedD)
  then show "objs (registered rc cs (joined nm c0 c1 c2 w)) p = Some r \<and>
      awaits (registered rc cs (joined nm c0 c1 c2 w)) rcl r"
    using p joined_nid [OF registered_alive [OF ok rcl] f, of "unat (pri r)" nm] by (simp add: awaits_def)
qed

text \<open>A new consumer has an empty table and waits for everything.\<close>

lemma join_level_new:
  assumes "brks w (route_broker w ! i) = Some br" and "Obj p \<in> set (b_obj_list br)"
  shows "nid (objs (join_level nm i c w)) (clis (join_level nm i c w)) (Cli c) = 0"
  using assms by (auto simp: nid_Cli join_level_def)

lemma join_level_queue:
  assumes "brks w b = Some br" and "Obj p \<in> set (b_obj_list br)"
  shows "\<exists>br. brks (join_level nm i c w) b = Some br \<and> Obj p \<in> set (b_obj_list br)"
  using assms by (auto simp: join_level_def split: option.split)

lemma joined_new:
  assumes ok: "route_ok zh valid w" and f: "fresh_clients c0 c1 c2 w" and p: "objs w p = Some r"
  shows "nid (objs (joined nm c0 c1 c2 w)) (clis (joined nm c0 c1 c2 w)) (Cli ([c0, c1, c2] ! unat (pri r))) = 0"
proof -
  let ?a = "join_level nm 0 c0 w"
  let ?b = "join_level nm 1 c1 ?a"
  from ok p obtain br where br: "unat (pri r) < 3" "brks w (route_broker w ! unat (pri r)) = Some br"
    "Obj p \<in> set (b_obj_list br)" by (rule route_placedD)
  obtain br1 where br1: "brks ?a (route_broker ?a ! unat (pri r)) = Some br1" "Obj p \<in> set (b_obj_list br1)"
    using join_level_queue [OF br(2,3)] by fastforce
  obtain br2 where br2: "brks ?b (route_broker ?b ! unat (pri r)) = Some br2" "Obj p \<in> set (b_obj_list br2)"
    using join_level_queue [OF br1] by fastforce
  have ne: "c0 \<noteq> c1" "c0 \<noteq> c2" "c1 \<noteq> c2" using f by (auto simp: fresh_clients_def)
  have lv: "\<exists>b. brks w (route_broker w ! j) = Some b" if "j < 3" for j
    using level_broker [OF route_okD(2) [OF ok] that] by metis
  consider "unat (pri r) = 0" | "unat (pri r) = 1" | "unat (pri r) = 2" using br(1) by (auto simp: less_3)
  then show ?thesis
  proof cases
    case 1
    have "nid (objs ?a) (clis ?a) (Cli c0) = 0" using join_level_new [of w 0] br 1 by simp
    moreover have "clis ?a c0 \<noteq> None" using lv [of 0] by (auto simp: join_level_clis)
    moreover have "clis ?b c0 \<noteq> None" using calculation(2) by (auto simp: join_level_clis)
    ultimately show ?thesis
      using ne 1 join_level_nid [of ?b c0 c2 nm 2] join_level_nid [of ?a c0 c1 nm 1]
      by (simp add: joined_def del: join_level_frame One_nat_def)
  next
    case 2
    have "nid (objs ?b) (clis ?b) (Cli c1) = 0" using join_level_new [of ?a 1 br1 p] br1 2 by simp
    moreover have "clis ?b c1 \<noteq> None" using br1 2 by (auto simp: join_level_clis)
    ultimately show ?thesis
      using ne 2 join_level_nid [of ?b c1 c2 nm 2] by (simp add: joined_def del: join_level_frame One_nat_def)
  next
    case 3
    then show ?thesis using join_level_new [of ?b 2 br2 p] br2 by (simp add: joined_def)
  qed
qed

lemma in_sync_attach:
  assumes ok: "route_ok zh valid w" and f: "fresh_clients c0 c1 c2 w"
    and rcl: "client rcl = [c0, c1, c2]"
  shows "in_sync zh (registered rc [c0, c1, c2] (joined nm c0 c1 c2 w)) rcl Map.empty"
  unfolding in_sync_def
proof
  fix t
  let ?w = "registered rc [c0, c1, c2] (joined nm c0 c1 c2 w)"
  show "Map.empty t = rib zh ?w t \<or> (\<exists>p r. objs ?w p = Some r \<and> topic r = t \<and> awaits ?w rcl r)"
  proof (cases "hashed zh w t = NULL")
    case True
    then show ?thesis by (simp add: joined_rib rib_entry)
  next
    case False
    from ok False obtain r b where r: "objs w (hashed zh w t) = Some r" "topic r = t" by (rule hashed_route)
    have "awaits ?w rcl r"
      using joined_new [OF ok f r(1), of nm] rcl route_hdr(2) [OF ok r(1)] by (simp add: awaits_def)
    then show ?thesis using r by auto
  qed
qed

text \<open>Leaving: what another consumer waits for stays.\<close>

context route_callbacks
begin

lemma leave_keeps:
  assumes ok: "route_ok zh valid w" and c: "can_leave i c w" and rcl: "rcl_ok (level_clients w) rcl"
    and ne: "client rcl ! i \<noteq> c" and q: "objs w q = Some s" "awaits w rcl s"
  shows "objs (leave zh i c w) q = Some s" "awaits (leave zh i c w) rcl s"
proof -
  have i: "i < ROUTE_PRIORITY_MAX" using c by (simp add: can_leave_def)
  obtain br where br: "brks w (route_broker w ! i) = Some br"
    using level_broker [OF route_okD(2) [OF ok] i] .
  have cin: "c \<in> set (b_client_list br)" using c br by (auto simp: can_leave_def level_clients_def)
  have eq: "leave zh i c w = leave_level zh (route_broker w ! i) br c w" by (simp add: leave_def br)
  from ok q(1) obtain bs where bs: "unat (pri s) < ROUTE_PRIORITY_MAX"
    "brks w (route_broker w ! unat (pri s)) = Some bs" "Obj q \<in> set (b_obj_list bs)" by (rule route_placedD)
  have c_at: "\<exists>cl. clis w c = Some cl \<and> cl_broker cl = route_broker w ! i"
    using broker_wf_client [OF route_ok_broker [OF ok br] cin] by metis
  have ne': "client rcl ! unat (pri s) \<noteq> c"
  proof
    assume e: "client rcl ! unat (pri s) = c"
    from ok rcl bs(1,2) obtain cl where "clis w (client rcl ! unat (pri s)) = Some cl"
      "cl_broker cl = route_broker w ! unat (pri s)" by (rule client_at_level)
    with c_at e have "route_broker w ! unat (pri s) = route_broker w ! i" by auto
    then show False using level_inj [OF route_okD(2) [OF ok] bs(1) i] ne e by simp
  qed
  show "awaits (leave zh i c w) rcl s"
    using q(2) ne' by (simp add: eq awaits_def leave_level_mem nid_Cli)
  have "q \<notin> set (leavers br c w)"
  proof
    assume "q \<in> set (leavers br c w)"
    then obtain r where r: "objs w q = Some r" "route_broker w ! i = route_broker w ! unat (pri r)"
      "\<forall>c' \<in> set (b_client_list br). c' \<noteq> c \<longrightarrow> obj_id r \<le> nid (objs w) (clis w) (Cli c')"
      using leavers_props(2) [OF ok br cin] by blast
    then have sr: "s = r" "unat (pri s) = i" using q(1) level_inj [OF route_okD(2) [OF ok] i bs(1)] by auto
    have "client rcl ! i \<in> set (b_client_list br)" using rcl i br by (auto simp: rcl_ok_def level_clients_def)
    then have "obj_id s \<le> nid (objs w) (clis w) (Cli (client rcl ! i))" using r(3) ne sr by blast
    then show False using q(2) sr by (simp add: awaits_def)
  qed
  then show "objs (leave zh i c w) q = Some s" using q(1) by (simp add: eq leave_level_mem free_all_def)
qed

lemma leave_rcl_ok:
  assumes ok: "route_ok zh valid w" and c: "can_leave i c w" and rcl: "rcl_ok (level_clients w) rcl"
    and ne: "client rcl ! i \<noteq> c"
  shows "rcl_ok (level_clients (leave zh i c w)) rcl"
proof -
  have i: "i < ROUTE_PRIORITY_MAX" using c by (simp add: can_leave_def)
  obtain br where br: "brks w (route_broker w ! i) = Some br"
    using level_broker [OF route_okD(2) [OF ok] i] .
  have eq: "leave zh i c w = leave_level zh (route_broker w ! i) br c w" by (simp add: leave_def br)
  have "level_clients (leave zh i c w) j = (if j = i then remove1 c (level_clients w j) else level_clients w j)"
    if "j < ROUTE_PRIORITY_MAX" for j
    using br level_inj [OF route_okD(2) [OF ok] that i] by (auto simp: level_clients_def eq leave_level_mem)
  then show ?thesis using rcl ne unfolding rcl_ok_def by (auto split: if_splits)
qed

lemma in_sync_leave:
  assumes ok: "route_ok zh valid w" and all: "all_hashed zh w" and c: "can_leave i c w"
    and rcl: "rcl_ok (level_clients w) rcl" and ne: "client rcl ! i \<noteq> c" and sync: "in_sync zh w rcl view"
  shows "in_sync zh (leave zh i c w) rcl view"
  by (rule in_sync_frame [OF sync leave_effect(3) [OF ok c all]]) (use leave_keeps [OF ok c rcl ne] in blast)

lemma labels_leave:
  assumes ok: "route_ok zh valid w" and c: "can_leave i c w" and l: "labels_ok cb w"
  shows "labels_ok cb (leave zh i c w)"
proof (rule labels_ok_cong [OF l])
  have i: "i < ROUTE_PRIORITY_MAX" using c by (simp add: can_leave_def)
  obtain br where br: "brks w (route_broker w ! i) = Some br"
    using level_broker [OF route_okD(2) [OF ok] i] .
  have cin: "c \<in> set (b_client_list br)" and un: "unregistered i c w"
    using c br by (auto simp: can_leave_def level_clients_def)
  have eq: "leave zh i c w = leave_level zh (route_broker w ! i) br c w" by (simp add: leave_def br)
  fix q s
  assume "objs (leave zh i c w) q = Some s"
  then have "objs w q = Some s" "q \<notin> set (leavers br c w)"
    by (auto simp: eq leave_level_mem free_all_def split: if_splits)
  then show "objs w q = Some s \<and> payload (leave zh i c w) q = payload w q"
    using leave_level_effect(4) [OF ok i br cin un] by (simp add: eq)
qed

text \<open>All three levels.\<close>

lemma left_sync:
  assumes ok: "route_ok zh valid w" and all: "all_hashed zh w" and l: "labels_ok cb w"
    and c: "\<And>i. i < ROUTE_PRIORITY_MAX \<Longrightarrow> can_leave i (cs ! i) w"
  shows "labels_ok cb (left zh cs w)"
    "rcl_ok (level_clients w) rcl \<Longrightarrow> (\<And>i. i < ROUTE_PRIORITY_MAX \<Longrightarrow> client rcl ! i \<noteq> cs ! i) \<Longrightarrow>
       in_sync zh w rcl view \<Longrightarrow> in_sync zh (left zh cs w) rcl view"
proof -
  let ?a = "leave zh 0 (cs ! 0) w"
  let ?b = "leave zh 1 (cs ! 1) ?a"
  have c0: "can_leave 0 (cs ! 0) w" using c by simp
  note e0 = leave_effect [OF ok c0]
  have c1: "can_leave 1 (cs ! 1) ?a" by (rule e0(8)) (use c in simp_all)
  note e1 = leave_effect [OF e0(1) c1]
  have c2: "can_leave 2 (cs ! 2) ?b" by (rule e1(8), rule e0(8)) (use c in simp_all)
  show "labels_ok cb (left zh cs w)"
    unfolding left_def by (intro labels_leave [OF e1(1) c2] labels_leave [OF e0(1) c1] labels_leave [OF ok c0] l)
  assume rcl: "rcl_ok (level_clients w) rcl" and ne: "\<And>i. i < ROUTE_PRIORITY_MAX \<Longrightarrow> client rcl ! i \<noteq> cs ! i"
    and sync: "in_sync zh w rcl view"
  have n: "client rcl ! 0 \<noteq> cs ! 0" "client rcl ! 1 \<noteq> cs ! 1" "client rcl ! 2 \<noteq> cs ! 2" using ne by simp_all
  note r0 = leave_rcl_ok [OF ok c0 rcl n(1)]
  note r1 = leave_rcl_ok [OF e0(1) c1 r0 n(2)]
  show "in_sync zh (left zh cs w) rcl view"
    unfolding left_def
    using in_sync_leave [OF e1(1) e1(2) [OF e0(2) [OF all]] c2 r1 n(3)]
      in_sync_leave [OF e0(1) e0(2) [OF all] c1 r0 n(2)] in_sync_leave [OF ok all c0 rcl n(1)] sync
    by blast
qed

end

section \<open>Starting\<close>

definition pristine :: "('d, 'h) route_mem \<Rightarrow> bool" where
  "pristine w \<longleftrightarrow> objs w = Map.empty \<and> clis w = Map.empty \<and> brks w = Map.empty \<and> \<not> inited w"

definition empty_broker :: broker where
  "empty_broker = \<lparr>b_obj_list = [], type_count = 1, b_client_list = [], brk_id = 0, imp_dels = 0\<rparr>"

lemma route_broker_init_eq:
  assumes "pristine w" and "distinct [m0, m1, m2]" and "m0 \<noteq> NULL" "m1 \<noteq> NULL" "m2 \<noteq> NULL"
    and "zhash_new zh = Some h"
  shows "route_broker_init zh cb m0 m1 m2 w =
    Some (0, w\<lparr>inited := True, broker_list_head := [m2, m1, m0],
              brks := [m0 \<mapsto> empty_broker, m1 \<mapsto> empty_broker, m2 \<mapsto> empty_broker],
              client_list_head := [], route_broker := [m0, m1, m2], route_hashtbl := Some h\<rparr>)"
  using assms
  by (simp add: pristine_def route_broker_init_def broker_create_def route_broker_ops_def
      circleq_insert_head_def empty_broker_def Let_def)

lemma route_broker_init_ok:
  assumes zh: "zhash zh" and p: "pristine w" and m: "distinct [m0, m1, m2]" "m0 \<noteq> NULL" "m1 \<noteq> NULL" "m2 \<noteq> NULL"
    and new: "zhash_new zh = Some h" and init: "route_broker_init zh cb m0 m1 m2 w = Some (rc, w')"
  shows "rc = 0" "route_ok zh valid w'" "all_hashed zh w'" "labels_ok cb w'" "rib zh w' = Map.empty"
    "client_list_head w' = []"
proof -
  have w': "rc = 0" "w' = w\<lparr>inited := True, broker_list_head := [m2, m1, m0],
      brks := [m0 \<mapsto> empty_broker, m1 \<mapsto> empty_broker, m2 \<mapsto> empty_broker],
      client_list_head := [], route_broker := [m0, m1, m2], route_hashtbl := Some h\<rparr>"
    using route_broker_init_eq [OF p m new] init by auto
  have o: "objs w' = Map.empty" "clis w' = Map.empty" "client_list_head w' = []"
    "brks w' = [m0 \<mapsto> empty_broker, m1 \<mapsto> empty_broker, m2 \<mapsto> empty_broker]"
    "route_broker w' = [m0, m1, m2]" "route_hashtbl w' = Some h"
    using p by (simp_all add: w'(2) pristine_def)
  have "brokers_ok (brks w') (objs w') (clis w')"
  proof -
    have "broker_ok b empty_broker (objs w') (clis w')" for b
      by (simp add: broker_ok_def broker_wf_def no_garbage_def clients_agree_def empty_broker_def)
    then show ?thesis by (auto simp: brokers_ok_def o(4) empty_broker_def split: if_splits)
  qed
  moreover have "levels_ok w'" using m by (auto simp: levels_ok_def o dom_def)
  moreover have "routes_owned valid None w'" by (simp add: routes_owned_def o)
  moreover have "hash_sound zh w'" using zhash.lookup_new [OF zh new] by (simp add: hash_sound_def o)
  ultimately show "route_ok zh valid w'" by (simp add: route_ok_def routes_placed_def clients_ok_def o)
  show "rc = 0" by (rule w')
  show "all_hashed zh w'" by (simp add: all_hashed_def o)
  show "labels_ok cb w'" by (simp add: labels_ok_def o)
  show "rib zh w' = Map.empty"
    using zhash.lookup_new [OF zh new] by (simp add: rib_entry hashed_def o fun_eq_iff)
  show "client_list_head w' = []" by (rule o)
qed

section \<open>Runs\<close>

text \<open>
  \<open>system zh cb valid norm rc w v\<close>: the memory \<open>w\<close> can be reached from start-up; \<open>v\<close> is the table
  of the consumer \<open>rc\<close>, \<open>None\<close> while it is not there. The premises next to an operation are what the
  environment owes: the allocator returns unused memory or \<open>NULL\<close>, messages are complete, no counter
  is at its end, and a delete does not come with a higher priority than the route it deletes. The
  read of the consumer itself is one whose copy could be allocated.
\<close>

inductive system ::
  "'h zhash_ops \<Rightarrow> 'd object_cbs \<Rightarrow> ('d \<Rightarrow> bool) \<Rightarrow> ('d \<Rightarrow> 'd) \<Rightarrow> ptr
    \<Rightarrow> ('d, 'h) route_mem \<Rightarrow> (string \<rightharpoonup> 'd) option \<Rightarrow> bool"
  for zh cb valid norm rc where
  init: "pristine w \<Longrightarrow> distinct [m0, m1, m2] \<Longrightarrow> m0 \<noteq> NULL \<Longrightarrow> m1 \<noteq> NULL \<Longrightarrow> m2 \<noteq> NULL \<Longrightarrow>
    zhash_new zh = Some h \<Longrightarrow> route_broker_init zh cb m0 m1 m2 w = Some (r, w') \<Longrightarrow>
    system zh cb valid norm rc w' None"
| publish: "system zh cb valid norm rc w v \<Longrightarrow> fresh_ptrs p dc w \<Longrightarrow> i < ROUTE_PRIORITY_MAX \<Longrightarrow>
    valid (norm d) \<Longrightarrow> stamps_left w \<Longrightarrow>
    (\<And>t del. topic_of cb (norm d) = Some (t, del) \<Longrightarrow> \<not> delete_overtakes zh t del i w) \<Longrightarrow>
    object_broker_publish zh cb d (int i) p dc w = Some w' \<Longrightarrow> system zh cb valid norm rc w' v"
| attach: "system zh cb valid norm rc w None \<Longrightarrow> fresh_clients c0 c1 c2 w \<Longrightarrow> rc \<noteq> NULL \<Longrightarrow> rclis w rc = None \<Longrightarrow>
    route_broker_client_create zh cb (Some nm) rc [(c0, True), (c1, True), (c2, True)] 0 w = Some (x, w') \<Longrightarrow>
    system zh cb valid norm rc w' (Some Map.empty)"
| read: "system zh cb valid norm rc w (Some view) \<Longrightarrow> m \<noteq> NULL \<Longrightarrow> datas w m = None \<Longrightarrow>
    route_broker_client_get_data zh cb rc m [] w = Some (Got x c, w') \<Longrightarrow>
    system zh cb valid norm rc w'
      (Some (case if x = NULL then None else datas w' x of None \<Rightarrow> view | Some d \<Rightarrow> apply_msg cb d view))"
| detach: "system zh cb valid norm rc w (Some view) \<Longrightarrow> route_broker_client_delete zh cb rc w = Some w' \<Longrightarrow>
    system zh cb valid norm rc w' None"
| other_attach: "system zh cb valid norm rc w v \<Longrightarrow> fresh_clients c0 c1 c2 w \<Longrightarrow> rc' \<noteq> NULL \<Longrightarrow> rc' \<noteq> rc \<Longrightarrow>
    rclis w rc' = None \<Longrightarrow>
    route_broker_client_create zh cb (Some nm) rc' [(c0, True), (c1, True), (c2, True)] 0 w = Some (x, w') \<Longrightarrow>
    system zh cb valid norm rc w' v"
| other_read: "system zh cb valid norm rc w v \<Longrightarrow> rc' \<in> set (client_list_head w) \<Longrightarrow> rc' \<noteq> rc \<Longrightarrow>
    free_or_null m w \<Longrightarrow> route_broker_client_get_data zh cb rc' m [] w = Some (Got x c, w') \<Longrightarrow>
    system zh cb valid norm rc w' v"
| other_detach: "system zh cb valid norm rc w v \<Longrightarrow> rc' \<in> set (client_list_head w) \<Longrightarrow> rc' \<noteq> rc \<Longrightarrow>
    route_broker_client_delete zh cb rc' w = Some w' \<Longrightarrow> system zh cb valid norm rc w' v"
| free: "system zh cb valid norm rc w v \<Longrightarrow> free_cell m w \<Longrightarrow> datas w m \<noteq> None \<Longrightarrow>
    route_broker_client_free_data cb rc' m w = Some w' \<Longrightarrow> system zh cb valid norm rc w' v"
| report: "system zh cb valid norm rc w v \<Longrightarrow> rclis w rc' = Some rcl \<Longrightarrow>
    system zh cb valid norm rc (w\<lparr>rclis := (rclis w)(rc' \<mapsto> rcl\<lparr>errors := errors rcl + 1\<rparr>)\<rparr>) v"

definition synced ::
  "'h zhash_ops \<Rightarrow> ptr \<Rightarrow> ('d, 'h) route_mem \<Rightarrow> (string \<rightharpoonup> 'd) option \<Rightarrow> bool" where
  "synced zh rc w v \<longleftrightarrow>
     (\<forall>view. v = Some view \<longrightarrow>
        rc \<in> set (client_list_head w) \<and> (\<exists>rcl. rclis w rc = Some rcl \<and> in_sync zh w rcl view))"

definition system_ok ::
  "'h zhash_ops \<Rightarrow> 'd object_cbs \<Rightarrow> ('d \<Rightarrow> bool) \<Rightarrow> ptr \<Rightarrow> ('d, 'h) route_mem \<Rightarrow> (string \<rightharpoonup> 'd) option \<Rightarrow> bool" where
  "system_ok zh cb valid rc w v \<longleftrightarrow>
     route_ok zh valid w \<and> all_hashed zh w \<and> labels_ok cb w \<and> synced zh rc w v"

lemma system_okD:
  assumes "system_ok zh cb valid rc w v"
  shows "route_ok zh valid w" "all_hashed zh w" "labels_ok cb w" "synced zh rc w v"
  using assms by (auto simp: system_ok_def)

lemma in_sync_client:
  assumes "in_sync zh w rcl view" and "client rcl' = client rcl" and "objs w' = objs w" and "clis w' = clis w"
    and "rib zh w' = rib zh w"
  shows "in_sync zh w' rcl' view"
  using assms by (simp add: in_sync_def awaits_def)

lemma not_listed:
  "route_ok zh valid w \<Longrightarrow> rclis w rc = None \<Longrightarrow> rc \<notin> set (client_list_head w)"
  using clients_ok_ex [OF route_okD(6)] by fastforce

lemma all_hashed_same:
  "all_hashed zh w \<Longrightarrow> route_hashtbl w' = route_hashtbl w \<Longrightarrow> objs w' = objs w \<Longrightarrow> all_hashed zh w'"
  by (simp add: all_hashed_def)

lemma labels_same:
  "labels_ok cb w \<Longrightarrow> objs w' = objs w \<Longrightarrow> datas w' = datas w \<Longrightarrow> labels_ok cb w'"
  by (erule labels_ok_cong) (simp add: payload_def)

lemma woken_frame [simp, frame_simps]:
  "objs (woken w rcs) = objs w" "clis (woken w rcs) = clis w" "datas (woken w rcs) = datas w"
  "route_hashtbl (woken w rcs) = route_hashtbl w" "client_list_head (woken w rcs) = client_list_head w"
  by (simp_all add: woken_def)

lemma synced_same_members:
  assumes "synced zh rc w v" and s: "same_members w w'"
  shows "synced zh rc w' v"
  unfolding synced_def
proof (intro allI impI)
  fix view
  assume "v = Some view"
  then obtain rcl where r: "rc \<in> set (client_list_head w)" "rclis w rc = Some rcl" "in_sync zh w rcl view"
    using assms by (auto simp: synced_def)
  obtain rs where w': "w' = w\<lparr>rclis := rs\<rparr>" and "map_option client (rs rc) = map_option client (rclis w rc)"
    using s by (auto simp: same_members_def)
  then obtain rcl' where rcl': "rs rc = Some rcl'" "client rcl' = client rcl" using r(2) by auto
  have "in_sync zh w' rcl' view"
  proof (rule in_sync_client [OF r(3) rcl'(2)])
    show "rib zh w' = rib zh w" by (rule rib_cong) (simp_all add: w')
  qed (simp_all add: w')
  then show "rc \<in> set (client_list_head w') \<and> (\<exists>rcl. rclis w' rc = Some rcl \<and> in_sync zh w' rcl view)"
    using r(1) rcl'(1) by (simp add: w')
qed

lemma synced_woken:
  assumes "synced zh rc w v"
  shows "synced zh rc (woken w rcs) v"
  using assms same_members_woken by (rule synced_same_members)

lemma system_ok_same_members:
  assumes "system_ok zh cb valid rc w v" and s: "same_members w w'"
  shows "system_ok zh cb valid rc w' v"
proof -
  note ID = system_okD [OF assms(1)]
  obtain rs where w': "w' = w\<lparr>rclis := rs\<rparr>" using s by (auto simp: same_members_def)
  show ?thesis
    unfolding system_ok_def
    using route_ok_same_members [OF ID(1) s] synced_same_members [OF ID(4) s] ID(2,3)
    by (auto simp: w' intro: all_hashed_same labels_same)
qed

context route_callbacks
begin

lemma synced_keep:
  assumes "synced zh rc w v" and "client_list_head w' = client_list_head w" and "rclis w' = rclis w"
    and "\<And>rs view. rc \<in> set (client_list_head w) \<Longrightarrow> rclis w rc = Some rs \<Longrightarrow> in_sync zh w rs view \<Longrightarrow> in_sync zh w' rs view"
  shows "synced zh rc w' v"
  using assms unfolding synced_def by metis

lemma system_publish:
  assumes I: "system_ok zh cb valid rc w v" and f: "fresh_ptrs p dc w" and i: "i < ROUTE_PRIORITY_MAX"
    and d: "valid (norm d)" and room: "stamps_left w"
    and no: "\<And>t del. topic_of cb (norm d) = Some (t, del) \<Longrightarrow> \<not> delete_overtakes zh t del i w"
    and p: "object_broker_publish zh cb d (int i) p dc w = Some w'"
  shows "system_ok zh cb valid rc w' v"
proof -
  note ID = system_okD [OF I]
  let ?u = "w\<lparr>processed_msg := processed_msg w + 1\<rparr>"
  have u: "route_ok zh valid ?u" "all_hashed zh ?u" "labels_ok cb ?u" "fresh_ptrs p dc ?u" "stamps_left ?u"
    using ID f room by (auto intro: all_hashed_same labels_same)
  note eq = object_broker_publish_eq [OF ID(1) f i d room]
  show ?thesis
  proof (cases "topic_of cb (norm d)")
    case None
    then have w': "w' = ?u\<lparr>ignored_msg := ignored_msg w + 1\<rparr>" using eq p by simp
    have rib: "rib zh w' = rib zh w" by (rule rib_cong) (simp_all add: w')
    have "synced zh rc w' v"
      using ID(4) in_sync_client [where w = w and w' = w'] rib by (fastforce simp: synced_def w')
    then show ?thesis
      using u by (auto simp: system_ok_def w' intro: all_hashed_same labels_same)
  next
    case (Some td)
    obtain t del where td: "td = (t, del)" by (cases td)
    let ?e = "publish_effect zh t del i p dc (norm d) ?u"
    have w': "w' = woken ?e (client_list_head w)" using eq p Some td by simp
    have no': "\<not> delete_overtakes zh t del i ?u"
      using no Some td by (simp add: delete_overtakes_def level_of_def)
    have oke: "route_ok zh valid ?e" by (rule route_ok_publish_effect [OF zhash_axioms u(1,4) i d u(5)])
    have alle: "all_hashed zh ?e" by (rule all_hashed_publish_effect [OF zhash_axioms u(1,2,4) i d u(5) no'])
    have labe: "labels_ok cb ?e"
      using Some td by (intro labels_publish_effect [OF zhash_axioms u(1,4) i d _ u(3) no']) simp
    have "synced zh rc ?e v"
    proof (rule synced_keep [OF ID(4)])
      fix rcl view
      assume r: "rc \<in> set (client_list_head w)" "rclis w rc = Some rcl" "in_sync zh w rcl view"
      have rok: "rcl_ok (level_clients ?u) rcl" using registered_ok [OF ID(1) r(1,2)] by simp
      have "in_sync zh ?u rcl view" by (rule in_sync_client [OF r(3)]) (auto intro: rib_cong)
      then show "in_sync zh ?e rcl view" by (rule in_sync_publish [OF zhash_axioms u(1,4) i d u(5) rok])
    qed (simp_all add: fun_eq_iff)
    then show ?thesis
      using route_ok_woken [OF oke] alle labe synced_woken
      by (auto simp: system_ok_def w' intro: all_hashed_same labels_same)
  qed
qed

text \<open>What a read comes to: nothing found, or the oldest route that waits on the first level that lags.\<close>

lemma read_cases:
  assumes ok: "route_ok zh valid w" and rcl: "rcl_ok (level_clients w) rcl" "rclis w rc = Some rcl"
    and m: "free_or_null m w" and g: "route_broker_client_get_data zh cb rc m waits w = Some (Got x c, w')"
    and lag: "first_lag w rcl \<ge> 0"
  obtains (none) i br cl where "reader_at w rcl i br cl" "first_lag w rcl = int i"
      "find is_Obj (after (Cli (client rcl ! i)) (b_obj_list br)) = None"
      "x = NULL" "c = client rcl ! i" "w' = caught_up br (client rcl ! i) cl w"
  | (some) i br cl p r d where "next_for (copied m d w) rcl i br cl p r" "first_lag w rcl = int i"
      "datas w (data r) = Some d" "x = m" "c = client rcl ! i" "w' = read_mem zh (copied m d w) rcl i br cl p"
proof -
  obtain i where i: "first_lag w rcl = int i" "i < ROUTE_PRIORITY_MAX"
    using lag by (cases rule: first_lag_cases [of w rcl]) auto
  obtain br cl where r: "reader_at w rcl i br cl" using reader_at_ex [OF ok rcl(1) i(2)] .
  note gl = get_data_level [OF ok rcl i(1) r, of m waits]
  show thesis
  proof (cases "find is_Obj (after (Cli (client rcl ! i)) (b_obj_list br))")
    case None
    then show thesis
      using none [OF r i(1)] g gl level_get_none [OF ok r None] by auto
  next
    case (Some n)
    from ok r Some obtain p ro where n: "n = Obj p" "next_for w rcl i br cl p ro" by (rule next_for_ex)
    note nD = next_forD [OF n(2)]
    from ok nD(2) obtain d where d: "datas w (data ro) = Some d" by (rule route_payload)
    have "next_for (copied m d w) rcl i br cl p ro" using n(2) by (simp add: next_for_def reader_at_def)
    then show thesis
      using some [OF _ i(1) d] g gl level_get_some [OF ok r m nD(4,2) d] by auto
  qed
qed

lemma read_lags:
  assumes ok: "route_ok zh valid w" and rcl: "rcl_ok (level_clients w) rcl" "rclis w rc = Some rcl"
    and g: "route_broker_client_get_data zh cb rc m [] w = Some (Got x c, w')"
  shows "first_lag w rcl \<ge> 0"
  using data_available_eq [OF ok rcl] g by (auto split: if_splits)

lemma copied_ok:
  assumes I: "system_ok zh cb valid rc w v" and m: "free_or_null m w"
  shows "system_ok zh cb valid rc (copied m d w) v"
proof -
  note ID = system_okD [OF I]
  have pay: "payload (copied m d w) q = payload w q" for q
    using free_or_null_data [OF ID(1) m, of q] by (cases "objs w q") (auto simp: payload_def copied_def)
  have rib: "rib zh (copied m d w) = rib zh w"
  proof -
    have "hashed zh (copied m d w) = hashed zh w" by (simp add: hashed_def fun_eq_iff)
    moreover have "entry (copied m d w) q = entry w q" for q by (rule entry_payload) (simp_all add: pay)
    ultimately show ?thesis by (simp add: rib_entry fun_eq_iff)
  qed
  have "labels_ok cb (copied m d w)" by (rule labels_ok_cong [OF ID(3)]) (simp add: pay)
  moreover have "synced zh rc (copied m d w) v"
    using ID(4) in_sync_client [where w = w and w' = "copied m d w"] rib by (fastforce simp: synced_def)
  ultimately show ?thesis
    using route_ok_copied [OF ID(1) m] ID(2) by (auto simp: system_ok_def intro: all_hashed_same)
qed

lemma reader_next:
  "next_for w rcl i br cl p r \<Longrightarrow> rcl_ok (level_clients w) rcl' \<Longrightarrow> route_ok zh valid w \<Longrightarrow> \<exists>cl'. reader_at w rcl' i br cl'"
  using reader_at_ex [of zh valid w rcl' i] next_forD(1) [of w rcl i br cl p r]
  by (metis (no_types, lifting) option.inject reader_atD(1,2))

lemma other_client:
  assumes ok: "route_ok zh valid w" and rc: "rc \<in> set (client_list_head w)" "rclis w rc = Some rs"
    and rc': "rc' \<in> set (client_list_head w)" "rclis w rc' = Some rcl" "rc' \<noteq> rc"
    and i: "i < ROUTE_PRIORITY_MAX" "j < ROUTE_PRIORITY_MAX"
  shows "client rs ! j \<noteq> client rcl ! i"
proof
  assume e: "client rs ! j = client rcl ! i"
  have "j = i" by (rule clients_levels [OF ok registered_ok [OF ok rc] registered_ok [OF ok rc'(1,2)] i(2,1) e])
  then show False using clients_ok_inj [OF route_okD(6) [OF ok] rc(1) rc'(1) i(1) rc(2) rc'(2)] e rc'(3) by blast
qed

text \<open>What another consumer reads does not change what this one has been given and is still owed.\<close>

lemma in_sync_other_read:
  assumes ok: "route_ok zh valid w" and hashed: "all_hashed zh w" and nx: "next_for w rcl i br cl p r"
    and rs: "rcl_ok (level_clients w) rs" "in_sync zh w rs view"
    and ne: "\<And>j. j < ROUTE_PRIORITY_MAX \<Longrightarrow> client rs ! j \<noteq> client rcl ! i"
  shows "in_sync zh (read_mem zh w rcl i br cl p) rs view"
proof (rule in_sync_frame [OF rs(2) read_mem_table(1) [OF zhash_axioms ok hashed nx]])
  fix q s
  assume q: "objs w q = Some s" "awaits w rs s"
  obtain cs where cs: "reader_at w rs i br cs" using reader_next [OF nx rs(1) ok] by blast
  have "unat (pri s) < ROUTE_PRIORITY_MAX" using ok q(1) by (rule route_placedD)
  then show "objs (read_mem zh w rcl i br cl p) q = Some s \<and> awaits (read_mem zh w rcl i br cl p) rs s"
    using read_mem_keeps [OF nx cs ne [OF reader_atD(1) [OF next_forD(1) [OF nx]]] ne q] by blast
qed

lemma system_other_read:
  assumes I: "system_ok zh cb valid rc w v" and rc': "rc' \<in> set (client_list_head w)" "rc' \<noteq> rc"
    and m: "free_or_null m w" and g: "route_broker_client_get_data zh cb rc' m [] w = Some (Got x c, w')"
  shows "system_ok zh cb valid rc w' v"
proof -
  note ID = system_okD [OF I]
  obtain rcl where rcl: "rclis w rc' = Some rcl" "rcl_ok (level_clients w) rcl"
    using clients_ok_ex [OF route_okD(6) [OF ID(1)] rc'(1)] by blast
  note other = other_client [OF ID(1) _ _ rc'(1) rcl(1) rc'(2)]
  from ID(1) rcl(2,1) m g read_lags [OF ID(1) rcl(2,1) g] show ?thesis
  proof (cases rule: read_cases)
    case (none i br cl)
    note rD = reader_atD [OF none(1)]
    have "synced zh rc w' v"
      unfolding none(6)
    proof (rule synced_keep [OF ID(4)])
      show "in_sync zh (caught_up br (client rcl ! i) cl w) rs view"
        if "rc \<in> set (client_list_head w)" "rclis w rc = Some rs" "in_sync zh w rs view" for rs view
        by (rule in_sync_caught_up [OF ID(1) none(1,3) that(3)]) (use other [OF that(1,2) rD(1)] in blast)
    qed (simp_all add: caught_up_def)
    then show ?thesis
      using route_ok_caught_up [OF ID(1) rD(2,4,3) none(3)] ID(2,3)
      by (auto simp: system_ok_def none(6) caught_up_def intro: all_hashed_same labels_same)
  next
    case (some i br cl p r d)
    note UD = system_okD [OF copied_ok [OF I m, of d]]
    note nD = next_forD [OF some(1)]
    note rD = reader_atD [OF nD(1)]
    have "synced zh rc w' v"
      unfolding some(6)
    proof (rule synced_keep [OF UD(4)])
      show "in_sync zh (read_mem zh (copied m d w) rcl i br cl p) rs view"
        if "rc \<in> set (client_list_head (copied m d w))" "rclis (copied m d w) rc = Some rs" "in_sync zh (copied m d w) rs view" for rs view
        using registered_ok [OF UD(1) that(1,2)] that other [of rs, OF _ _ rD(1)]
        by (intro in_sync_other_read [OF UD(1,2) some(1)]) auto
    qed (rule read_mem_eq(6,5) [OF some(1)])+
    then show ?thesis
      using route_ok_delivered [OF zhash_axioms UD(1) rD(2,4,3) nD(4)] labels_read [OF UD(1,3) some(1)]
        read_mem_table(2) [OF zhash_axioms UD(1,2) some(1)]
      by (simp add: system_ok_def some(6))
  qed
qed

end

end
