(* ===== verification/Route_Runs.thy ===== *)
theory Route_Runs
  imports Route_System
begin

text \<open>
  The remaining operations of a run keep the invariant \<open>system_ok\<close>, so it holds in every state
  that can be reached. From it follow the statements on whole runs: what a consumer that has read
  everything knows, and that no operation faults.
\<close>

section \<open>Operations of the consumer\<close>

lemma syncedD:
  assumes "synced zh rc w (Some view)"
  obtains rcl where "rc \<in> set (client_list_head w)" "rclis w rc = Some rcl" "in_sync zh w rcl view"
  using assms unfolding synced_def by blast

lemma syncedI:
  "rc \<in> set (client_list_head w) \<Longrightarrow> rclis w rc = Some rcl \<Longrightarrow> in_sync zh w rcl view \<Longrightarrow> synced zh rc w (Some view)"
  unfolding synced_def by blast

lemma synced_None [simp]: "synced zh rc w None"
  by (simp add: synced_def)

lemma synced_map:
  assumes s: "synced zh rc w v" and c: "\<And>x. x \<in> set (client_list_head w) \<Longrightarrow> x = rc \<Longrightarrow> x \<in> set (client_list_head w')"
    and r: "\<And>rcl. rclis w rc = Some rcl \<Longrightarrow> rclis w' rc = Some rcl"
    and i: "\<And>rcl view. rc \<in> set (client_list_head w) \<Longrightarrow> rclis w rc = Some rcl \<Longrightarrow> in_sync zh w rcl view \<Longrightarrow> in_sync zh w' rcl view"
  shows "synced zh rc w' v"
proof (cases v)
  case (Some view)
  with s obtain rcl where "rc \<in> set (client_list_head w)" "rclis w rc = Some rcl" "in_sync zh w rcl view"
    by (auto elim: syncedD)
  then show ?thesis using c [of rc] r [of rcl] i [of rcl view] Some by (auto intro: syncedI)
qed simp

context route_callbacks
begin

lemma system_read:
  assumes I: "system_ok zh cb valid rc w (Some view)" and m: "m \<noteq> NULL" "datas w m = None"
    and g: "route_broker_client_get_data zh cb rc m [] w = Some (Got x c, w')"
  shows "system_ok zh cb valid rc w'
      (Some (case if x = NULL then None else datas w' x of None \<Rightarrow> view | Some d \<Rightarrow> apply_msg cb d view))"
proof -
  note ID = system_okD [OF I]
  from ID(4) obtain rcl where rcl: "rc \<in> set (client_list_head w)" "rclis w rc = Some rcl" by (rule syncedD)
  have rok: "rcl_ok (level_clients w) rcl" by (rule registered_ok [OF ID(1) rcl])
  have inj: "j = k" if "j < ROUTE_PRIORITY_MAX" "k < ROUTE_PRIORITY_MAX" "client rcl ! j = client rcl ! k" for j k
    using clients_levels [OF ID(1) rok rok that] .
  have mf: "free_or_null m w" using m by (simp add: free_or_null_def)
  have sync: "in_sync zh w rcl view" using ID(4) rcl by (auto elim: syncedD)
  from ID(1) rok rcl(2) mf g read_lags [OF ID(1) rok rcl(2) g] show ?thesis
  proof (cases rule: read_cases)
    case (none i br cl)
    note rD = reader_atD [OF none(1)]
    have "in_sync zh w' rcl view"
      unfolding none(6) by (rule in_sync_caught_up [OF ID(1) none(1,3) sync]) (use inj rD(1) in blast)
    then have "synced zh rc w' (Some view)" using rcl by (intro syncedI) (simp_all add: none(6) caught_up_def)
    then show ?thesis
      using route_ok_caught_up [OF ID(1) rD(2,4,3) none(3)] ID(2,3)
      by (auto simp: system_ok_def none(4,6) caught_up_def intro: all_hashed_same labels_same)
  next
    case (some i br cl p r d)
    let ?u = "copied m d w"
    note UD = system_okD [OF copied_ok [OF I mf, of d]]
    note nD = next_forD [OF some(1)]
    note rD = reader_atD [OF nD(1)]
    note eq = read_mem_eq [OF some(1), of zh]
    have "objs w p = Some r" using nD(2) by simp
    then have ne: "data r \<noteq> m" using some(3) m(2) by auto
    then have d: "datas ?u (data r) = Some d" using some(3) by (simp add: copied_def)
    have syncu: "in_sync zh ?u rcl view" using UD(4) rcl by (auto elim: syncedD)
    have "in_sync zh w' rcl (apply_msg cb d view)"
      unfolding some(6) by (rule in_sync_read_own [OF zhash_axioms UD(1,2,3) some(1) syncu inj d])
    then have s: "synced zh rc w' (Some (apply_msg cb d view))"
      using rcl eq(5,6) unfolding some(6) by (intro syncedI) simp_all
    have "datas w' m = Some d"
      using eq(3) ne m(1) unfolding some(6) by (simp add: copied_def)
    then show ?thesis
      using s route_ok_delivered [OF zhash_axioms UD(1) rD(2,4,3) nD(4)] labels_read [OF UD(1,3) some(1)]
        read_mem_table(2) [OF zhash_axioms UD(1,2) some(1)] m(1) some(4)
      by (simp add: system_ok_def some(6))
  qed
qed

lemma attached_ok:
  assumes I: "system_ok zh cb valid rc w v" and f: "fresh_clients c0 c1 c2 w" and rc: "rclis w rc' = None"
    and w': "w' = registered rc' [c0, c1, c2] (joined nm c0 c1 c2 w)"
  shows "route_ok zh valid w'" "all_hashed zh w'" "labels_ok cb w'"
proof -
  note ID = system_okD [OF I]
  show "route_ok zh valid w'"
    unfolding w' by (rule route_ok_registered [OF ID(1) f not_listed [OF ID(1) rc] rc])
  show "all_hashed zh w'" by (rule all_hashed_same [OF ID(2)]) (simp_all add: w')
  show "labels_ok cb w'" by (rule labels_same [OF ID(3)]) (simp_all add: w')
qed

lemma system_attach:
  assumes I: "system_ok zh cb valid rc w None" and f: "fresh_clients c0 c1 c2 w" and rc: "rc \<noteq> NULL" "rclis w rc = None"
    and g: "route_broker_client_create zh cb (Some nm) rc [(c0, True), (c1, True), (c2, True)] 0 w = Some (x, w')"
  shows "system_ok zh cb valid rc w' (Some Map.empty)"
proof -
  note ID = system_okD [OF I]
  have w': "w' = registered rc [c0, c1, c2] (joined nm c0 c1 c2 w)"
    using client_create_eq [OF ID(1) f rc(1), where nm = nm and cb = cb] g by simp
  let ?rcl = "\<lparr>client = [c0, c1, c2], client_cond = False, errors = 0\<rparr>"
  have "in_sync zh w' ?rcl Map.empty" unfolding w' by (rule in_sync_attach [OF ID(1) f]) simp
  then have "synced zh rc w' (Some Map.empty)" by (intro syncedI) (simp_all add: w' registered_def)
  then show ?thesis using attached_ok [OF I f rc(2) w'] by (simp add: system_ok_def)
qed

lemma system_other_attach:
  assumes I: "system_ok zh cb valid rc w v" and f: "fresh_clients c0 c1 c2 w"
    and rc: "rc' \<noteq> NULL" "rc' \<noteq> rc" "rclis w rc' = None"
    and g: "route_broker_client_create zh cb (Some nm) rc' [(c0, True), (c1, True), (c2, True)] 0 w = Some (x, w')"
  shows "system_ok zh cb valid rc w' v"
proof -
  note ID = system_okD [OF I]
  have w': "w' = registered rc' [c0, c1, c2] (joined nm c0 c1 c2 w)"
    using client_create_eq [OF ID(1) f rc(1), where nm = nm and cb = cb] g by simp
  have "synced zh rc w' v"
  proof (rule synced_map [OF ID(4)])
    fix rcl view
    assume r: "rc \<in> set (client_list_head w)" "rclis w rc = Some rcl" "in_sync zh w rcl view"
    show "in_sync zh w' rcl view"
      unfolding w' by (rule in_sync_join_other [OF ID(1) registered_ok [OF ID(1) r(1,2)] f r(3)])
  qed (use rc(2) in \<open>auto simp: w' registered_def\<close>)
  then show ?thesis using attached_ok [OF I f rc(3) w'] by (simp add: system_ok_def)
qed

lemma detached_ok:
  assumes I: "system_ok zh cb valid rc w v" and rc: "rc' \<in> set (client_list_head w)" "rclis w rc' = Some rcl"
  defines "w' \<equiv> (left zh (client rcl) (unlisted rc' w))\<lparr>rclis := (rclis w)(rc' := None)\<rparr>"
  shows "route_ok zh valid w'" "all_hashed zh w'" "labels_ok cb w'" "rc' \<notin> set (client_list_head w')"
    "client_list_head w' = remove1 rc' (client_list_head w)"
proof -
  note ID = system_okD [OF I]
  let ?u = "unlisted rc' w"
  have oku: "route_ok zh valid ?u" by (rule route_ok_unlisted [OF ID(1)])
  have cl: "\<And>i. i < ROUTE_PRIORITY_MAX \<Longrightarrow> can_leave i (client rcl ! i) ?u"
    by (rule can_leave_unlisted [OF ID(1) rc])
  note le = left_effect [OF oku cl]
  have head: "client_list_head (left zh (client rcl) ?u) = remove1 rc' (client_list_head w)"
    using le(6) by (simp add: unlisted_def)
  have "distinct (client_list_head w)" using route_okD(6) [OF ID(1)] by (simp add: clients_ok_def)
  then have out: "rc' \<notin> set (client_list_head (left zh (client rcl) ?u))" by (simp add: head)
  have rcs: "rclis (left zh (client rcl) ?u) = rclis w" using le(5) by (simp add: unlisted_def)
  show "route_ok zh valid w'"
    unfolding w'_def rcs [symmetric] by (rule route_ok_forget [OF left_effect(1) [OF oku cl] out])
  have au: "all_hashed zh ?u" by (rule all_hashed_same [OF ID(2)]) (simp_all add: unlisted_def)
  have "all_hashed zh (left zh (client rcl) ?u)" by (rule left_effect(2) [OF oku cl au])
  then show "all_hashed zh w'" by (rule all_hashed_same) (simp_all add: w'_def)
  have "labels_ok cb ?u" by (rule labels_same [OF ID(3)]) (simp_all add: unlisted_def)
  with au have "labels_ok cb (left zh (client rcl) ?u)"
    by (intro left_sync(1) [OF oku] cl)
  then show "labels_ok cb w'" by (rule labels_same) (simp_all add: w'_def)
  show "rc' \<notin> set (client_list_head w')" "client_list_head w' = remove1 rc' (client_list_head w)"
    using out head by (simp_all add: w'_def)
qed

lemma system_detach:
  assumes I: "system_ok zh cb valid rc w v" and rc: "rc \<in> set (client_list_head w)" "rclis w rc = Some rcl"
    and g: "route_broker_client_delete zh cb rc w = Some w'"
  shows "system_ok zh cb valid rc w' None"
  using detached_ok [OF I rc] client_delete_eq [OF system_okD(1) [OF I] rc] g by (simp add: system_ok_def)

lemma system_other_detach:
  assumes I: "system_ok zh cb valid rc w v" and rc: "rc' \<in> set (client_list_head w)" "rc' \<noteq> rc"
    and g: "route_broker_client_delete zh cb rc' w = Some w'"
  shows "system_ok zh cb valid rc w' v"
proof -
  note ID = system_okD [OF I]
  obtain rcl where rcl: "rclis w rc' = Some rcl" using clients_ok_ex [OF route_okD(6) [OF ID(1)] rc(1)] by blast
  let ?u = "unlisted rc' w"
  let ?l = "left zh (client rcl) ?u"
  have w': "w' = ?l\<lparr>rclis := (rclis w)(rc' := None)\<rparr>"
    using client_delete_eq [OF ID(1) rc(1) rcl] g by simp
  have oku: "route_ok zh valid ?u" by (rule route_ok_unlisted [OF ID(1)])
  have u: "all_hashed zh ?u" "labels_ok cb ?u" "level_clients ?u = level_clients w"
    using all_hashed_same [OF ID(2), of ?u] labels_same [OF ID(3), of ?u] level_clients_cong [of ?u w]
    by (simp_all add: unlisted_def)
  have "synced zh rc w' v"
  proof (rule synced_map [OF ID(4)])
    fix rs view
    assume r: "rc \<in> set (client_list_head w)" "rclis w rc = Some rs" "in_sync zh w rs view"
    have su: "in_sync zh ?u rs view"
      by (rule in_sync_client [OF r(3)]) (auto simp: unlisted_def intro: rib_cong)
    have rok: "rcl_ok (level_clients ?u) rs" using registered_ok [OF ID(1) r(1,2)] u(3) by simp
    have ne: "client rs ! i \<noteq> client rcl ! i" if "i < ROUTE_PRIORITY_MAX" for i
      using clients_ok_inj [OF route_okD(6) [OF ID(1)] r(1) rc(1) that r(2) rcl] rc(2) by blast
    have "in_sync zh ?l rs view"
      by (rule left_sync(2) [OF oku u(1,2) can_leave_unlisted [OF ID(1) rc(1) rcl] rok ne su])
    then show "in_sync zh w' rs view"
      by (rule in_sync_client) (auto simp: w' intro: rib_cong)
  qed (use rc(2) detached_ok(5) [OF I rc(1) rcl] in \<open>auto simp: w'\<close>)
  then show ?thesis using detached_ok [OF I rc(1) rcl] by (simp add: system_ok_def w')
qed

lemma system_free:
  assumes I: "system_ok zh cb valid rc w v" and m: "free_cell m w" "datas w m \<noteq> None"
    and g: "route_broker_client_free_data cb rc' m w = Some w'"
  shows "system_ok zh cb valid rc w' v"
proof -
  note ID = system_okD [OF I]
  have w': "w' = w\<lparr>datas := (datas w)(m := None)\<rparr>"
    using g free [of m "datas w"] m by (simp add: route_broker_client_free_data_def free_data_def free_cell_def)
  have keep: "((datas w)(m := None)) (data r) = datas w (data r)" if "objs w p = Some r" for p r
    using m(1) that by (auto simp: free_cell_def)
  have pay: "payload w' q = payload w q" for q
    using keep by (cases "objs w q") (auto simp: payload_def w')
  have rib: "rib zh w' = rib zh w"
  proof -
    have "hashed zh w' = hashed zh w" by (simp add: hashed_def fun_eq_iff w')
    moreover have "entry w' q = entry w q" for q by (rule entry_payload) (simp_all add: pay, simp add: w')
    ultimately show ?thesis by (simp add: rib_entry fun_eq_iff)
  qed
  have "synced zh rc w' v"
    by (rule synced_map [OF ID(4)]) (simp_all add: w' in_sync_client rib [unfolded w'])
  moreover have "labels_ok cb w'" by (rule labels_ok_cong [OF ID(3)]) (simp_all add: pay, simp add: w')
  moreover have "all_hashed zh w'" by (rule all_hashed_same [OF ID(2)]) (simp_all add: w')
  moreover have "route_ok zh valid w'" unfolding w' by (rule route_ok_datas [OF ID(1) keep])
  ultimately show ?thesis by (simp add: system_ok_def)
qed

section \<open>Every run\<close>

theorem system_invariant:
  assumes "system zh cb valid norm rc w v"
  shows "system_ok zh cb valid rc w v"
  using assms
proof induction
  case (init w m0 m1 m2 h r w')
  show ?case
    using route_broker_init_ok [OF zhash_axioms init(1-7)] by (simp add: system_ok_def)
next
  case (publish w v p dc i d w')
  show ?case by (rule system_publish [OF publish(8) publish(2-7)])
next
  case (attach w c0 c1 c2 nm x w')
  show ?case by (rule system_attach [OF attach(6) attach(2-5)])
next
  case (read w view m x c w')
  show ?case by (rule system_read [OF read(5) read(2-4)])
next
  case (detach w view w')
  from system_okD(4) [OF detach(3)] obtain rcl where
    "rc \<in> set (client_list_head w)" "rclis w rc = Some rcl" by (rule syncedD)
  then show ?case by (rule system_detach [OF detach(3) _ _ detach(2)])
next
  case (other_attach w v c0 c1 c2 rc' nm x w')
  show ?case by (rule system_other_attach [OF other_attach(7) other_attach(2-6)])
next
  case (other_read w v rc' m x c w')
  show ?case by (rule system_other_read [OF other_read(6) other_read(2-5)])
next
  case (other_detach w v rc' w')
  show ?case by (rule system_other_detach [OF other_detach(5) other_detach(2-4)])
next
  case (free w v m rc' w')
  show ?case by (rule system_free [OF free(5) free(2-4)])
next
  case (report w v rc' rcl)
  show ?case
    by (rule system_ok_same_members [OF report(3)]) (use report(2) in \<open>auto simp: same_members_def\<close>)
qed

end

end
