(* ===== verification/Nl_Routes.thy ===== *)
theory Nl_Routes
  imports Topic Route_Runs
begin

text \<open>
  Netlink messages as the objects of the broker, the end of \<open>src/broker/route_broker.c\<close>: how
  messages are copied and freed. With \<open>route_topic\<close> these are the callbacks that
  \<open>route_broker_init_all\<close> registers; they keep the contract \<open>object_callbacks\<close>, so everything
  shown of the route broker holds for netlink routes. The memory behind a pointer to a message
  may go on past the message; a copy has \<open>nlmsg_len\<close> bytes.
\<close>

definition rib_nl_copy :: "ptr \<Rightarrow> bytes \<Rightarrow> (ptr \<rightharpoonup> bytes) \<Rightarrow> (ptr \<times> (ptr \<rightharpoonup> bytes)) option" where
  "rib_nl_copy malloc_ret d ds = do {
     len \<leftarrow> nlmsg_len d;
     if malloc_ret = NULL then Some (NULL, ds)
     else if unat len \<le> length d then Some (malloc_ret, ds(malloc_ret \<mapsto> take (unat len) d))
     else None
   }"

definition rib_nl_free :: "ptr \<Rightarrow> (ptr \<rightharpoonup> bytes) \<Rightarrow> (ptr \<rightharpoonup> bytes) option" where
  "rib_nl_free p ds =
     (if p = NULL then Some ds else if ds p = None then None else Some (ds(p := None)))"

text \<open>The three callbacks of \<open>route_broker_init_all\<close>.\<close>

definition nl_cbs :: "build \<Rightarrow> mnl_parse \<Rightarrow> bytes object_cbs" where
  "nl_cbs b mnl = \<lparr>topic_gen = route_topic b mnl, copy_obj = rib_nl_copy, free_obj = rib_nl_free\<rparr>"

text \<open>The part of the memory a copy takes.\<close>

definition nl_norm :: "bytes \<Rightarrow> bytes" where
  "nl_norm d = (case nlmsg_len d of None \<Rightarrow> [] | Some len \<Rightarrow> take (unat len) d)"

lemma nl_validD:
  assumes "nl_valid mnl d"
  shows "nlmsg_len d = Some (of_nat (length d))" "unat (of_nat (length d) :: u32) = length d" "28 \<le> length d"
  using assms by (auto simp: nl_valid_def unat_of_nat)

lemma nlmsg_len_take:
  assumes "4 \<le> n"
  shows "nlmsg_len (take n d) = nlmsg_len d"
  using assms by (auto simp: nlmsg_len_def u32_at_def byte_at_def)

lemma nl_norm_valid:
  assumes v: "nl_valid mnl (nl_norm d)"
  obtains len where "nlmsg_len d = Some len" "unat len \<le> length d" "nl_norm d = take (unat len) d"
proof -
  note V = nl_validD [OF v]
  obtain len where len: "nlmsg_len d = Some len" "nl_norm d = take (unat len) d"
    using V(3) by (cases "nlmsg_len d") (auto simp: nl_norm_def)
  then have "4 \<le> unat len" using V(3) by simp
  then have "nlmsg_len (nl_norm d) = Some len" using len nlmsg_len_take by metis
  then have "unat len = length (nl_norm d)" using V(1,2) by auto
  then show thesis using that len by simp
qed

lemma nl_norm_id: "nl_valid mnl d \<Longrightarrow> nl_norm d = d"
  using nl_validD [of mnl d] by (simp add: nl_norm_def)

interpretation nl: object_callbacks "nl_cbs b mnl" "nl_valid mnl" nl_norm for b mnl
proof
  show "copy_obj (nl_cbs b mnl) m d ds = Some (if m = NULL then (NULL, ds) else (m, ds(m \<mapsto> nl_norm d)))"
    if "nl_valid mnl (nl_norm d)" for d m ds
    using nl_norm_valid [OF that] by (fastforce simp: nl_cbs_def rib_nl_copy_def)
  show "\<exists>rc t del. topic_gen (nl_cbs b mnl) d ROUTE_TOPIC_LEN = Some (rc, t, del)" if "nl_valid mnl d" for d
    using route_topic_total [OF that] by (simp add: nl_cbs_def)
qed (auto simp: nl_cbs_def rib_nl_free_def nl_norm_id)

text \<open>A hash table with the behaviour czmq documents, to run the broker on.\<close>

definition map_zhash :: "(string \<Rightarrow> ptr) zhash_ops" where
  "map_zhash =
     \<lparr>zhash_new = Some (\<lambda>_. NULL), zhash_lookup = (\<lambda>h k. h k),
      zhash_insert = (\<lambda>h k v. if h k = NULL then h(k := v) else h), zhash_delete = (\<lambda>h k. h(k := NULL))\<rparr>"

interpretation map_zhash: zhash map_zhash
  by unfold_locales (auto simp: map_zhash_def)

interpretation nl_routes: route_callbacks map_zhash "nl_cbs b mnl" "nl_valid mnl" nl_norm for b mnl
  by unfold_locales

lemma eg_msg_attrs: "eg_mnl (eg_msg 24 1) 12 = (1, [(1, 32)])" "eg_mnl (eg_msg 25 1) 12 = (1, [(1, 32)])"
    "eg_mnl (eg_msg 24 2) 12 = (1, [(1, 32)])"
  by code_simp+

lemma eg_msg_len: "nlmsg_len (eg_msg ty net) = Some 36" "length (eg_msg ty net) = 36"
  by (simp_all add: field_defs u32_at_def byte_at_def eg_msg_def)

lemma eg_msg_valid: "nl_valid eg_mnl (eg_msg 24 1)" "nl_valid eg_mnl (eg_msg 25 1)" "nl_valid eg_mnl (eg_msg 24 2)"
  by (simp_all add: nl_valid_def eg_msg_attrs eg_msg_len eg_msg_fields attr_wide_def)

text \<open>
  C33. Publishing copies exactly the message: of a buffer that holds a complete message and more,
  the copy is the message, and freeing the copy gives the memory back.
\<close>

theorem rib_nl_roundtrip:
  assumes "nl_valid mnl d" and "m \<noteq> NULL" and "ds m = None"
  shows "\<exists>ds'. rib_nl_copy m (d @ rest) ds = Some (m, ds') \<and> ds' = ds(m \<mapsto> d) \<and> rib_nl_free m ds' = Some ds"
proof -
  note V = nl_validD [OF assms(1)]
  have "nlmsg_len (d @ rest) = Some (of_nat (length d))"
    using V(1,3) nlmsg_len_take [of "length d" "d @ rest"] by simp
  then show ?thesis using V(2) assms(2,3) by (simp add: rib_nl_copy_def rib_nl_free_def fun_upd_idem)
qed

theorem rib_nl_roundtrip_witness:
  "\<exists>ds'. rib_nl_copy 7 (eg_msg 24 1 @ [1, 2, 3]) Map.empty = Some (7, ds') \<and> rib_nl_free 7 ds' = Some Map.empty"
  using rib_nl_roundtrip [OF eg_msg_valid(1), of 7 Map.empty "[1, 2, 3]"] by auto

end
