(* ===== verification/Route_Drain.thy ===== *)
theory Route_Drain
  imports Nl_Routes
begin

text \<open>
  Reading on: every read takes one route off what waits for the reader, or finds one level read to
  its end. A consumer that keeps reading therefore comes to the point where nothing waits, after a
  number of reads that is known in advance.
\<close>

section \<open>What waits\<close>

definition waiting :: "('d, 'h) route_mem \<Rightarrow> route_broker_client \<Rightarrow> ptr set" where
  "waiting w rcl = {p. \<exists>r. objs w p = Some r \<and> awaits w rcl r}"

definition behind :: "('d, 'h) route_mem \<Rightarrow> route_broker_client \<Rightarrow> nat set" where
  "behind w rcl = {i. i < ROUTE_PRIORITY_MAX \<and> lag w rcl i}"

definition reads_left :: "('d, 'h) route_mem \<Rightarrow> route_broker_client \<Rightarrow> nat" where
  "reads_left w rcl = card (waiting w rcl) + card (behind w rcl)"

definition node_ptr :: "node \<Rightarrow> ptr" where
  "node_ptr n = (case n of Obj p \<Rightarrow> p | Cli c \<Rightarrow> c)"

definition queued_ptrs :: "('d, 'h) route_mem \<Rightarrow> ptr list" where
  "queued_ptrs w = concat (map (\<lambda>b. case brks w b of None \<Rightarrow> [] | Some br \<Rightarrow> map node_ptr (b_obj_list br)) (route_broker w))"

lemma length_queued_ptrs: "length (queued_ptrs w) = queued_nodes w"
  by (simp add: queued_ptrs_def queued_nodes_def length_concat comp_def) (metis length_map list.size(3) option.case_eq_if)

lemma routes_queued:
  assumes "route_ok zh valid w"
  shows "dom (objs w) \<subseteq> set (queued_ptrs w)"
proof
  fix p
  assume "p \<in> dom (objs w)"
  then obtain r where r: "objs w p = Some r" by auto
  from assms r obtain br where br: "unat (pri r) < ROUTE_PRIORITY_MAX" "brks w (route_broker w ! unat (pri r)) = Some br"
    "Obj p \<in> set (b_obj_list br)" by (rule route_placedD)
  then have "route_broker w ! unat (pri r) \<in> set (route_broker w)"
    using route_okD(2) [OF assms] by (simp add: levels_ok_def)
  moreover have "p \<in> node_ptr ` set (b_obj_list br)" using br(3) by (force simp: node_ptr_def)
  ultimately show "p \<in> set (queued_ptrs w)"
    using br(2) by (auto simp: queued_ptrs_def intro!: bexI [of _ "route_broker w ! unat (pri r)"])
qed

lemma finite_objs: "route_ok zh valid w \<Longrightarrow> finite (dom (objs w))"
  by (rule finite_subset [OF routes_queued]) simp_all

lemma card_objs:
  assumes "route_ok zh valid w"
  shows "card (dom (objs w)) \<le> queued_nodes w"
proof -
  have "card (dom (objs w)) \<le> card (set (queued_ptrs w))"
    by (rule card_mono [OF _ routes_queued [OF assms]]) simp
  then show ?thesis using card_length [of "queued_ptrs w"] by (simp add: length_queued_ptrs)
qed

lemma finite_waiting: "route_ok zh valid w \<Longrightarrow> finite (waiting w rcl)"
  by (rule finite_subset [OF _ finite_objs]) (auto simp: waiting_def)

lemma finite_behind: "finite (behind w rcl)"
  by (simp add: behind_def)

lemma behind_bound: "card (behind w rcl) \<le> ROUTE_PRIORITY_MAX"
proof -
  have "card (behind w rcl) \<le> card {..<ROUTE_PRIORITY_MAX}"
    by (rule card_mono) (auto simp: behind_def)
  then show ?thesis by simp
qed

lemma reads_left_bound:
  assumes "route_ok zh valid w"
  shows "reads_left w rcl \<le> queued_nodes w + ROUTE_PRIORITY_MAX"
proof -
  have "card (waiting w rcl) \<le> card (dom (objs w))"
    by (rule card_mono [OF finite_objs [OF assms]]) (auto simp: waiting_def)
  then show ?thesis using behind_bound [of w rcl] card_objs [OF assms] by (simp add: reads_left_def)
qed

lemma behind_first_lag: "behind w rcl = {} \<longleftrightarrow> first_lag w rcl = - 1"
  unfolding behind_def first_lag_def less_3 by (auto split: if_splits) (metis gr0I)

lemma first_lag_behind: "first_lag w rcl = int i \<Longrightarrow> i \<in> behind w rcl"
  by (auto simp: behind_def first_lag_def split: if_splits)

section \<open>A read makes it less\<close>

lemma waiting_caught_up:
  assumes ok: "route_ok zh valid w" and r: "reader_at w rcl i br cl"
  shows "waiting (caught_up br (client rcl ! i) cl w) rcl \<subseteq> waiting w rcl"
proof
  fix p
  assume "p \<in> waiting (caught_up br (client rcl ! i) cl w) rcl"
  then obtain s where s: "objs w p = Some s" "awaits (caught_up br (client rcl ! i) cl w) rcl s"
    by (auto simp: waiting_def caught_up_def)
  note rD = reader_atD [OF r]
  note wf = route_ok_broker [OF ok rD(2)]
  have le: "obj_id (cl_obj cl) \<le> brk_id br"
    using node_wfD(2) [OF broker_wfD(3) [OF wf]] broker_wf_client [OF wf rD(4)] rD(3)
    by (metis (no_types, lifting) nid_Cli option.case(2) option.inject)
  have "awaits w rcl s"
    using s(2) le rD(3) by (auto simp: awaits_def caught_up_def nid_Cli client_at_def split: if_splits)
  then show "p \<in> waiting w rcl" using s(1) by (auto simp: waiting_def)
qed

lemma behind_caught_up:
  assumes r: "reader_at w rcl i br cl"
    and inj: "\<And>j. j < ROUTE_PRIORITY_MAX \<Longrightarrow> client rcl ! j = client rcl ! i \<Longrightarrow> j = i"
  shows "behind (caught_up br (client rcl ! i) cl w) rcl = behind w rcl - {i}"
proof -
  note rD = reader_atD [OF r]
  have "lag (caught_up br (client rcl ! i) cl w) rcl j \<longleftrightarrow> lag w rcl j \<and> j \<noteq> i" if "j < ROUTE_PRIORITY_MAX" for j
    using rD inj [OF that] by (cases "j = i") (auto simp: lag_def caught_up_def client_at_def)
  then show ?thesis by (auto simp: behind_def)
qed


lemma read_mem_brks:
  assumes nx: "next_for w rcl i br cl p r"
  obtains l where "brks (read_mem zh w rcl i br cl p) = (brks w)(route_broker w ! i \<mapsto> br\<lparr>b_obj_list := l\<rparr>)"
proof -
  note nD = next_forD [OF nx]
  let ?m = "moved (route_broker w ! i) br (client rcl ! i) cl p w"
  let ?br = "br\<lparr>b_obj_list := jump (client rcl ! i) p (b_obj_list br)\<rparr>"
  have m: "objs ?m p = Some r" "brks ?m (route_broker ?m ! unat (pri r)) = Some ?br"
    using nD(2,3) by (simp_all add: moved_def)
  show thesis
  proof (cases "last_reader br (client rcl ! i) p w")
    case True
    then show thesis using that drop_route_eq [OF m, of zh] nD(3) by (simp add: delivered_def moved_def)
  next
    case False
    then show thesis using that by (simp add: delivered_def moved_def)
  qed
qed

lemma waiting_read:
  assumes ok: "route_ok zh valid w" and nx: "next_for w rcl i br cl p r"
    and inj: "\<And>j. j < ROUTE_PRIORITY_MAX \<Longrightarrow> client rcl ! j = client rcl ! i \<Longrightarrow> j = i"
  shows "waiting (read_mem zh w rcl i br cl p) rcl \<subseteq> waiting w rcl - {p}"
proof
  note nD = next_forD [OF nx]
  note eq = read_mem_eq [OF nx, of zh]
  let ?w = "read_mem zh w rcl i br cl p"
  fix q
  assume "q \<in> waiting ?w rcl"
  then obtain s where s: "objs ?w q = Some s" "awaits ?w rcl s" by (auto simp: waiting_def)
  then have q: "objs w q = Some s" by (auto simp: eq split: if_splits)
  have lv: "unat (pri s) < ROUTE_PRIORITY_MAX" using ok q by (rule route_placedD)
  have own: "nid (objs w) (clis w) (Cli (client rcl ! i)) < obj_id r"
    using next_for_first(1) [OF ok nx] nD(3) by (simp add: awaits_def)
  show "q \<in> waiting w rcl - {p}"
  proof (cases "unat (pri s) = i")
    case True
    then have "obj_id r < obj_id s" using s(2) by (simp add: awaits_def eq(2) nid_Cli)
    then show ?thesis using q own True nD(2) by (auto simp: waiting_def awaits_def)
  next
    case False
    then have "client rcl ! unat (pri s) \<noteq> client rcl ! i" using inj [OF lv] by blast
    then have "awaits w rcl s" using s(2) by (simp add: awaits_def eq(2) nid_Cli)
    then show ?thesis using q nD(2,3) False by (auto simp: waiting_def)
  qed
qed

lemma behind_read:
  assumes nx: "next_for w rcl i br cl p r" and i: "i \<in> behind w rcl"
    and lv: "\<And>j. j < ROUTE_PRIORITY_MAX \<Longrightarrow> route_broker w ! j = route_broker w ! i \<Longrightarrow> j = i"
    and inj: "\<And>j. j < ROUTE_PRIORITY_MAX \<Longrightarrow> client rcl ! j = client rcl ! i \<Longrightarrow> j = i"
  shows "behind (read_mem zh w rcl i br cl p) rcl \<subseteq> behind w rcl"
proof
  obtain l where l: "brks (read_mem zh w rcl i br cl p) = (brks w)(route_broker w ! i \<mapsto> br\<lparr>b_obj_list := l\<rparr>)"
    using nx by (rule read_mem_brks)
  fix j
  assume j: "j \<in> behind (read_mem zh w rcl i br cl p) rcl"
  show "j \<in> behind w rcl"
  proof (cases "j = i")
    case False
    have "j < ROUTE_PRIORITY_MAX" using j by (simp add: behind_def)
    then have "route_broker w ! j \<noteq> route_broker w ! i" "client rcl ! j \<noteq> client rcl ! i"
      using False lv [of j] inj [of j] by blast+
    then show ?thesis using j by (auto simp: behind_def lag_def read_mem_eq [OF nx] l)
  qed (use i in simp)
qed

text \<open>The copy that is handed out does not matter.\<close>

lemma copied_waiting:
  "waiting (copied m d w) rcl = waiting w rcl" "behind (copied m d w) rcl = behind w rcl"
  by (simp_all add: waiting_def awaits_def behind_def lag_def)

lemma rib_copied:
  assumes "route_ok zh valid w" and "free_or_null m w"
  shows "rib zh (copied m d w) = rib zh w"
proof -
  have "payload (copied m d w) q = payload w q" for q
    using free_or_null_data [OF assms, of q] by (cases "objs w q") (auto simp: payload_def copied_def)
  then have "entry (copied m d w) q = entry w q" for q by (intro entry_payload) simp_all
  moreover have "hashed zh (copied m d w) = hashed zh w" by (simp add: hashed_def fun_eq_iff)
  ultimately show ?thesis by (simp add: rib_entry fun_eq_iff)
qed

section \<open>Reading to the end\<close>

text \<open>Reads in a row, without waiting; \<open>ms\<close> are the allocations of the copies.\<close>

fun read_all ::
  "'h zhash_ops \<Rightarrow> 'd object_cbs \<Rightarrow> ptr \<Rightarrow> ptr list \<Rightarrow> ('d, 'h) route_mem \<Rightarrow> ('d, 'h) route_mem option" where
  "read_all zh cb rc [] w = Some w"
| "read_all zh cb rc (m # ms) w =
     (case route_broker_client_get_data zh cb rc m [] w of
        None \<Rightarrow> None
      | Some (Got x c, w') \<Rightarrow> read_all zh cb rc ms w'
      | Some (_, w') \<Rightarrow> Some w')"


context route_callbacks
begin

lemma read_total:
  assumes ok: "route_ok zh valid w" and rcl: "rcl_ok (level_clients w) rcl" "rclis w rc = Some rcl"
    and m: "free_or_null m w" and lag: "first_lag w rcl \<ge> 0"
  shows "\<exists>x c w'. route_broker_client_get_data zh cb rc m waits w = Some (Got x c, w')"
proof -
  obtain i where i: "first_lag w rcl = int i" "i < ROUTE_PRIORITY_MAX"
    using lag by (cases rule: first_lag_cases [of w rcl]) auto
  obtain br cl where r: "reader_at w rcl i br cl" using reader_at_ex [OF ok rcl(1) i(2)] .
  note gl = get_data_level [OF ok rcl i(1) r, of m waits]
  show ?thesis
  proof (cases "find is_Obj (after (Cli (client rcl ! i)) (b_obj_list br))")
    case None
    then show ?thesis using gl level_get_none [OF ok r None] by simp
  next
    case (Some n)
    from ok r Some obtain p ro where n: "n = Obj p" "next_for w rcl i br cl p ro" by (rule next_for_ex)
    note nD = next_forD [OF n(2)]
    from ok nD(2) obtain d where d: "datas w (data ro) = Some d" by (rule route_payload)
    show ?thesis using gl level_get_some [OF ok r m nD(4,2) d] by simp
  qed
qed

text \<open>Both kinds of read bring a reader closer to the end: moving to the top of a level, and taking a route.\<close>

lemma progress_caught_up:
  assumes ok: "route_ok zh valid w" and rok: "rcl_ok (level_clients w) rcl" and r: "reader_at w rcl i br cl"
    and i: "i \<in> behind w rcl"
  shows "reads_left (caught_up br (client rcl ! i) cl w) rcl < reads_left w rcl"
proof -
  let ?w = "caught_up br (client rcl ! i) cl w"
  have "card (waiting ?w rcl) \<le> card (waiting w rcl)"
    by (rule card_mono [OF finite_waiting [OF ok] waiting_caught_up [OF ok r]])
  moreover have "behind ?w rcl = behind w rcl - {i}"
    by (rule behind_caught_up [OF r]) (rule clients_levels [OF ok rok rok _ reader_atD(1) [OF r]])
  then have "card (behind ?w rcl) < card (behind w rcl)"
    using card_Diff1_less [OF finite_behind i] by simp
  ultimately show ?thesis by (simp add: reads_left_def)
qed

lemma progress_read:
  assumes ok: "route_ok zh valid w" and rok: "rcl_ok (level_clients w) rcl" and nx: "next_for w rcl i br cl p r"
    and i: "i \<in> behind w rcl"
  shows "reads_left (read_mem zh w rcl i br cl p) rcl < reads_left w rcl"
proof -
  let ?w = "read_mem zh w rcl i br cl p"
  note lt = reader_atD(1) [OF next_forD(1) [OF nx]]
  have inj: "j = i" if "j < ROUTE_PRIORITY_MAX" "client rcl ! j = client rcl ! i" for j
    by (rule clients_levels [OF ok rok rok that(1) lt that(2)])
  have lv: "j = i" if "j < ROUTE_PRIORITY_MAX" "route_broker w ! j = route_broker w ! i" for j
    using level_inj [OF route_okD(2) [OF ok] that(1) lt] that(2) by simp
  have "waiting ?w rcl \<subseteq> waiting w rcl - {p}" by (rule waiting_read [OF ok nx inj])
  moreover have "p \<in> waiting w rcl" using next_for_first(1) [OF ok nx] next_forD(2) [OF nx] by (auto simp: waiting_def)
  ultimately have "card (waiting ?w rcl) < card (waiting w rcl)"
    using psubset_card_mono [OF finite_waiting [OF ok, of rcl], of "waiting ?w rcl"] by blast
  moreover have "behind ?w rcl \<subseteq> behind w rcl"
    using behind_read [OF nx i lv inj] .
  then have "card (behind ?w rcl) \<le> card (behind w rcl)" by (rule card_mono [OF finite_behind])
  ultimately show ?thesis by (simp add: reads_left_def)
qed

text \<open>One read of a registered reader for which something waits.\<close>

lemma read_progress:
  assumes I: "system_ok zh cb valid rc w (Some view)" and rcl: "rclis w rc = Some rcl"
    and m: "m \<noteq> NULL" "datas w m = None"
    and g: "route_broker_client_get_data zh cb rc m [] w = Some (Got x c, w')"
  shows "rclis w' rc = Some rcl" "reads_left w' rcl < reads_left w rcl" "rib zh w' = rib zh w"
    "\<And>k. k \<noteq> m \<Longrightarrow> datas w k = None \<Longrightarrow> datas w' k = None"
proof -
  note ID = system_okD [OF I]
  have reg: "rc \<in> set (client_list_head w)" using ID(4) by (auto elim: syncedD)
  have rok: "rcl_ok (level_clients w) rcl" by (rule registered_ok [OF ID(1) reg rcl])
  have mf: "free_or_null m w" using m by (simp add: free_or_null_def)
  note lag = read_lags [OF ID(1) rok rcl g]
  have "rclis w' rc = Some rcl \<and> reads_left w' rcl < reads_left w rcl \<and> rib zh w' = rib zh w \<and>
      (\<forall>k. k \<noteq> m \<longrightarrow> datas w k = None \<longrightarrow> datas w' k = None)"
    using ID(1) rok rcl mf g lag
  proof (cases rule: read_cases)
    case (none i br cl)
    have "rib zh w' = rib zh w" by (rule rib_cong) (simp_all add: none(6) caught_up_def)
    then show ?thesis
      using progress_caught_up [OF ID(1) rok none(1) first_lag_behind [OF none(2)]] rcl by (simp add: none(6)) (simp add: caught_up_def)
  next
    case (some i br cl p r d)
    let ?u = "copied m d w"
    note UD = system_okD [OF copied_ok [OF I mf, of d]]
    note eq = read_mem_eq [OF some(1), of zh]
    note u = copied_waiting [of m d w rcl] rib_copied [OF ID(1) mf, of d]
    have rok': "rcl_ok (level_clients ?u) rcl" using registered_ok [OF UD(1), of rc rcl] reg rcl by simp
    have "reads_left w' rcl < reads_left w rcl"
      using progress_read [OF UD(1) rok' some(1)] first_lag_behind [OF some(2)] u(1,2) unfolding some(6) by (simp add: reads_left_def)
    moreover have "rib zh w' = rib zh w"
      using read_mem_table(1) [OF zhash_axioms UD(1,2) some(1)] u(3) unfolding some(6) by simp
    moreover have "rclis w' rc = Some rcl" using rcl eq(5) unfolding some(6) by simp
    moreover have "datas w' k = None" if "k \<noteq> m" "datas w k = None" for k
      using that m(1) eq(3) unfolding some(6) by (simp add: copied_def)
    ultimately show ?thesis by simp
  qed
  then show "rclis w' rc = Some rcl" "reads_left w' rcl < reads_left w rcl" "rib zh w' = rib zh w"
    "\<And>k. k \<noteq> m \<Longrightarrow> datas w k = None \<Longrightarrow> datas w' k = None" by blast+
qed

lemma read_all_done:
  assumes "system zh cb valid norm rc w (Some view)" and "rclis w rc = Some rcl"
    and "reads_left w rcl \<le> length ms" and "distinct ms" and "\<And>m. m \<in> set ms \<Longrightarrow> m \<noteq> NULL \<and> datas w m = None"
  shows "\<exists>w' view'. read_all zh cb rc ms w = Some w' \<and> system zh cb valid norm rc w' (Some view') \<and>
    rclis w' rc = Some rcl \<and> first_lag w' rcl = - 1 \<and> rib zh w' = rib zh w"
  using assms
proof (induction ms arbitrary: w view)
  case Nil
  have "route_ok zh valid w" using system_okD(1) [OF system_invariant [OF Nil(1)]] .
  then have "behind w rcl = {}" using Nil(3) finite_behind [of w rcl] by (simp add: reads_left_def)
  then show ?case using Nil(1,2) by (auto simp: behind_first_lag)
next
  case (Cons m ms)
  note I = system_invariant [OF Cons(2)]
  note ID = system_okD [OF I]
  have reg: "rc \<in> set (client_list_head w)" using ID(4) by (auto elim: syncedD)
  have rok: "rcl_ok (level_clients w) rcl" by (rule registered_ok [OF ID(1) reg Cons(3)])
  have m: "m \<noteq> NULL" "datas w m = None" using Cons(6) by simp_all
  show ?case
  proof (cases "first_lag w rcl \<ge> 0")
    case True
    obtain x c w1 where g: "route_broker_client_get_data zh cb rc m [] w = Some (Got x c, w1)"
      using read_total [OF ID(1) rok Cons(3) _ True, of m "[]"] m by (auto simp: free_or_null_def)
    note P = read_progress [OF I Cons(3) m g]
    note S = system.read [OF Cons(2) m g]
    have fresh: "k \<noteq> NULL \<and> datas w1 k = None" if "k \<in> set ms" for k
      using P(4) [of k] Cons(5,6) that by auto
    have "\<exists>w' view'. read_all zh cb rc ms w1 = Some w' \<and> system zh cb valid norm rc w' (Some view') \<and>
        rclis w' rc = Some rcl \<and> first_lag w' rcl = - 1 \<and> rib zh w' = rib zh w1"
      by (rule Cons.IH [OF S P(1)]) (use P(2) Cons(4,5) fresh in auto)
    then show ?thesis using g P(3) by simp
  next
    case False
    then have "first_lag w rcl = - 1" by (cases rule: first_lag_cases [of w rcl]) auto
    then show ?thesis
      using data_available_eq [OF ID(1) rok Cons(3)] Cons(2,3) by auto
  qed
qed

end

end
