(* ===== verification/Route_Properties.thy ===== *)
theory Route_Properties
  imports Route_Drain
begin

text \<open>
  What the route broker guarantees, for every run: in terms of the table of routes (\<open>rib\<close>), of
  what consumers know, and of the memory. The hypotheses are the contract of the hash table and of
  the callbacks (\<open>route_callbacks\<close>), that the state is reached by a run (\<open>system\<close>), and what the
  environment owes a single call. The examples run the broker on netlink messages.
\<close>

section \<open>An example run\<close>

text \<open>
  A consumer attaches, a route is published and read, and the route is deleted again. Every state
  is computed by the operations of the model.
\<close>

abbreviation (input) eg_cb :: "bytes object_cbs" where "eg_cb \<equiv> nl_cbs eg_build eg_mnl"

type_synonym eg_mem = "(bytes, string \<Rightarrow> ptr) route_mem"

definition eg_start :: eg_mem where
  "eg_start =
     \<lparr>objs = Map.empty, clis = Map.empty, brks = Map.empty, broker_list_head = [], inited = False,
      datas = Map.empty, route_hashtbl = None, route_broker = [], rclis = Map.empty, client_list_head = [],
      processed_msg = 0, ignored_msg = 0, dropped_msg = 0\<rparr>"

definition eg_init :: eg_mem where
  "eg_init = snd (the (route_broker_init map_zhash eg_cb 1 2 3 eg_start))"

definition eg_attached :: eg_mem where
  "eg_attached = snd (the (route_broker_client_create map_zhash eg_cb (Some ''dp'') 10
     [(11, True), (12, True), (13, True)] 0 eg_init))"

definition eg_published :: eg_mem where
  "eg_published = the (object_broker_publish map_zhash eg_cb (eg_msg 24 1) 2 20 21 eg_attached)"

definition eg_read :: eg_mem where
  "eg_read = snd (the (route_broker_client_get_data map_zhash eg_cb 10 30 [] eg_published))"

definition eg_deleted :: eg_mem where
  "eg_deleted = the (object_broker_publish map_zhash eg_cb (eg_msg 25 1) 2 40 41 eg_read)"

lemma stamps_leftI:
  assumes "route_ok zh valid w"
    and "list_all (\<lambda>b. case brks w b of None \<Rightarrow> True | Some br \<Rightarrow> brk_id br \<noteq> - 1 \<and> brk_id br \<noteq> - 2) (route_broker w)"
  shows "stamps_left w"
  unfolding stamps_left_def
proof (intro allI impI)
  fix b br
  assume b: "brks w b = Some br"
  then have "b \<in> set (route_broker w)" using route_okD(2) [OF assms(1)] by (auto simp: levels_ok_def)
  then show "brk_id br \<noteq> - 1 \<and> brk_id br \<noteq> - 2" using assms(2) b by (auto simp: list_all_iff)
qed

lemma Some_the: "f \<noteq> None \<Longrightarrow> f = Some (the f)"
  by auto

lemma Some_snd: "\<lbrakk>f \<noteq> None; fst (the f) = a\<rbrakk> \<Longrightarrow> f = Some (a, snd (the f))"
  by auto

lemma eg_init_eq: "route_broker_init map_zhash eg_cb 1 2 3 eg_start = Some (0, eg_init)"
  unfolding eg_init_def by (rule Some_snd) code_simp+

lemma eg_attached_eq:
  "route_broker_client_create map_zhash eg_cb (Some ''dp'') 10 [(11, True), (12, True), (13, True)] 0 eg_init = Some (10, eg_attached)"
  unfolding eg_attached_def by (rule Some_snd) code_simp+

lemma eg_published_eq: "object_broker_publish map_zhash eg_cb (eg_msg 24 1) (int 2) 20 21 eg_attached = Some eg_published"
  unfolding eg_published_def by simp (rule Some_the, code_simp)

lemma eg_read_eq: "route_broker_client_get_data map_zhash eg_cb 10 30 [] eg_published = Some (Got 30 13, eg_read)"
  unfolding eg_read_def by (rule Some_snd) code_simp+

lemma eg_deleted_eq: "object_broker_publish map_zhash eg_cb (eg_msg 25 1) (int 2) 40 41 eg_read = Some eg_deleted"
  unfolding eg_deleted_def by simp (rule Some_the, code_simp)


abbreviation (input) eg_system :: "eg_mem \<Rightarrow> (string \<rightharpoonup> bytes) option \<Rightarrow> bool" where
  "eg_system \<equiv> system map_zhash eg_cb (nl_valid eg_mnl) nl_norm 10"

lemmas eg_system_ok = nl_routes.system_invariant [of eg_build eg_mnl, THEN system_okD(1)]

lemma eg_run_init: "eg_system eg_init None"
proof (rule system.init [OF _ _ _ _ _ _ eg_init_eq])
  show "pristine eg_start" by (simp add: pristine_def eg_start_def)
  show "zhash_new map_zhash = Some (\<lambda>_. NULL)" by (simp add: map_zhash_def)
qed simp_all

lemma eg_run_attached: "eg_system eg_attached (Some Map.empty)"
proof (rule system.attach [OF eg_run_init _ _ _ eg_attached_eq])
  show "fresh_clients 11 12 13 eg_init" by code_simp
  show "rclis eg_init 10 = None" by code_simp
qed simp

lemma eg_norm: "nl_norm (eg_msg 24 1) = eg_msg 24 1" "nl_norm (eg_msg 25 1) = eg_msg 25 1" "nl_norm (eg_msg 24 2) = eg_msg 24 2"
  by (rule nl_norm_id [OF eg_msg_valid(1)] nl_norm_id [OF eg_msg_valid(2)] nl_norm_id [OF eg_msg_valid(3)])+

lemma eg_topics:
  "topic_of eg_cb (eg_msg 24 1) = Some (''r 10.0.1.0/24 0 254'', False)"
  "topic_of eg_cb (eg_msg 25 1) = Some (''r 10.0.1.0/24 0 254'', True)"
  by code_simp+

lemma eg_fresh: "fresh_ptrs 20 21 eg_attached" "fresh_ptrs 40 41 eg_read"
  by code_simp+

lemma eg_stamps: "stamps_left eg_attached"
  by (rule stamps_leftI [OF eg_system_ok [OF eg_run_attached]]) code_simp

lemma eg_run_published: "eg_system eg_published (Some Map.empty)"
  by (rule system.publish [OF eg_run_attached eg_fresh(1) _ _ eg_stamps _ eg_published_eq])
    (simp_all add: eg_norm eg_msg_valid eg_topics delete_overtakes_def)

lemma eg_free: "datas eg_published 30 = None"
  by code_simp

lemma eg_copy: "datas eg_read 30 = Some (eg_msg 24 1)"
  by code_simp

lemma eg_run_read: "eg_system eg_read (Some (Map.empty(''r 10.0.1.0/24 0 254'' \<mapsto> eg_msg 24 1)))"
  using system.read [OF eg_run_published _ eg_free eg_read_eq]
  by (simp add: eg_copy apply_msg_def eg_topics)

lemma eg_stamps_read: "stamps_left eg_read"
  by (rule stamps_leftI [OF eg_system_ok [OF eg_run_read]]) code_simp

lemma eg_delete_stays: "\<not> delete_overtakes map_zhash ''r 10.0.1.0/24 0 254'' True 2 eg_read"
  by code_simp

section \<open>Consumers learn the table\<close>

lemma run_facts:
  assumes "route_callbacks zh cb valid norm" and "system zh cb valid norm rc w v"
  shows "route_ok zh valid w" "all_hashed zh w" "labels_ok cb w" "synced zh rc w v"
  using system_okD [OF route_callbacks.system_invariant [OF assms]] .

lemma run_reader:
  assumes "route_callbacks zh cb valid norm" and "system zh cb valid norm rc w (Some view)"
  obtains rcl where "rc \<in> set (client_list_head w)" "rclis w rc = Some rcl" "in_sync zh w rcl view"
    "rcl_ok (level_clients w) rcl"
  using run_facts(4) [OF assms] registered_ok [OF run_facts(1) [OF assms]] by (metis syncedD)

text \<open>
  C2. A consumer that applied every message it read, in the order it read them, and for which
  \<open>data_available_for_client\<close> finds nothing, has exactly the table of the broker, whatever was
  published and whoever else read, came and went in the meantime: however many updates of a route
  were merged in the queue or moved to another priority.
\<close>

theorem caught_up_consumer_has_table:
  assumes "route_callbacks zh cb valid norm" and "system zh cb valid norm rc w (Some view)"
    and "data_available_for_client rc w = Some (- 1)"
  shows "view = rib zh w"
proof -
  from assms(1,2) obtain rcl where r: "rclis w rc = Some rcl" "in_sync zh w rcl view" "rcl_ok (level_clients w) rcl"
    by (rule run_reader)
  note ok = run_facts(1) [OF assms(1,2)]
  have "first_lag w rcl = - 1" using data_available_eq [OF ok r(3,1)] assms(3) by simp
  then show ?thesis by (rule in_sync_done [OF ok r(3) _ r(2)])
qed

theorem caught_up_consumer_has_table_witness:
  "rib map_zhash eg_read = Map.empty(''r 10.0.1.0/24 0 254'' \<mapsto> eg_msg 24 1)"
proof -
  have "data_available_for_client 10 eg_read = Some (- 1)" by code_simp
  from caught_up_consumer_has_table [OF nl_routes.route_callbacks_axioms eg_run_read this] show ?thesis by simp
qed

text \<open>
  C7. A consumer that keeps reading gets there: from any state of any run, as many reads as
  there are nodes in the queues, plus one for each priority, are enough; none of them faults, and afterwards nothing is
  available and what the consumer knows is the table as it was when it started to read.
\<close>

theorem consumer_catches_up:
  assumes "route_callbacks zh cb valid norm" and "system zh cb valid norm rc w (Some view)"
    and "queued_nodes w + ROUTE_PRIORITY_MAX \<le> length ms" and "distinct ms"
    and "\<forall>m \<in> set ms. m \<noteq> NULL \<and> datas w m = None"
  shows "\<exists>w' view'. read_all zh cb rc ms w = Some w' \<and> system zh cb valid norm rc w' (Some view') \<and>
    data_available_for_client rc w' = Some (- 1) \<and> view' = rib zh w"
proof -
  from assms(1,2) obtain rcl where r: "rclis w rc = Some rcl" by (rule run_reader)
  note ok = run_facts(1) [OF assms(1,2)]
  have left: "reads_left w rcl \<le> length ms" using reads_left_bound [OF ok, of rcl] assms(3) by simp
  obtain w' view' where w': "read_all zh cb rc ms w = Some w'" "system zh cb valid norm rc w' (Some view')"
    "rclis w' rc = Some rcl" "first_lag w' rcl = - 1" "rib zh w' = rib zh w"
    using route_callbacks.read_all_done [OF assms(1,2) r left assms(4)] assms(5) by blast
  from assms(1) w'(2) obtain rcl' where "rclis w' rc = Some rcl'" "in_sync zh w' rcl' view'" "rcl_ok (level_clients w') rcl'"
    by (rule run_reader)
  then have s: "in_sync zh w' rcl view'" "rcl_ok (level_clients w') rcl" using w'(3) by simp_all
  note ok' = run_facts(1) [OF assms(1) w'(2)]
  have "view' = rib zh w'" by (rule in_sync_done [OF ok' s(2) w'(4) s(1)])
  then show ?thesis using w' data_available_eq [OF ok' s(2) w'(3)] by auto
qed

theorem consumer_catches_up_witness:
  "\<exists>w'. read_all map_zhash eg_cb 10 [31, 32, 33, 34, 35, 36, 37] eg_published = Some w' \<and>
     data_available_for_client 10 w' = Some (- 1)"
proof -
  have "queued_nodes eg_published + ROUTE_PRIORITY_MAX \<le> length [31, 32, 33, 34, 35, 36, 37 :: nat]" by code_simp
  moreover have "\<forall>m \<in> set [31, 32, 33, 34, 35, 36, 37]. m \<noteq> NULL \<and> datas eg_published m = None" by code_simp
  ultimately show ?thesis
    using consumer_catches_up [OF nl_routes.route_callbacks_axioms eg_run_published, of "[31, 32, 33, 34, 35, 36, 37]"] by auto
qed


section \<open>Publishing\<close>

text \<open>What \<open>object_broker_publish\<close> returns in a run.\<close>

lemma run_publish:
  assumes "route_callbacks zh cb valid norm" and "system zh cb valid norm rc w v" and "fresh_ptrs p dc w"
    and "i < ROUTE_PRIORITY_MAX" and "valid (norm d)" and "stamps_left w"
  shows "object_broker_publish zh cb d (int i) p dc w = Some
    (case topic_of cb (norm d) of
       None \<Rightarrow> w\<lparr>processed_msg := processed_msg w + 1, ignored_msg := ignored_msg w + 1\<rparr>
     | Some (t, del) \<Rightarrow>
         woken (publish_effect zh t del i p dc (norm d) (w\<lparr>processed_msg := processed_msg w + 1\<rparr>))
           (client_list_head w))"
  by (rule route_callbacks.object_broker_publish_eq [OF assms(1) run_facts(1) [OF assms(1,2)] assms(3-6)])

text \<open>
  C9. Publishing implements the abstract table: in every run, publishing a message at any priority
  does not fault, and the table afterwards is the table before with the message applied, an add or
  an update under the topic of the message, a removal for a delete, nothing for a message that is
  ignored. Priorities, merging in the queues and waiting consumers do not show in the table.
\<close>

theorem publish_refines_table:
  assumes "route_callbacks zh cb valid norm" and "system zh cb valid norm rc w v" and "fresh_ptrs p dc w"
    and "i < ROUTE_PRIORITY_MAX" and "valid (norm d)" and "stamps_left w"
  shows "\<exists>w'. object_broker_publish zh cb d (int i) p dc w = Some w' \<and>
    rib zh w' = apply_msg cb (norm d) (rib zh w)"
proof -
  let ?u = "w\<lparr>processed_msg := processed_msg w + 1\<rparr>"
  have zh: "zhash zh" using assms(1) by (simp add: route_callbacks_def)
  have u: "route_ok zh valid ?u" "fresh_ptrs p dc ?u" "stamps_left ?u"
    using run_facts(1) [OF assms(1,2)] assms(3,6) by auto
  have same: "rib zh ?u = rib zh w" by (rule rib_cong) simp_all
  show ?thesis
  proof (cases "topic_of cb (norm d)")
    case None
    have "rib zh (?u\<lparr>ignored_msg := ignored_msg w + 1\<rparr>) = rib zh w" by (rule rib_cong) simp_all
    then show ?thesis using run_publish [OF assms] None by (simp add: apply_msg_def)
  next
    case (Some td)
    obtain t del where td: "td = (t, del)" by (cases td)
    let ?e = "publish_effect zh t del i p dc (norm d) ?u"
    have "rib zh (woken ?e (client_list_head w)) = rib zh ?e" by (rule rib_cong) simp_all
    also have "\<dots> = (rib zh ?u)(t := if del then None else Some (norm d))"
      by (rule rib_publish_effect [OF zh u(1,2) assms(4,5) u(3)])
    finally show ?thesis using run_publish [OF assms] Some td same by (simp add: apply_msg_def)
  qed
qed

theorem publish_refines_table_witness:
  "\<exists>w'. object_broker_publish map_zhash eg_cb (eg_msg 25 1) (int 2) 40 41 eg_read = Some w' \<and>
     rib map_zhash w' ''r 10.0.1.0/24 0 254'' = None"
  using publish_refines_table [OF nl_routes.route_callbacks_axioms eg_run_read eg_fresh(2) _ _ eg_stamps_read, of 2 "eg_msg 25 1"]
  by (auto simp: eg_norm eg_msg_valid apply_msg_def eg_topics)

text \<open>
  C12. Publishing wakes the consumers: after a publish, the condition of every registered consumer
  for which something is available has been signalled, so none of them sleeps on.
\<close>

theorem publish_wakes_consumers:
  assumes "route_callbacks zh cb valid norm" and "system zh cb valid norm rc w v" and "fresh_ptrs p dc w"
    and "i < ROUTE_PRIORITY_MAX" and "valid (norm d)" and "stamps_left w" and "topic_of cb (norm d) \<noteq> None"
  shows "\<exists>w'. object_broker_publish zh cb d (int i) p dc w = Some w' \<and>
    (\<forall>c \<in> set (client_list_head w'). \<forall>rcl level. rclis w' c = Some rcl \<longrightarrow>
       data_available_for_client c w' = Some level \<longrightarrow> level \<ge> 0 \<longrightarrow> client_cond rcl)"
proof -
  let ?u = "w\<lparr>processed_msg := processed_msg w + 1\<rparr>"
  have zh: "zhash zh" using assms(1) by (simp add: route_callbacks_def)
  have u: "route_ok zh valid ?u" "fresh_ptrs p dc ?u" "stamps_left ?u"
    using run_facts(1) [OF assms(1,2)] assms(3,6) by auto
  obtain t del where td: "topic_of cb (norm d) = Some (t, del)" using assms(7) by auto
  let ?e = "publish_effect zh t del i p dc (norm d) ?u"
  let ?w = "woken ?e (client_list_head w)"
  have head: "client_list_head ?w = client_list_head w" using publish_effect_head [OF zh u(1)] by simp
  have oke: "route_ok zh valid ?e" by (rule route_ok_publish_effect [OF zh u(1,2) assms(4,5) u(3)])
  have okw: "route_ok zh valid ?w" by (rule route_ok_woken [OF oke])
  have "client_cond rcl" if c: "c \<in> set (client_list_head w)" "rclis ?w c = Some rcl"
    "data_available_for_client c ?w = Some level" "level \<ge> 0" for c rcl level
  proof -
    have "rcl_ok (level_clients ?w) rcl" using registered_ok [OF okw _ c(2)] c(1) head by simp
    then have lag: "first_lag ?w rcl \<ge> 0" using data_available_eq [OF okw _ c(2)] c(3,4) by simp
    obtain r where r: "rclis ?e c = Some r" "rcl = (if first_lag ?e r \<ge> 0 then r\<lparr>client_cond := True\<rparr> else r)"
      using c(1,2) by (auto simp: woken_def)
    have L: "lag ?w rcl j = lag ?e r j" for j using r(2) by (simp add: lag_def woken_def)
    have "first_lag ?e r \<ge> 0" using lag by (simp only: first_lag_def L)
    then show ?thesis using r(2) by simp
  qed
  then show ?thesis using run_publish [OF assms(1-6)] td head by auto
qed

theorem publish_wakes_consumers_witness:
  "\<exists>w' rcl. object_broker_publish map_zhash eg_cb (eg_msg 24 1) (int 2) 20 21 eg_attached = Some w' \<and>
     rclis w' 10 = Some rcl \<and> client_cond rcl"
proof -
  have "rclis eg_published 10 = Some \<lparr>client = [11, 12, 13], client_cond = True, errors = 0\<rparr>" by code_simp
  moreover have "client_list_head eg_published = [10]" by code_simp
  moreover have "data_available_for_client 10 eg_published = Some 2" by code_simp
  ultimately show ?thesis
    using publish_wakes_consumers [OF nl_routes.route_callbacks_axioms eg_run_attached eg_fresh(1) _ _ eg_stamps, of 2 "eg_msg 24 1"]
    by (auto simp: eg_norm eg_msg_valid eg_topics eg_published_eq [simplified])
qed

text \<open>
  C10. There is one route per topic: in every run, two routes in the memory of the broker, on any
  levels, marked for deletion or not, have different topics, so the queues together hold at most
  one entry per route, however often it was updated.
\<close>

theorem one_route_per_topic:
  assumes "route_callbacks zh cb valid norm" and "system zh cb valid norm rc w v"
    and "objs w p = Some r" and "objs w q = Some s" and "topic r = topic s"
  shows "p = q"
  using all_hashedD [OF run_facts(2,1) [OF assms(1,2)] assms(3)] all_hashedD [OF run_facts(2,1) [OF assms(1,2)] assms(4)]
    assms(5) by simp

theorem one_route_per_topic_witness:
  "\<exists>r. objs eg_published 20 = Some r \<and> (\<forall>q s. objs eg_published q = Some s \<and> topic s = topic r \<longrightarrow> q = 20)"
proof -
  have "objs eg_published 20 \<noteq> None" by code_simp
  then obtain r where r: "objs eg_published 20 = Some r" by auto
  then show ?thesis
    using one_route_per_topic [OF nl_routes.route_callbacks_axioms eg_run_published _ r] by blast
qed


section \<open>Reading\<close>

lemma awaits_lag:
  assumes ok: "route_ok zh valid w" and rcl: "rcl_ok (level_clients w) rcl" and q: "objs w q = Some s"
    and aw: "awaits w rcl s"
  shows "lag w rcl (unat (pri s))"
proof -
  from ok q obtain br where br: "unat (pri s) < ROUTE_PRIORITY_MAX"
    "brks w (route_broker w ! unat (pri s)) = Some br" "Obj q \<in> set (b_obj_list br)" by (rule route_placedD)
  from ok rcl br(1,2) obtain cl where cl: "clis w (client rcl ! unat (pri s)) = Some cl" by (rule client_at_level)
  have "obj_id s \<le> brk_id br"
    using node_wfD(2) [OF broker_wfD(3) [OF route_ok_broker [OF ok br(2)] br(3)]] q by (simp add: nid_def)
  then show ?thesis using br(2) cl aw by (auto simp: lag_def awaits_def nid_Cli)
qed

lemma first_lag_least: "first_lag w rcl = int i \<Longrightarrow> j < i \<Longrightarrow> \<not> lag w rcl j"
  by (auto simp: first_lag_def less_Suc_eq numeral_2_eq_2 split: if_splits)

context route_callbacks
begin

lemma read_first:
  assumes ok: "route_ok zh valid w" and rok: "rcl_ok (level_clients w) rcl" and rcl: "rclis w rc = Some rcl"
    and m: "m \<noteq> NULL" "datas w m = None" and g: "route_broker_client_get_data zh cb rc m [] w = Some (Got x c, w')"
    and x: "x \<noteq> NULL"
  shows "\<exists>p r. objs w p = Some r \<and> awaits w rcl r \<and> datas w' x = datas w (data r) \<and>
    (\<forall>q s. objs w q = Some s \<longrightarrow> awaits w rcl s \<longrightarrow> q \<noteq> p \<longrightarrow>
       pri r < pri s \<or> pri r = pri s \<and> obj_id r < obj_id s)"
proof -
  have mf: "free_or_null m w" using m by (simp add: free_or_null_def)
  from ok rok rcl mf g read_lags [OF ok rok rcl g] show ?thesis
  proof (cases rule: read_cases)
    case (none i br cl)
    then show ?thesis using x by simp
  next
    case (some i br cl p r d)
    let ?u = "copied m d w"
    have u: "route_ok zh valid ?u" by (rule route_ok_copied [OF ok mf])
    note nD = next_forD [OF some(1)]
    have aw: "awaits ?u rcl s = awaits w rcl s" for s by (simp add: awaits_def)
    have "data r \<noteq> m" using some(3) m(2) by auto
    then have "datas w' x = datas w (data r)"
      using read_mem_eq(3) [OF some(1), of zh] m(1) some(3,4) unfolding some(6) by (simp add: copied_def)
    moreover have "pri r < pri s \<or> pri r = pri s \<and> obj_id r < obj_id s"
      if q: "objs w q = Some s" "awaits w rcl s" "q \<noteq> p" for q s
    proof (cases "unat (pri s) = i")
      case True
      then have "obj_id r < obj_id s" using next_for_first(2) [OF u some(1), of q s] q aw by simp
      then show ?thesis using True nD(3) by (simp add: word_unat_eq_iff)
    next
      case False
      then have "i < unat (pri s)"
        using first_lag_least [OF some(2), of "unat (pri s)"] awaits_lag [OF ok rok q(1,2)] by linarith
      then show ?thesis using nD(3) by (simp add: word_less_nat_alt)
    qed
    ultimately show ?thesis
      using nD(2) next_for_first(1) [OF u some(1)] aw by (intro exI [of _ p] exI [of _ r]) auto
  qed
qed

end

text \<open>
  C11. Reads come in order: what a read hands out is a copy of a route that waits for the reader,
  and every other route that waits for it has a lower priority, or the same priority and a later
  update.
\<close>

theorem read_takes_first_waiting:
  assumes "route_callbacks zh cb valid norm" and "system zh cb valid norm rc w v"
    and "rc' \<in> set (client_list_head w)" and "rclis w rc' = Some rcl" and "m \<noteq> NULL" and "datas w m = None"
    and "route_broker_client_get_data zh cb rc' m [] w = Some (Got x c, w')" and "x \<noteq> NULL"
  shows "\<exists>p r. objs w p = Some r \<and> awaits w rcl r \<and> datas w' x = datas w (data r) \<and>
    (\<forall>q s. objs w q = Some s \<longrightarrow> awaits w rcl s \<longrightarrow> q \<noteq> p \<longrightarrow>
       pri r < pri s \<or> pri r = pri s \<and> obj_id r < obj_id s)"
  using run_facts(1) [OF assms(1,2)] registered_ok [OF run_facts(1) [OF assms(1,2)] assms(3,4)]
  by (intro route_callbacks.read_first [OF assms(1) _ _ assms(4-8)])

lemma eg_registered: "10 \<in> set (client_list_head eg_published)"
    "rclis eg_published 10 = Some \<lparr>client = [11, 12, 13], client_cond = True, errors = 0\<rparr>"
  by code_simp+

lemma eg_published_only:
  assumes "objs eg_published p = Some r"
  shows "p = 20"
proof -
  have "p \<in> set (queued_ptrs eg_published)"
    using routes_queued [OF eg_system_ok [OF eg_run_published]] assms by blast
  moreover have "set (queued_ptrs eg_published) = {11, 12, 13, 20}" by code_simp
  moreover have "objs eg_published 11 = None" "objs eg_published 12 = None" "objs eg_published 13 = None" by code_simp+
  ultimately show ?thesis using assms by auto
qed

theorem read_takes_first_waiting_witness:
  "\<exists>r. objs eg_published 20 = Some r \<and> datas eg_read 30 = datas eg_published (data r)"
  using read_takes_first_waiting [OF nl_routes.route_callbacks_axioms eg_run_published eg_registered _ eg_free eg_read_eq]
    eg_published_only by fastforce

text \<open>
  C24. A deleted route stays until every consumer has read its deletion, and no longer: in every
  run, a route that is marked as deleted still waits for a client of its level.
\<close>

theorem deleted_routes_wait:
  assumes "route_callbacks zh cb valid norm" and "system zh cb valid norm rc w v"
    and "objs w p = Some r" and "flags r AND BROKER_FLAGS_DELETE \<noteq> 0"
  shows "\<exists>c cl. c \<in> set (level_clients w (unat (pri r))) \<and> clis w c = Some cl \<and> obj_id (cl_obj cl) < obj_id r"
proof -
  note ok = run_facts(1) [OF assms(1,2)]
  from ok assms(3) obtain br where br: "brks w (route_broker w ! unat (pri r)) = Some br" "Obj p \<in> set (b_obj_list br)"
    by (rule route_placedD)
  have b: "broker_ok (route_broker w ! unat (pri r)) br (objs w) (clis w)"
    using brokers_okD(1) [OF route_okD(1) [OF ok] br(1)] .
  then have "owed br (objs w) (clis w) (Obj p)"
    using br(2) assms(3,4) by (auto simp: broker_ok_def no_garbage_def ndel_def)
  then obtain c where c: "c \<in> set (b_client_list br)" "nid (objs w) (clis w) (Cli c) < obj_id r"
    using assms(3) by (auto simp: owed_def nid_def)
  obtain cl where "clis w c = Some cl" using broker_wf_client [OF route_ok_broker [OF ok br(1)] c(1)] by metis
  then show ?thesis using c br(1) by (auto simp: level_clients_def nid_Cli)
qed


lemma eg_run_deleted: "\<exists>v. eg_system eg_deleted v"
  using system.publish [OF eg_run_read eg_fresh(2) _ _ eg_stamps_read _ eg_deleted_eq] eg_delete_stays
  by (auto simp: eg_norm eg_msg_valid eg_topics)

theorem deleted_routes_wait_witness:
  "\<exists>r c. objs eg_deleted 20 = Some r \<and> flags r AND BROKER_FLAGS_DELETE \<noteq> 0 \<and> c \<in> set (level_clients eg_deleted 2)"
proof -
  have "map_option flags (objs eg_deleted 20) = Some 5" "map_option pri (objs eg_deleted 20) = Some 2" by code_simp+
  then obtain r where r: "objs eg_deleted 20 = Some r" "flags r = 5" "pri r = 2" by auto
  obtain v where v: "eg_system eg_deleted v" using eg_run_deleted by blast
  from deleted_routes_wait [OF nl_routes.route_callbacks_axioms v r(1)] r show ?thesis by auto
qed

section \<open>Coming and going\<close>

text \<open>
  C25. A consumer can always leave: in every run, deleting a registered consumer does not fault, it
  is no longer registered, the invariant holds and the table is what it was, although routes that
  only this consumer waited for are released on the way.
\<close>

theorem detach_keeps_table:
  assumes "route_callbacks zh cb valid norm" and "system zh cb valid norm rc w v" and "rc' \<in> set (client_list_head w)"
  shows "\<exists>w'. route_broker_client_delete zh cb rc' w = Some w' \<and> rc' \<notin> set (client_list_head w') \<and>
    route_ok zh valid w' \<and> rib zh w' = rib zh w"
proof -
  note ok = run_facts(1) [OF assms(1,2)]
  obtain rcl where rcl: "rclis w rc' = Some rcl" using clients_ok_ex [OF route_okD(6) [OF ok] assms(3)] by blast
  let ?u = "unlisted rc' w"
  let ?w = "(left zh (client rcl) ?u)\<lparr>rclis := (rclis w)(rc' := None)\<rparr>"
  note D = route_callbacks.detached_ok [OF assms(1) route_callbacks.system_invariant [OF assms(1,2)] assms(3) rcl]
  have oku: "route_ok zh valid ?u" by (rule route_ok_unlisted [OF ok])
  have au: "all_hashed zh ?u" by (rule all_hashed_same [OF run_facts(2) [OF assms(1,2)]]) (simp_all add: unlisted_def)
  have "rib zh ?w = rib zh (left zh (client rcl) ?u)" by (rule rib_cong) simp_all
  also have "\<dots> = rib zh ?u"
    by (rule route_callbacks.left_effect(3) [OF assms(1) oku _ au])
      (rule route_callbacks.can_leave_unlisted [OF assms(1) ok assms(3) rcl])
  also have "\<dots> = rib zh w" by (rule rib_cong) (simp_all add: unlisted_def)
  finally show ?thesis
    using route_callbacks.client_delete_eq [OF assms(1) ok assms(3) rcl] D(1,4) by auto
qed

theorem detach_keeps_table_witness:
  "\<exists>w'. route_broker_client_delete map_zhash eg_cb 10 eg_published = Some w' \<and> 10 \<notin> set (client_list_head w')"
  using detach_keeps_table [OF nl_routes.route_callbacks_axioms eg_run_published eg_registered(1)] by blast

section \<open>Memory\<close>

text \<open>Payloads that belong to no route: the copies consumers hold, if nothing leaks.\<close>

definition orphans :: "('d, 'h) route_mem \<Rightarrow> ptr set" where
  "orphans w = {c. datas w c \<noteq> None \<and> (\<forall>p r. objs w p = Some r \<longrightarrow> data r \<noteq> c)}"

lemma orphans_add:
  assumes "fresh_ptrs p dc w" and "brks w (route_broker w ! i) = Some br"
  shows "orphans (add_route i t p dc d w) = orphans w"
  using fresh_ptrsD [OF assms(1)] by (auto simp: orphans_def add_route_eq [OF assms(2)] split: if_splits)
    (metis option.distinct(1))

lemma orphans_drop:
  assumes "objs w p = Some r" and "brks w (route_broker w ! unat (pri r)) = Some br"
  shows "orphans (drop_route zh p w) = orphans w"
  using assms(1) by (auto simp: orphans_def drop_route_eq [OF assms] split: if_splits)
    (metis option.inject)

lemma orphans_stamp:
  assumes "objs w p = Some r" and "brks w (route_broker w ! unat (pri r)) = Some br"
  shows "orphans (stamp_route f p w) = orphans w"
  using assms(1) by (auto simp: orphans_def stamp_route_eq [OF assms] split: if_splits)

lemma orphans_swap:
  assumes "objs w p = Some r" and "datas w dc = None"
  shows "orphans (swap_payload p dc d w) = orphans w"
  using assms by (auto simp: orphans_def swap_payload_def split: if_splits)
    (metis option.inject)

lemma orphans_file [simp]: "orphans (file_route zh t p w) = orphans w"
  by (simp add: orphans_def file_route_def)

lemma orphans_woken [simp]: "orphans (woken w rcs) = orphans w"
  by (simp add: orphans_def)

lemma orphans_retire:
  assumes ok: "route_ok zh valid w" and p: "objs w p = Some r"
  shows "orphans (retire_route zh p w) = orphans w"
proof -
  from ok p obtain br where "brks w (route_broker w ! unat (pri r)) = Some br" by (rule route_placedD)
  then show ?thesis using orphans_drop [OF p] orphans_stamp [OF p] by (simp add: retire_route_def)
qed


lemma orphans_publish_effect:
  assumes zh: "zhash zh" and ok: "route_ok zh valid w" and f: "fresh_ptrs p dc w"
    and i: "i < ROUTE_PRIORITY_MAX" and d: "valid d" and room: "stamps_left w"
  shows "orphans (publish_effect zh t del i p dc d w) = orphans w"
proof (cases "hashed zh w t = NULL")
  case True
  obtain br where "brks w (route_broker w ! i) = Some br" using level_broker [OF route_okD(2) [OF ok] i] .
  then show ?thesis using True orphans_add [OF f] by (simp add: publish_effect_def)
next
  case False
  let ?h = "hashed zh w t"
  from ok False obtain hr hb where h: "objs w ?h = Some hr" "brks w (route_broker w ! unat (pri hr)) = Some hb"
    "level_of w ?h = unat (pri hr)" by (rule hashed_route)
  show ?thesis
  proof (cases "unat (pri hr) > i")
    case True
    let ?d = "drop_route zh ?h w"
    have okd: "route_ok zh valid ?d" by (rule route_ok_drop [OF zh ok h(1)])
    have fd: "fresh_ptrs p dc ?d" by (rule drop_route_fresh [OF h(1,2) f])
    obtain br where br: "brks ?d (route_broker ?d ! i) = Some br" using level_broker [OF route_okD(2) [OF okd] i] .
    let ?a = "add_route i t p dc d ?d"
    have "orphans ?a = orphans w" using orphans_add [OF fd br] orphans_drop [OF h(1,2)] by simp
    moreover from okd fd i d stamps_left_drop [OF ok h(1) room] obtain r br where "route_ok zh valid ?a" "objs ?a p = Some r" by (rule route_ok_added)
    then have "orphans (retire_route zh p ?a) = orphans ?a" by (rule orphans_retire)
    ultimately show ?thesis using False True h(3) by (simp add: publish_effect_def Let_def)
  next
    case le: False
    have cell: "free_cell dc w" by (rule fresh_free_cell [OF route_okD(3) [OF ok] f])
    let ?s = "swap_payload ?h dc d w"
    have oks: "route_ok zh valid ?s" by (rule route_ok_swap [OF ok h(1) cell d])
    have ps: "objs ?s ?h = Some (hr\<lparr>data := dc\<rparr>)" using h(1) by (simp add: swap_payload_def)
    from oks ps obtain br where "brks ?s (route_broker ?s ! unat (pri (hr\<lparr>data := dc\<rparr>))) = Some br" by (rule route_placedD)
    note st = orphans_stamp [OF ps this]
    have "orphans ?s = orphans w" by (rule orphans_swap [OF h(1) fresh_ptrsD(4) [OF f]])
    then show ?thesis
      using False le h(3) st orphans_retire [OF oks ps] by (simp add: publish_effect_def Let_def)
  qed
qed

text \<open>
  C26. Publishing leaks nothing and frees nothing it does not own: in every run, the payloads that
  belong to no route, which are the copies consumers still hold, are the same before and after a
  publish. The copy that was made of the message ends up in a route or is freed, and so is every
  payload that is replaced.
\<close>

theorem publish_leaks_nothing:
  assumes "route_callbacks zh cb valid norm" and "system zh cb valid norm rc w v" and "fresh_ptrs p dc w"
    and "i < ROUTE_PRIORITY_MAX" and "valid (norm d)" and "stamps_left w"
  shows "\<exists>w'. object_broker_publish zh cb d (int i) p dc w = Some w' \<and> orphans w' = orphans w"
proof -
  let ?u = "w\<lparr>processed_msg := processed_msg w + 1\<rparr>"
  have zh: "zhash zh" using assms(1) by (simp add: route_callbacks_def)
  have u: "route_ok zh valid ?u" "fresh_ptrs p dc ?u" "stamps_left ?u"
    using run_facts(1) [OF assms(1,2)] assms(3,6) by auto
  have same: "orphans (?u\<lparr>ignored_msg := k\<rparr>) = orphans w" "orphans ?u = orphans w" for k by (simp_all add: orphans_def)
  show ?thesis
    using run_publish [OF assms] orphans_publish_effect [OF zh u(1,2) assms(4,5) u(3)] same
    by (cases "topic_of cb (norm d)") auto
qed

theorem publish_leaks_nothing_witness:
  "\<exists>w'. object_broker_publish map_zhash eg_cb (eg_msg 25 1) (int 2) 40 41 eg_read = Some w' \<and> orphans w' = orphans eg_read"
  using publish_leaks_nothing [OF nl_routes.route_callbacks_axioms eg_run_read eg_fresh(2) _ _ eg_stamps_read, of 2 "eg_msg 25 1"]
  by (auto simp: eg_norm eg_msg_valid)

text \<open>
  C27. When memory runs out a message is dropped cleanly: if the allocation of the route or of the
  copy of the message fails, \<open>object_broker_publish\<close> counts the message as processed and dropped and
  changes nothing else, in any state whatever.
\<close>

theorem publish_out_of_memory:
  assumes "object_callbacks cb valid norm" and "valid (norm d)" and "p = NULL \<or> dc = NULL \<and> objs w p = None"
  shows "object_broker_publish zh cb d i p dc w =
    Some (w\<lparr>processed_msg := processed_msg w + 1, dropped_msg := dropped_msg w + 1\<rparr>)"
proof (cases "p = NULL")
  case True
  then show ?thesis by (simp add: object_broker_publish_def rib_route_create_def Let_def)
next
  case False
  then show ?thesis
    using assms(3) object_callbacks.copy [OF assms(1,2)]
    by (simp add: object_broker_publish_def rib_route_create_def Let_def free_route_def fun_upd_idem)
qed

theorem publish_out_of_memory_witness:
  "\<exists>w'. object_broker_publish map_zhash eg_cb (eg_msg 24 2) 0 50 NULL eg_read = Some w' \<and> dropped_msg w' = 1"
proof -
  have "objs eg_read 50 = None" "dropped_msg eg_read = 0" by code_simp+
  then show ?thesis
    using publish_out_of_memory [OF nl.object_callbacks_axioms [of eg_build eg_mnl], of "eg_msg 24 2" 50 NULL eg_read map_zhash 0]
    by (simp add: eg_norm eg_msg_valid)
qed
end
