(* ===== verification/Route_Show.thy ===== *)
theory Route_Show
  imports Route_Properties
begin

text \<open>
  Showing the queues. The loop of \<open>route_broker_show_internal\<close>, with its cursor over three
  brokers, prints the queues level by level, newest node first, until it comes to a level whose
  queue is empty. It never faults, and the fuel of the model is enough.
\<close>

definition level_queue :: "('d, 'h) route_mem \<Rightarrow> nat \<Rightarrow> node list" where
  "level_queue w i = (case brks w (route_broker w ! i) of None \<Rightarrow> [] | Some br \<Rightarrow> b_obj_list br)"

definition node_lines :: "bool \<Rightarrow> ('d, 'h) route_mem \<Rightarrow> node \<Rightarrow> show_line list" where
  "node_lines detail w n = (case route_broker_seq_show n detail w of None \<Rightarrow> [] | Some ls \<Rightarrow> ls)"

definition header_line :: "('d, 'h) route_mem \<Rightarrow> nat \<Rightarrow> show_line list" where
  "header_line w i = (case brks w (route_broker w ! i) of None \<Rightarrow> [] | Some br \<Rightarrow> [Priority_line (int i) (brk_id br)])"

definition level_lines :: "bool \<Rightarrow> ('d, 'h) route_mem \<Rightarrow> nat \<Rightarrow> show_line list" where
  "level_lines detail w i = concat (map (node_lines detail w) (rev (level_queue w i)))"

definition shown_levels :: "('d, 'h) route_mem \<Rightarrow> nat list" where
  "shown_levels w = takeWhile (\<lambda>i. level_queue w i \<noteq> []) [0, 1, 2]"

lemma seq_show_total:
  assumes ok: "route_ok zh valid w" and br: "brks w (route_broker w ! i) = Some br" and n: "n \<in> set (b_obj_list br)"
  shows "route_broker_seq_show n detail w = Some (node_lines detail w n)"
proof -
  note wf = route_ok_broker [OF ok br]
  from broker_wfD(3) [OF wf n] obtain f k where f: "hflags (objs w) (clis w) n = Some f" "hid (objs w) (clis w) n = Some k"
    "kind_flags n f" by (auto simp: node_wf_def)
  have "route_broker_seq_show n detail w \<noteq> None"
  proof (cases n)
    case (Obj p)
    then obtain r where r: "objs w p = Some r" using f(1) by auto
    have "obj_type r = 0" using routes_ownedD(2) [OF route_okD(3) [OF ok] r] by simp
    then show ?thesis
      using f Obj r kind_flags_OBJ_bit [OF f(3)] by (simp add: route_broker_seq_show_def broker_obj_to_rib_route_def)
  next
    case (Cli c)
    then obtain cl where "clis w c = Some cl" "cl_broker cl = route_broker w ! i"
      using broker_wf_client_flags(3) [OF wf _ ] n f(1) by auto
    then show ?thesis
      using f Cli br kind_flags_OBJ_bit [OF f(3)] by (simp add: route_broker_seq_show_def)
  qed
  then show ?thesis by (auto simp: node_lines_def)
qed

text \<open>The loop from a node of level \<open>i\<close> to the end of the level.\<close>

definition level_start :: "('d, 'h) route_mem \<Rightarrow> nat \<Rightarrow> node option" where
  "level_start w i = (if i < ROUTE_PRIORITY_MAX then circleq_last (level_queue w i) else None)"

lemma seq_next_inner:
  assumes ok: "route_ok zh valid w" and i: "i < ROUTE_PRIORITY_MAX" and br: "brks w (route_broker w ! i) = Some br"
    and l: "b_obj_list br = xs @ m # n # ys"
  shows "route_broker_seq_next n (int i) w = Some (Some m, int i)"
proof -
  have "distinct (b_obj_list br)" using broker_wfD(1) [OF route_ok_broker [OF ok br]] .
  then have "before n (b_obj_list br) = xs @ [m]"
    using l by (auto simp: before_def takeWhile_append)
  then have "circleq_prev (Some n) (b_obj_list br) = Some (Some m)" using l by (simp add: circleq_prev_def circleq_last_def)
  then show ?thesis
    using br arr_level [OF route_okD(2) [OF ok] i] by (simp add: route_broker_seq_next_def broker_seq_next_def)
qed

lemma seq_next_first:
  assumes ok: "route_ok zh valid w" and i: "i < ROUTE_PRIORITY_MAX" and br: "brks w (route_broker w ! i) = Some br"
    and l: "b_obj_list br = n # ys"
  shows "route_broker_seq_next n (int i) w = Some (level_start w (i + 1), if i + 1 < ROUTE_PRIORITY_MAX then int (i + 1) else int i)"
proof -
  have "circleq_prev (Some n) (b_obj_list br) = Some None" using l by (simp add: circleq_prev_def circleq_last_def before_def)
  then have p: "broker_seq_next (route_broker w ! i) n w = Some None" using br by (simp add: broker_seq_next_def)
  show ?thesis
  proof (cases "i + 1 < ROUTE_PRIORITY_MAX")
    case True
    obtain b where "brks w (route_broker w ! (i + 1)) = Some b" using level_broker [OF route_okD(2) [OF ok] True] .
    then show ?thesis
      using p True arr_level [OF route_okD(2) [OF ok] i] arr_level [OF route_okD(2) [OF ok] True]
      by (simp add: route_broker_seq_next_def broker_seq_start_def level_start_def level_queue_def add.commute)
  next
    case False
    then show ?thesis
      using p i arr_level [OF route_okD(2) [OF ok] i] by (simp add: route_broker_seq_next_def level_start_def)
  qed
qed

lemma show_step:
  assumes ok: "route_ok zh valid w" and i: "i < ROUTE_PRIORITY_MAX" and br: "brks w (route_broker w ! i) = Some br"
    and n: "n \<in> set (b_obj_list br)" and nxt: "route_broker_seq_next n (int i) w = Some (n', p')"
  shows "show_loop (Suc f) (Some n) (int i) p_last count detail w =
    map_option (\<lambda>(rest, c). ((if p_last \<noteq> int i then header_line w i else []) @ node_lines detail w n @ rest, c))
      (show_loop f n' p' (int i) (count + 1) detail w)"
  using seq_show_total [OF ok br n, of detail] nxt br arr_level [OF route_okD(2) [OF ok] i]
  by (cases "show_loop f n' p' (int i) (count + 1) detail w") (auto simp: header_line_def)

lemma show_level:
  assumes ok: "route_ok zh valid w" and i: "i < ROUTE_PRIORITY_MAX" and br: "brks w (route_broker w ! i) = Some br"
    and "b_obj_list br = xs @ n # ys"
  shows "show_loop (Suc (length xs) + k) (Some n) (int i) p_last count detail w =
    map_option (\<lambda>(rest, c). ((if p_last \<noteq> int i then header_line w i else []) @
        concat (map (node_lines detail w) (n # rev xs)) @ rest, c))
      (show_loop k (level_start w (i + 1)) (if i + 1 < ROUTE_PRIORITY_MAX then int (i + 1) else int i) (int i)
        (count + of_nat (Suc (length xs))) detail w)"
  using assms(4)
proof (induction xs arbitrary: n ys p_last count rule: rev_induct)
  case Nil
  then have n: "n \<in> set (b_obj_list br)" by simp
  have "b_obj_list br = n # ys" using Nil by simp
  from show_step [OF ok i br n seq_next_first [OF ok i br this], of k p_last count detail] show ?case by simp
next
  case (snoc m xs)
  let ?r = "show_loop k (level_start w (i + 1)) (if i + 1 < ROUTE_PRIORITY_MAX then int (i + 1) else int i) (int i)
        (count + of_nat (Suc (length (xs @ [m])))) detail w"
  have l: "b_obj_list br = xs @ m # n # ys" using snoc(2) by simp
  then have n: "n \<in> set (b_obj_list br)" by simp
  have "show_loop (Suc (length (xs @ [m])) + k) (Some n) (int i) p_last count detail w =
      map_option (\<lambda>(rest, c). ((if p_last \<noteq> int i then header_line w i else []) @ node_lines detail w n @ rest, c))
        (show_loop (Suc (length xs) + k) (Some m) (int i) (int i) (count + 1) detail w)"
    using show_step [OF ok i br n seq_next_inner [OF ok i br l], of "Suc (length xs) + k" p_last count detail] by simp
  also have "show_loop (Suc (length xs) + k) (Some m) (int i) (int i) (count + 1) detail w =
      map_option (\<lambda>(rest, c). (concat (map (node_lines detail w) (m # rev xs)) @ rest, c)) ?r"
    using snoc.IH [OF l, of "int i" "count + 1"] by (simp add: algebra_simps)
  finally show ?case by (cases ?r) auto
qed

text \<open>A level that is reached, from its newest node on.\<close>

lemma show_from:
  assumes ok: "route_ok zh valid w" and i: "i < ROUTE_PRIORITY_MAX"
  shows "show_loop (length (level_queue w i) + k) (level_start w i) (int i) p_last count detail w =
    (if level_queue w i = [] then Some ([], count)
     else map_option (\<lambda>(rest, c). ((if p_last \<noteq> int i then header_line w i else []) @ level_lines detail w i @ rest, c))
       (show_loop k (level_start w (i + 1)) (if i + 1 < ROUTE_PRIORITY_MAX then int (i + 1) else int i) (int i)
         (count + of_nat (length (level_queue w i))) detail w))"
proof -
  obtain br where br: "brks w (route_broker w ! i) = Some br" using level_broker [OF route_okD(2) [OF ok] i] .
  have q: "level_queue w i = b_obj_list br" using br by (simp add: level_queue_def)
  show ?thesis
  proof (cases "b_obj_list br" rule: rev_cases)
    case Nil
    then show ?thesis using q i by (simp add: level_start_def circleq_last_def)
  next
    case (snoc xs n)
    then have "b_obj_list br = xs @ n # []" by simp
    from show_level [OF ok i br this, of k p_last count detail] show ?thesis
      using q i snoc by (simp add: level_start_def circleq_last_def level_lines_def del: of_nat_Suc)
  qed
qed


lemma queued_nodes_levels:
  assumes "route_ok zh valid w"
  shows "queued_nodes w = length (level_queue w 0) + (length (level_queue w 1) + length (level_queue w 2))"
proof -
  have "length (route_broker w) = 3" using route_okD(2) [OF assms] by (simp add: levels_ok_def)
  then have "route_broker w = [route_broker w ! 0, route_broker w ! 1, route_broker w ! 2]"
    by (auto simp: numeral_3_eq_3 length_Suc_conv)
  then have "queued_nodes w = sum_list (map (\<lambda>b. case brks w b of None \<Rightarrow> 0 | Some br \<Rightarrow> length (b_obj_list br))
      [route_broker w ! 0, route_broker w ! 1, route_broker w ! 2])"
    unfolding queued_nodes_def by simp
  moreover have "length (level_queue w i) = (case brks w (route_broker w ! i) of None \<Rightarrow> 0 | Some br \<Rightarrow> length (b_obj_list br))" for i
    by (simp add: level_queue_def split: option.split)
  ultimately show ?thesis by simp
qed

definition shown_lines :: "bool \<Rightarrow> ('d, 'h) route_mem \<Rightarrow> show_line list" where
  "shown_lines detail w =
     concat (map (\<lambda>i. (if i = 0 then [] else header_line w i) @ level_lines detail w i) (shown_levels w))"

definition shown_nodes :: "('d, 'h) route_mem \<Rightarrow> nat" where
  "shown_nodes w = sum_list (map (\<lambda>i. length (level_queue w i)) (shown_levels w))"

lemma show_loop_levels:
  assumes ok: "route_ok zh valid w"
  shows "show_loop (queued_nodes w) (level_start w 0) 0 0 0 detail w = Some (shown_lines detail w, of_nat (shown_nodes w))"
proof -
  have l2: "show_loop (length (level_queue w 2)) (level_start w 2) 2 1 c detail w =
      Some (if level_queue w 2 = [] then ([], c) else (header_line w 2 @ level_lines detail w 2, c + of_nat (length (level_queue w 2))))" for c
    using show_from [OF ok, of 2 0 1 c detail] by (simp add: level_start_def)
  have l1: "show_loop (length (level_queue w 1) + k) (level_start w 1) 1 0 c detail w =
      (if level_queue w 1 = [] then Some ([], c)
       else map_option (\<lambda>(rest, c). (header_line w 1 @ level_lines detail w 1 @ rest, c))
         (show_loop k (level_start w 2) 2 1 (c + of_nat (length (level_queue w 1))) detail w))" for k c
    using show_from [OF ok, of 1 k 0 c detail] by (simp add: numeral_2_eq_2)
  have l0: "show_loop (length (level_queue w 0) + k) (level_start w 0) 0 0 0 detail w =
      (if level_queue w 0 = [] then Some ([], 0)
       else map_option (\<lambda>(rest, c). (level_lines detail w 0 @ rest, c))
         (show_loop k (level_start w 1) 1 0 (of_nat (length (level_queue w 0))) detail w))" for k
    using show_from [OF ok, of 0 k 0 0 detail] by simp
  show ?thesis
    unfolding queued_nodes_levels [OF ok] l0 l1 l2 shown_lines_def shown_nodes_def shown_levels_def
    by (simp add: add.assoc)
qed

definition show_errors :: "('d, 'h) route_mem \<Rightarrow> ptr list \<Rightarrow> show_line list" where
  "show_errors w rcs = concat (map (\<lambda>c. case rclis w c of None \<Rightarrow> []
     | Some rcl \<Rightarrow> if errors rcl \<noteq> 0 then [Errors_line c (errors rcl)] else []) rcs)"

lemma client_errors_eq:
  "\<forall>c \<in> set rcs. rclis w c \<noteq> None \<Longrightarrow> client_errors_loop rcs w = Some (show_errors w rcs)"
  by (induction rcs) (auto simp: show_errors_def)

text \<open>
  C32. Showing the broker never faults and ends: in every run \<open>route_broker_show_internal\<close> prints the
  counters, the consumers with errors, and then the queues, each node once, the levels in order of
  priority and each queue from the newest node to the oldest, up to the first level whose queue is
  empty; the total is the number of nodes that were visited.
\<close>

theorem show_lists_levels:
  assumes "route_callbacks zh cb valid norm" and "system zh cb valid norm rc w v"
  shows "route_broker_show_internal detail w = Some
    ([Processed_line (processed_msg w)]
      @ (if ignored_msg w \<noteq> 0 then [Ignored_line (ignored_msg w)] else [])
      @ (if dropped_msg w \<noteq> 0 then [Dropped_line (dropped_msg w)] else [])
      @ show_errors w (client_list_head w) @ header_line w 0
      @ shown_lines detail w @ [Total_line (of_nat (shown_nodes w))])"
proof -
  note ok = run_facts(1) [OF assms]
  obtain br where br: "brks w (route_broker w ! 0) = Some br" using level_broker [OF route_okD(2) [OF ok], of 0] by auto
  have a: "arr (route_broker w) 0 = Some (route_broker w ! 0)" using arr_level [OF route_okD(2) [OF ok], of 0] by simp
  have "route_broker_seq_first w = Some (level_start w 0, 0)"
    using a br by (simp add: route_broker_seq_first_def broker_seq_start_def level_start_def level_queue_def)
  moreover have "client_errors_loop (client_list_head w) w = Some (show_errors w (client_list_head w))"
    by (rule client_errors_eq) (use clients_ok_ex [OF route_okD(6) [OF ok]] in fastforce)
  ultimately show ?thesis
    using a br show_loop_levels [OF ok, of detail]
    by (simp add: route_broker_show_internal_def header_line_def)
qed

theorem show_lists_levels_witness:
  "route_broker_show_internal True eg_published = Some
     [Processed_line 1, Priority_line 0 0, Client_line 0 ''dp'' 0 0, Priority_line 1 0, Client_line 0 ''dp'' 0 0,
      Priority_line 2 1, Obj_line 1 False ''r 10.0.1.0/24 0 254'', Client_line 0 ''dp'' 0 1, Total_line 4]"
  unfolding show_lists_levels [OF nl_routes.route_callbacks_axioms eg_run_published] by code_simp

text \<open>A route of the lowest priority, and no consumer.\<close>

definition eg_unread :: eg_mem where
  "eg_unread = the (object_broker_publish map_zhash eg_cb (eg_msg 24 1) 2 20 21 eg_init)"

text \<open>
  The listing ends at the first level that is empty: the broker holds a route of the lowest
  priority, and the listing says there is nothing.
\<close>

theorem show_misses_levels:
  "route_broker_show eg_unread = Some [Processed_line 1, Priority_line 0 0, Total_line 0] \<and>
   map_option topic (objs eg_unread 20) = Some ''r 10.0.1.0/24 0 254''"
  by code_simp

end
