(* ===== verification/Route_Lifecycle.thy ===== *)
theory Route_Lifecycle
  imports Route_Show
begin

text \<open>
  Starting and ending the route broker, and the runs in which it goes wrong: computations of the
  model that show what happens outside of the rules of \<open>system\<close>.
\<close>

section \<open>Start and end\<close>

text \<open>
  The broker starts with the empty table: from a memory without brokers, \<open>route_broker_init\<close>
  returns 0 in a state that satisfies the invariant, holds no route and has no consumers.
\<close>

theorem init_starts_empty:
  assumes "zhash zh" and "pristine w" and "distinct [m0, m1, m2]" and "m0 \<noteq> NULL" and "m1 \<noteq> NULL" and "m2 \<noteq> NULL"
    and "zhash_new zh = Some h"
  shows "\<exists>w'. route_broker_init zh cb m0 m1 m2 w = Some (0, w') \<and> route_ok zh valid w' \<and>
    rib zh w' = Map.empty \<and> objs w' = Map.empty \<and> client_list_head w' = []"
proof -
  let ?w = "w\<lparr>inited := True, broker_list_head := [m2, m1, m0],
              brks := [m0 \<mapsto> empty_broker, m1 \<mapsto> empty_broker, m2 \<mapsto> empty_broker],
              client_list_head := [], route_broker := [m0, m1, m2], route_hashtbl := Some h\<rparr>"
  have i: "route_broker_init zh cb m0 m1 m2 w = Some (0, ?w)" by (rule route_broker_init_eq [OF assms(2-7)])
  have "objs ?w = Map.empty" using assms(2) by (simp add: pristine_def)
  then show ?thesis using i route_broker_init_ok [OF assms i] by blast
qed

theorem init_starts_empty_witness:
  "\<exists>w'. route_broker_init map_zhash eg_cb 1 2 3 eg_start = Some (0, w') \<and> rib map_zhash w' = Map.empty"
proof -
  have "pristine eg_start" "zhash_new map_zhash = Some (\<lambda>_. NULL)"
    by (simp_all add: pristine_def eg_start_def map_zhash_def)
  from init_starts_empty [OF map_zhash.zhash_axioms this(1), of 1 2 3 _ eg_cb] this(2) show ?thesis by auto
qed

text \<open>
  The broker is not taken down under a consumer: in every run with a registered consumer,
  \<open>route_broker_destroy\<close> returns \<open>- ENOTEMPTY\<close> and leaves the memory as it is.
\<close>

theorem destroy_refused:
  assumes "route_callbacks zh cb valid norm" and "system zh cb valid norm rc w v" and "client_list_head w \<noteq> []"
  shows "route_broker_destroy w = Some (- ENOTEMPTY, w)"
proof -
  note ok = run_facts(1) [OF assms(1,2)]
  obtain c rcl where c: "rclis w c = Some rcl" "rcl_ok (level_clients w) rcl"
    using clients_ok_ex [OF route_okD(6) [OF ok], of "hd (client_list_head w)"] assms(3) by auto
  obtain br where br: "brks w (route_broker w ! 0) = Some br" using level_broker [OF route_okD(2) [OF ok], of 0] by auto
  have "client rcl ! 0 \<in> set (level_clients w 0)" using c(2) by (simp add: rcl_ok_def)
  then have ne: "b_client_list br \<noteq> []" using br by (auto simp: level_clients_def)
  have "length (route_broker w) = 3" "route_broker w ! 0 \<noteq> NULL"
    using route_okD(2) [OF ok] nth_mem [of 0 "route_broker w"] by (auto simp: levels_ok_def simp del: nth_mem)
  then show ?thesis
    using br ne by (cases "route_broker w") (simp_all add: route_broker_destroy_def broker_delete_def)
qed

theorem destroy_refused_witness: "route_broker_destroy eg_published = Some (- ENOTEMPTY, eg_published)"
  by (rule destroy_refused [OF nl_routes.route_callbacks_axioms eg_run_published]) code_simp

section \<open>Runs that go wrong\<close>






text \<open>
  \<open>broker_delete\<close> frees a broker that is still on the list of brokers: initialising the route
  broker again, after it was destroyed, writes to freed memory.
\<close>

theorem restart_faults:
  "map_option fst (route_broker_destroy eg_init) = Some 0 \<and>
   route_broker_init map_zhash eg_cb 4 5 6 (snd (the (route_broker_destroy eg_init))) = None"
  by code_simp

text \<open>
  Destroying a broker whose lower levels hold routes stops half way: the levels before are gone,
  and the next publish to one of them faults.
\<close>

theorem destroy_stops_half_way:
  "map_option fst (route_broker_destroy eg_unread) = Some (- ENOTEMPTY) \<and>
   object_broker_publish map_zhash eg_cb (eg_msg 24 2) 0 50 51 (snd (the (route_broker_destroy eg_unread))) = None"
  by code_simp

text \<open>A consumer whose client of the second level could not be allocated.\<close>

definition eg_incomplete :: eg_mem where
  "eg_incomplete = snd (the (route_broker_client_create map_zhash eg_cb (Some ''dp'') 10
     [(11, True), (NULL, True), (13, True)] 0 eg_init))"

text \<open>
  The test behind \<open>broker_client_create\<close> looks at the array and not at its entry: when the
  client of a level cannot be allocated the consumer is registered all the same, and the next
  publish faults.
\<close>

theorem client_create_unchecked:
  "map_option fst (route_broker_client_create map_zhash eg_cb (Some ''dp'') 10
     [(11, True), (NULL, True), (13, True)] 0 eg_init) = Some 10 \<and>
   object_broker_publish map_zhash eg_cb (eg_msg 24 1) 2 20 21 eg_incomplete = None"
  by code_simp

text \<open>
  \<open>route_broker_client_delete\<close> takes the consumer off the list of consumers after the mutex was
  released: a publish in between wakes a consumer whose level clients are freed, and faults.
\<close>

theorem client_delete_race:
  "map_option (\<lambda>w. object_broker_publish map_zhash eg_cb (eg_msg 24 1) 2 20 21 w = None)
     (client_delete_locked map_zhash eg_cb 10 eg_attached) = Some True"
  by code_simp

end
