(* ===== verification/Feed.thy ===== *)
theory Feed
  imports Process_Properties Route_Lifecycle
begin

text \<open>
  The daemon and the broker together: the publisher behind \<open>broker_process.c\<close> is
  \<open>route_broker_publish\<close> of \<open>src/broker/route_broker.c\<close> with the callbacks for netlink messages. From
  the bytes on the socket to the table of routes.
\<close>

section \<open>The broker as a publisher\<close>

definition route_broker_publish ::
  "'h zhash_ops \<Rightarrow> build \<Rightarrow> mnl_parse \<Rightarrow> bytes \<Rightarrow> int \<Rightarrow> ptr \<Rightarrow> ptr \<Rightarrow> (bytes, 'h) route_mem \<Rightarrow> (bytes, 'h) route_mem option" where
  "route_broker_publish zh b mnl nlmsg p route_calloc copy_malloc w =
     object_broker_publish zh (nl_cbs b mnl) nlmsg p route_calloc copy_malloc w"

text \<open>
  The memory of the broker and the addresses the allocator will return: for the \<open>k\<close>-th publish those
  of the route and of the copy of the message.
\<close>

record 'h broker_world =
  mem :: "(bytes, 'h) route_mem"
  alloc :: "nat \<Rightarrow> ptr \<times> ptr"
  taken :: nat

definition broker_publish ::
  "'h zhash_ops \<Rightarrow> build \<Rightarrow> mnl_parse \<Rightarrow> bytes \<Rightarrow> int \<Rightarrow> 'h broker_world \<Rightarrow> 'h broker_world option" where
  "broker_publish zh b mnl d i bw =
     map_option (\<lambda>w. bw\<lparr>mem := w, taken := Suc (taken bw)\<rparr>)
       (route_broker_publish zh b mnl d i (fst (alloc bw (taken bw))) (snd (alloc bw (taken bw))) (mem bw))"

definition broker_host :: "'h zhash_ops \<Rightarrow> build \<Rightarrow> mnl_parse \<Rightarrow> 'h broker_world host" where
  "broker_host zh b mnl = \<lparr>broker_debug = False, attr_parse = mnl, publish = broker_publish zh b mnl,
     show_broker = (\<lambda>bw. route_broker_show (mem bw))\<rparr>"

lemma rib_nl_copy_take:
  assumes "nlmsg_len d = Some l" and "28 \<le> unat l" and "unat l \<le> length d"
  shows "rib_nl_copy m (take (unat l) d) ds = rib_nl_copy m d ds"
  using assms by (simp add: rib_nl_copy_def fields_take)

lemma object_broker_publish_cong:
  assumes "\<And>m ds. copy_obj cb m d ds = copy_obj cb m d' ds"
  shows "object_broker_publish zh cb d i p dc w = object_broker_publish zh cb d' i p dc w"
  unfolding object_broker_publish_def assms by (rule refl)

interpretation broker: message_sink "broker_host zh b mnl" for zh b mnl
proof
  show "publish (broker_host zh b mnl) (take (unat l) d) i w = publish (broker_host zh b mnl) d i w"
    if "nlmsg_len d = Some l" "28 \<le> unat l" "unat l \<le> length d" for d l i w
  proof -
    have "object_broker_publish zh (nl_cbs b mnl) (take (unat l) d) i p dc u = object_broker_publish zh (nl_cbs b mnl) d i p dc u" for p dc u
      by (rule object_broker_publish_cong) (simp add: nl_cbs_def rib_nl_copy_take [OF that])
    then show ?thesis by (simp add: broker_host_def broker_publish_def route_broker_publish_def)
  qed
qed (simp add: broker_host_def)

section \<open>What a publish takes\<close>

text \<open>The memory grows by the given addresses at most, and the stamps of every queue by \<open>k\<close>.\<close>

definition grown :: "nat \<Rightarrow> ptr set \<Rightarrow> ptr set \<Rightarrow> ('d, 'h) route_mem \<Rightarrow> ('d, 'h) route_mem \<Rightarrow> bool" where
  "grown k P D w w' \<longleftrightarrow> dom (objs w') \<subseteq> dom (objs w) \<union> P \<and> dom (datas w') \<subseteq> dom (datas w) \<union> D \<and>
     (\<forall>b br'. brks w' b = Some br' \<longrightarrow> (\<exists>br. brks w b = Some br \<and> unat (brk_id br') \<le> unat (brk_id br) + k))"

lemma grown_refl: "grown k P D w w"
  by (auto simp: grown_def)

lemma grown_trans:
  assumes "grown k P D u v" and "grown m P D v w"
  shows "grown (k + m) P D u w"
proof -
  have "\<exists>br. brks u b = Some br \<and> unat (brk_id br') \<le> unat (brk_id br) + (k + m)" if br: "brks w b = Some br'" for b br'
  proof -
    obtain x where x: "brks v b = Some x" "unat (brk_id br') \<le> unat (brk_id x) + m" using assms(2) br unfolding grown_def by blast
    obtain y where "brks u b = Some y" "unat (brk_id x) \<le> unat (brk_id y) + k" using assms(1) x(1) unfolding grown_def by blast
    then show ?thesis using x(2) by auto
  qed
  moreover have "dom (objs w) \<subseteq> dom (objs u) \<union> P" "dom (datas w) \<subseteq> dom (datas u) \<union> D"
    using assms unfolding grown_def by blast+
  ultimately show ?thesis by (auto simp: grown_def)
qed

lemma grown_mono:
  assumes "grown k P D u v" and "k \<le> m"
  shows "grown m P D u v"
  using grown_trans [OF assms(1) grown_refl [of "m - k" P D v]] assms(2) by simp

lemma unat_Suc_le: "unat (x + 1 :: u64) \<le> unat x + 1"
  by (metis unat_1 unat_plus_simple word_arith_nat_add le_refl unat_of_nat mod_less_eq_dividend)

lemma grown_stamp: "grown 1 P D w (stamp_route f p w)"
  using unat_Suc_le by (auto simp: grown_def stamp_route_def Let_def split: option.splits)

lemma grown_drop: "grown 0 P D w (drop_route zh p w)"
  by (auto simp: grown_def drop_route_def release_step_def route_release_def split: option.splits if_splits)

lemma grown_swap: "dc \<in> D \<Longrightarrow> grown 0 P D w (swap_payload p dc d w)"
  by (auto simp: grown_def swap_payload_def split: option.splits if_splits)

lemma grown_add: "p \<in> P \<Longrightarrow> dc \<in> D \<Longrightarrow> grown 1 P D w (add_route i t p dc d w)"
  using unat_Suc_le by (auto simp: grown_def add_route_def Let_def split: option.splits if_splits)

lemma grown_file: "grown 0 P D w (file_route zh t p w)"
  by (auto simp: grown_def file_route_def split: option.splits)

lemma grown_retire: "grown 1 P D w (retire_route zh p w)"
  using grown_mono [OF grown_drop [of P D w zh p], of 1] grown_stamp [of P D w 5 p] by (simp add: retire_route_def)

lemma grown_publish_effect:
  assumes "p \<in> P" "dc \<in> D"
  shows "grown 2 P D w (publish_effect zh t del i p dc d w)"
proof -
  let ?h = "hashed zh w t"
  let ?a = "add_route i t p dc d w" and ?b = "add_route i t p dc d (drop_route zh ?h w)" and ?s = "swap_payload ?h dc d w"
  have a: "grown 1 P D w ?a" and b: "grown 1 P D w ?b" and s: "grown 1 P D w ?s"
    using grown_add [OF assms] grown_trans [OF grown_drop grown_add [OF assms]] grown_mono [OF grown_swap [OF assms(2)], of 1]
    by simp_all
  have two: "grown 2 P D w z" if "grown 1 P D w y" "grown 1 P D y z" for y z
    using grown_trans [OF that] by (simp add: numeral_2_eq_2)
  have fil: "grown 1 P D y (file_route zh t p y)" for y by (rule grown_mono [OF grown_file]) simp
  have "grown 2 P D w (retire_route zh p ?b)" "grown 2 P D w (file_route zh t p ?b)" "grown 2 P D w (file_route zh t p ?a)"
    "grown 2 P D w (retire_route zh ?h ?s)" "grown 2 P D w (stamp_route 1 ?h ?s)"
    by (rule two [OF b grown_retire] two [OF b fil] two [OF a fil] two [OF s grown_retire] two [OF s grown_stamp])+
  then show ?thesis using grown_refl [of 2 P D w] by (simp add: publish_effect_def Let_def)
qed

text \<open>The allocator and the counters are good for \<open>n\<close> more messages.\<close>

definition ready :: "nat \<Rightarrow> 'h broker_world \<Rightarrow> bool" where
  "ready n bw \<longleftrightarrow>
     (\<forall>k. taken bw \<le> k \<and> k < taken bw + n \<longrightarrow>
        fresh_ptrs (fst (alloc bw k)) (snd (alloc bw k)) (mem bw) \<and>
        (\<forall>j. j < k \<longrightarrow> fst (alloc bw j) \<noteq> fst (alloc bw k) \<and> snd (alloc bw j) \<noteq> snd (alloc bw k))) \<and>
     (\<forall>b br. brks (mem bw) b = Some br \<longrightarrow> unat (brk_id br) + 2 * n < 2 ^ 64)"

lemma ready_stamps:
  assumes "ready (Suc n) bw"
  shows "stamps_left (mem bw)"
proof -
  have "brk_id br \<noteq> - 1 \<and> brk_id br \<noteq> - 2" if "brks (mem bw) b = Some br" for b br
  proof -
    have lt: "unat (brk_id br) + 2 < 2 ^ 64" using assms that by (fastforce simp: ready_def)
    have m: "unat (- 1 :: u64) = 2 ^ 64 - 1" "unat (- 2 :: u64) = 2 ^ 64 - 2" by (simp_all add: unsigned_minus_1_eq_mask mask_eq_exp_minus_1)
    show ?thesis
    proof (intro conjI notI)
      show False if "brk_id br = - 1" using lt unfolding that m by simp
      show False if "brk_id br = - 2" using lt unfolding that m by simp
    qed
  qed
  then show ?thesis by (auto simp: stamps_left_def)
qed

lemma ready_next:
  assumes r: "ready (Suc n) bw"
    and g: "grown 2 {fst (alloc bw (taken bw))} {snd (alloc bw (taken bw))} (mem bw) w'"
  shows "ready n (bw\<lparr>mem := w', taken := Suc (taken bw)\<rparr>)"
proof -
  have "fresh_ptrs (fst (alloc bw k)) (snd (alloc bw k)) w'" if k: "Suc (taken bw) \<le> k" "k < Suc (taken bw) + n" for k
  proof -
    have f: "fresh_ptrs (fst (alloc bw k)) (snd (alloc bw k)) (mem bw)"
      "fst (alloc bw (taken bw)) \<noteq> fst (alloc bw k)" "snd (alloc bw (taken bw)) \<noteq> snd (alloc bw k)"
      using r k by (auto simp: ready_def)
    then show ?thesis using g by (fastforce simp: grown_def fresh_ptrs_def)
  qed
  moreover have "unat (brk_id br) + 2 * n < 2 ^ 64" if "brks w' b = Some br" for b br
  proof -
    have "\<exists>x. brks (mem bw) b = Some x \<and> unat (brk_id br) \<le> unat (brk_id x) + 2" using g that unfolding grown_def by metis
    then obtain x where x: "brks (mem bw) b = Some x" "unat (brk_id br) \<le> unat (brk_id x) + 2" by blast
    have "unat (brk_id x) + 2 * Suc n < 2 ^ 64" using r x(1) unfolding ready_def by blast
    then show ?thesis using x(2) by simp
  qed
  ultimately show ?thesis using r by (auto simp: ready_def)
qed

section \<open>From the socket to the table\<close>

lemma nl_route_callbacks: "zhash zh \<Longrightarrow> route_callbacks zh (nl_cbs b mnl) (nl_valid mnl) nl_norm"
  by (simp add: route_callbacks_def nl.object_callbacks_axioms)

text \<open>One publish, in any state that satisfies the invariant.\<close>

lemma publish_step:
  assumes rcb: "route_callbacks zh cb valid norm" and ok: "route_ok zh valid w" and f: "fresh_ptrs p dc w"
    and i: "i < ROUTE_PRIORITY_MAX" and d: "valid (norm d)" and st: "stamps_left w"
  shows "\<exists>w'. object_broker_publish zh cb d (int i) p dc w = Some w' \<and> route_ok zh valid w' \<and>
    grown 2 {p} {dc} w w' \<and> rib zh w' = apply_msg cb (norm d) (rib zh w)"
proof -
  let ?u = "w\<lparr>processed_msg := processed_msg w + 1\<rparr>"
  have zh: "zhash zh" using rcb by (simp add: route_callbacks_def)
  have u: "route_ok zh valid ?u" "fresh_ptrs p dc ?u" "stamps_left ?u" using ok f st by auto
  note eq = route_callbacks.object_broker_publish_eq [OF rcb ok f i d st]
  show ?thesis
  proof (cases "topic_of cb (norm d)")
    case None
    let ?v = "w\<lparr>processed_msg := processed_msg w + 1, ignored_msg := ignored_msg w + 1\<rparr>"
    have "rib zh ?v = rib zh w" by (rule rib_cong) simp_all
    moreover have "grown 2 {p} {dc} w ?v" by (auto simp: grown_def)
    ultimately show ?thesis using eq None ok by (simp add: apply_msg_def)
  next
    case (Some td)
    obtain t del where td: "td = (t, del)" by (cases td)
    let ?e = "publish_effect zh t del i p dc (norm d) ?u"
    have ok': "route_ok zh valid ?e" by (rule route_ok_publish_effect [OF zh u(1,2) i d u(3)])
    have "grown 2 {p} {dc} ?u ?e" by (rule grown_publish_effect) simp_all
    then have g: "grown 2 {p} {dc} w (woken ?e (client_list_head w))" by (simp add: grown_def woken_def)
    have "rib zh (woken ?e (client_list_head w)) = rib zh ?e" by (rule rib_cong) simp_all
    also have "\<dots> = (rib zh ?u)(t := if del then None else Some (norm d))"
      by (rule rib_publish_effect [OF zh u(1,2) i d u(3)])
    also have "rib zh ?u = rib zh w" by (rule rib_cong) simp_all
    finally have r: "rib zh (woken ?e (client_list_head w)) = apply_msg cb (norm d) (rib zh w)" using Some td by (simp add: apply_msg_def fun_upd_def)
    have "object_broker_publish zh cb d (int i) p dc w = Some (woken ?e (client_list_head w))" using eq Some td by simp
    then show ?thesis using g r route_ok_woken [OF ok'] by blast
  qed
qed

lemma broker_publish_step:
  assumes zh: "zhash zh" and ok: "route_ok zh (nl_valid mnl) (mem bw)" and rd: "ready (Suc n) bw"
    and d: "nl_valid mnl d" and i: "i < ROUTE_PRIORITY_MAX"
  shows "\<exists>bw'. broker_publish zh b mnl d (int i) bw = Some bw' \<and> route_ok zh (nl_valid mnl) (mem bw') \<and> ready n bw' \<and>
    rib zh (mem bw') = apply_msg (nl_cbs b mnl) d (rib zh (mem bw))"
proof -
  let ?p = "fst (alloc bw (taken bw))" and ?dc = "snd (alloc bw (taken bw))"
  have f: "fresh_ptrs ?p ?dc (mem bw)" using rd by (auto simp: ready_def)
  have "nl_valid mnl (nl_norm d)" using d nl_norm_id by simp
  from publish_step [OF nl_route_callbacks [OF zh, of b mnl] ok f i this ready_stamps [OF rd]] nl_norm_id [OF d]
  obtain w' where w': "object_broker_publish zh (nl_cbs b mnl) d (int i) ?p ?dc (mem bw) = Some w'" "route_ok zh (nl_valid mnl) w'"
    "grown 2 {?p} {?dc} (mem bw) w'" "rib zh w' = apply_msg (nl_cbs b mnl) d (rib zh (mem bw))" by auto
  then show ?thesis using ready_next [OF rd w'(3)] by (simp add: broker_publish_def route_broker_publish_def)
qed

text \<open>A sequence of messages.\<close>

lemma publish_all_table:
  assumes zh: "zhash zh"
  shows "route_ok zh (nl_valid mnl) (mem bw) \<Longrightarrow> ready (length ms) bw \<Longrightarrow>
    \<forall>(d, i) \<in> set ms. nl_valid mnl d \<and> (\<exists>n. i = int n \<and> n < ROUTE_PRIORITY_MAX) \<Longrightarrow>
    \<exists>bw'. publish_all (broker_host zh b mnl) ms bw = Some bw' \<and> route_ok zh (nl_valid mnl) (mem bw') \<and>
      rib zh (mem bw') = fold (apply_msg (nl_cbs b mnl)) (map fst ms) (rib zh (mem bw))"
proof (induction ms arbitrary: bw)
  case (Cons m ms)
  obtain d n where m: "m = (d, int n)" "nl_valid mnl d" "n < ROUTE_PRIORITY_MAX" using Cons(4) by (cases m) auto
  obtain bw1 where b1: "broker_publish zh b mnl d (int n) bw = Some bw1" "route_ok zh (nl_valid mnl) (mem bw1)" "ready (length ms) bw1"
    "rib zh (mem bw1) = apply_msg (nl_cbs b mnl) d (rib zh (mem bw))"
    using broker_publish_step [OF zh Cons(2) _ m(2,3), of "length ms"] Cons(3) by auto
  then show ?case using Cons(1) [OF b1(2,3)] Cons(4) m(1) by (auto simp: broker_host_def)
qed simp

lemma normal_priority: "normal_msg i d \<Longrightarrow> \<exists>n. i = int n \<and> n < ROUTE_PRIORITY_MAX"
  by (auto simp: normal_msg_def intro: exI [of _ 0] exI [of _ 2])

lemma msg_out_cases: "msg_out m = [] \<or> (\<exists>i e x. msg_out m = [(e, i)] \<and> rtnl_normal x = Some (i, e))"
  unfolding msg_out_def by (auto split: option.split)

lemma msg_out_ok: "(d, i) \<in> set (msg_out m) \<Longrightarrow> normal_msg i d"
  using msg_out_cases [of m] rtnl_normal_normal by fastforce

lemma sent_normal: "(d, i) \<in> set (sent buf n) \<Longrightarrow> normal_msg i d"
proof (induction buf n rule: sent.induct)
  case (1 buf n)
  have ne: "sent buf n \<noteq> []" using 1(2) by auto
  then obtain l where l: "nlmsg_len buf = Some l" by (cases "nlmsg_len buf") (auto simp: sent.simps [of buf n])
  then have c: "\<not> (n < 16 \<or> unat l < 16 \<or> n < unat l)" using ne by (auto simp: sent.simps [of buf n])
  then have "sent buf n = msg_out (take (unat l) buf) @ sent (drop (pad4 (unat l)) buf) (n - pad4 (unat l))"
    using l by (subst sent.simps) simp
  then show ?case using 1(2) 1(1) [OF l c] msg_out_ok by auto
qed

text \<open>
  From the socket to the table: an FPM message that arrives in any pieces, with valid netlink
  messages as its payload, is processed without a fault, leaves the rest of the stream alone, and the
  table of the broker afterwards is the table before with the messages applied in the order they
  have in the payload. The state of the broker before is any one that satisfies its invariant,
  whatever consumers there are, and satisfies it again afterwards.
\<close>

theorem fpm_updates_table:
  assumes "zhash zh" and "route_ok zh (nl_valid mnl) (mem (world p))"
    and "fpm_message msg" and "Failed \<notin> set es" and "stream es = msg @ rest" and "length buf = unat FPM_MAX_MSG_LEN"
    and "\<forall>(d, i) \<in> set (sent (drop 4 msg) (length msg - 4)). nl_valid mnl d"
    and "ready (length (sent (drop 4 msg) (length msg - 4))) (world p)"
  shows "\<exists>n es' p'. broker_process_fpm (broker_host zh b mnl) buf es p = Some (n, es', p') \<and> 0 < n \<and> stream es' = rest \<and>
    route_ok zh (nl_valid mnl) (mem (world p')) \<and>
    rib zh (mem (world p')) =
      fold (apply_msg (nl_cbs b mnl)) (map fst (sent (drop 4 msg) (length msg - 4))) (rib zh (mem (world p)))"
proof -
  let ?ms = "sent (drop 4 msg) (length msg - 4)"
  have "\<forall>(d, i) \<in> set ?ms. nl_valid mnl d \<and> (\<exists>n. i = int n \<and> n < ROUTE_PRIORITY_MAX)"
    using assms(7) normal_priority [OF sent_normal] by fast
  from publish_all_table [OF assms(1,2,8) this] obtain bw where bw: "publish_all (broker_host zh b mnl) ?ms (world p) = Some bw"
    "route_ok zh (nl_valid mnl) (mem bw)" "rib zh (mem bw) = fold (apply_msg (nl_cbs b mnl)) (map fst ?ms) (rib zh (mem (world p)))"
    by blast
  have "map_option (\<lambda>(n, es', p'). (0 < n, stream es', world p')) (broker_process_fpm (broker_host zh b mnl) buf es p) =
      Some (True, rest, bw)"
    using broker.process_fpm_sent [OF assms(3-5), of buf zh b mnl p] assms(6) bw(1) by simp
  then show ?thesis using bw(2,3) by auto
qed

text \<open>The route 10.0.2.0/24 arrives in two pieces, with one consumer attached and the first route read.\<close>

definition eg_world :: "(string \<Rightarrow> ptr) broker_world" where
  "eg_world = \<lparr>mem = eg_read, alloc = (\<lambda>k. (40 + 2 * k, 41 + 2 * k)), taken = 0\<rparr>"

definition eg_fpm2 :: bytes where "eg_fpm2 = [1, 1, 0, 40] @ eg_msg 24 2"

definition eg_replaced :: bytes where "eg_replaced = set_nlmsg_flags NLM_F_REPLACE (eg_msg 24 2)"

lemma eg_sent2: "sent (drop 4 eg_fpm2) (length eg_fpm2 - 4) = [(eg_replaced, ROUTE_CONNECTED)]"
  by code_simp

lemma eg_replaced_valid: "nl_valid eg_mnl eg_replaced"
proof -
  have "nlmsg_len eg_replaced = Some 36" "length eg_replaced = 36" by code_simp+
  moreover have "list_all (attr_wide eg_replaced) (snd (eg_mnl eg_replaced SIZEOF_RTMSG))" by code_simp
  ultimately show ?thesis by (simp add: nl_valid_def)
qed

lemma eg_ready: "ready 1 eg_world"
proof -
  have "unat (brk_id br) + 2 < 2 ^ 64" if b: "brks eg_read b = Some br" for b br
  proof -
    have "b \<in> set (route_broker eg_read)" using route_okD(2) [OF eg_system_ok [OF eg_run_read]] b by (auto simp: levels_ok_def)
    moreover have "list_all (\<lambda>b. case brks eg_read b of None \<Rightarrow> True | Some br \<Rightarrow> unat (brk_id br) \<le> 9) (route_broker eg_read)"
      by code_simp
    ultimately have "unat (brk_id br) \<le> 9" using b by (auto simp: list_all_iff)
    then show ?thesis by simp
  qed
  then show ?thesis using eg_fresh(2) by (auto simp: ready_def eg_world_def)
qed

theorem fpm_updates_table_witness:
  "\<exists>n es' p'. broker_process_fpm (broker_host map_zhash eg_build eg_mnl) (replicate 4096 0)
       [Chunk (take 7 eg_fpm2), Chunk (drop 7 eg_fpm2)] \<lparr>stderr = [], world = eg_world\<rparr> = Some (n, es', p') \<and>
     rib map_zhash (mem (world p')) ''r 10.0.2.0/24 0 254'' = Some eg_replaced"
proof -
  let ?p = "\<lparr>stderr = [], world = eg_world\<rparr>"
  have ok: "route_ok map_zhash (nl_valid eg_mnl) (mem (world ?p))" using eg_system_ok [OF eg_run_read] by (simp add: eg_world_def)
  have m: "fpm_message eg_fpm2" by code_simp
  have s: "stream [Chunk (take 7 eg_fpm2), Chunk (drop 7 eg_fpm2)] = eg_fpm2 @ []" by simp
  have t: "topic_of (nl_cbs eg_build eg_mnl) eg_replaced = Some (''r 10.0.2.0/24 0 254'', False)" by code_simp
  have v: "\<forall>(d, i) \<in> set (sent (drop 4 eg_fpm2) (length eg_fpm2 - 4)). nl_valid eg_mnl d"
    "ready (length (sent (drop 4 eg_fpm2) (length eg_fpm2 - 4))) (world ?p)"
    unfolding eg_sent2 using eg_replaced_valid eg_ready by simp_all
  have "length (replicate 4096 (0 :: u8)) = unat FPM_MAX_MSG_LEN" by simp
  from fpm_updates_table [OF map_zhash.zhash_axioms ok m _ s this v, of eg_build]
  show ?thesis unfolding eg_sent2 using t by (auto simp: apply_msg_def)
qed

end
