(* ===== verification/Consumers.thy ===== *)
theory Consumers
  imports Feed
begin

text \<open>
  The threads that read from the broker: one for each dataplane, \<open>src/broker/route_broker_dp_data.c\<close>,
  and one for the kernel, \<open>src/broker/route_broker_kernel.c\<close>. A thread is a state machine whose steps
  are the calls that other threads can come between; each takes what its environment answers.
\<close>

section \<open>The thread of a dataplane\<close>

text \<open>
  What the pipe to the control thread holds; \<open>zsock_events\<close> sees a message when there is one, and
  \<open>zstr_recv\<close> takes it.
\<close>

definition client_needs_restart :: "string list \<Rightarrow> bool \<times> string list" where
  "client_needs_restart pipe =
     (case pipe of
        [] \<Rightarrow> (False, [])
      | str # rest \<Rightarrow> (str = ''$TERM'', rest))"

text \<open>
  Where the thread is: before \<open>route_broker_client_get_data\<close>, at \<open>try_sending\<close> with an object and the
  client of its level, at \<open>stop_client\<close>, or returned.
\<close>

datatype dp_pc = Fetch | Try_sending ptr ptr | Stop_client | Returned

record dp_thread =
  th_pc :: dp_pc
  th_client :: ptr
  th_pipe :: "string list"
  th_ep :: string
  th_bound :: ptr

text \<open>
  The sockets of the dataplanes. \<open>dp_data_sock\<close> is a static variable of \<open>broker_dp_data_client\<close>, so
  all threads that run this function share it; \<open>sock_out\<close> is what was sent on each socket there is.
  The thread keeps no pointer of its own: \<open>th_bound\<close> records the socket that it bound and whose endpoint
  it told the control thread, for the properties.
\<close>

record 'd data_socks =
  dp_data_sock :: ptr
  sock_out :: "ptr \<rightharpoonup> 'd list"

text \<open>
  \<open>client_publish(obj, dp_data_sock)\<close> for an object \<open>d\<close>, when it returns \<open>rc\<close>: 0 means that the object was
  sent. Sending on a socket that is null or destroyed faults.
\<close>

definition client_publish :: "int \<Rightarrow> 'd \<Rightarrow> 'd data_socks \<Rightarrow> 'd data_socks option" where
  "client_publish rc d s = do {
     out \<leftarrow> sock_out s (dp_data_sock s);
     Some (if rc = 0 then s\<lparr>sock_out := (sock_out s)(dp_data_sock s \<mapsto> out @ [d])\<rparr> else s)
   }"

text \<open>\<open>if (client_needs_restart(pipe)) goto stop_client;\<close>, else go on at \<open>go_on\<close>.\<close>

definition restart_or :: "dp_pc \<Rightarrow> dp_thread \<Rightarrow> dp_thread" where
  "restart_or go_on t =
     (case client_needs_restart (th_pipe t) of
        (restart, pipe) \<Rightarrow> t\<lparr>th_pc := if restart then Stop_client else go_on, th_pipe := pipe\<rparr>)"

text \<open>\<open>while ((obj = route_broker_client_get_data(client, &bc)))\<close> and what follows when it is null.\<close>

definition dp_fetch ::
  "'h zhash_ops \<Rightarrow> 'd object_cbs \<Rightarrow> ptr \<Rightarrow> (int \<times> ('d, 'h) route_mem) list \<Rightarrow> dp_thread \<Rightarrow> ('d, 'h) route_mem
    \<Rightarrow> (dp_thread \<times> ('d, 'h) route_mem) option" where
  "dp_fetch zh cb malloc_ret waits t w = do {
     (r, w) \<leftarrow> route_broker_client_get_data zh cb (th_client t) malloc_ret waits w;
     Some (case r of
        Got obj bc \<Rightarrow> if obj \<noteq> NULL then t\<lparr>th_pc := Try_sending obj bc\<rparr> else restart_or Fetch t
      | Timed_out \<Rightarrow> restart_or Fetch t
      | Blocked \<Rightarrow> t, w)
   }"

abbreviation EAGAIN :: int where "EAGAIN \<equiv> 11"

text \<open>\<open>client->errors++\<close>.\<close>

definition count_error :: "ptr \<Rightarrow> ('d, 'h) route_mem \<Rightarrow> ('d, 'h) route_mem option" where
  "count_error rc w = do {
     rcl \<leftarrow> rclis w rc;
     Some (w\<lparr>rclis := (rclis w)(rc \<mapsto> rcl\<lparr>errors := errors rcl + 1\<rparr>)\<rparr>)
   }"

text \<open>The arguments of the log messages are read from the client of the level and from its broker.\<close>

definition log_args :: "ptr \<Rightarrow> ('d, 'h) route_mem \<Rightarrow> (string \<times> u64 \<times> u64) option" where
  "log_args bc w = do {
     cl \<leftarrow> clis w bc;
     br \<leftarrow> brks w (cl_broker cl);
     Some (name cl, consumed cl, brk_id br - obj_id (cl_obj cl))
   }"

text \<open>
  The body of the loop from \<open>try_sending\<close> on, when \<open>client_publish\<close> returns \<open>rc\<close> and leaves \<open>errno\<close>.
  \<open>detail\<close> is whether the detailed log is on.
\<close>

definition dp_try_sending ::
  "'d object_cbs \<Rightarrow> bool \<Rightarrow> int \<Rightarrow> int \<Rightarrow> ptr \<Rightarrow> ptr \<Rightarrow> dp_thread \<Rightarrow> 'd data_socks \<Rightarrow> ('d, 'h) route_mem
    \<Rightarrow> (dp_thread \<times> 'd data_socks \<times> ('d, 'h) route_mem) option" where
  "dp_try_sending cb detail rc errno obj bc t s w = do {
     d \<leftarrow> datas w obj;
     s \<leftarrow> client_publish rc d s;
     if rc \<noteq> 0 then do {
       w \<leftarrow> (if errno \<noteq> EAGAIN then do {
              w \<leftarrow> count_error (th_client t) w;
              _ \<leftarrow> log_args bc w;
              Some w
            } else Some w);
       let t = restart_or (Try_sending obj bc) t;
       if th_pc t = Stop_client then do {
         w \<leftarrow> route_broker_client_free_data cb (th_client t) obj w;
         Some (t, s, w)
       } else Some (t, s, w)
     } else do {
       _ \<leftarrow> (if detail then map_option (\<lambda>_. ()) (log_args bc w) else Some ());
       w \<leftarrow> route_broker_client_free_data cb (th_client t) obj w;
       Some (restart_or Fetch t, s, w)
     }
   }"

text \<open>\<open>zsock_destroy(&dp_data_sock)\<close> does nothing with a null pointer, and leaves one.\<close>

definition dp_stop_client ::
  "'h zhash_ops \<Rightarrow> 'd object_cbs \<Rightarrow> dp_thread \<Rightarrow> 'd data_socks \<Rightarrow> ('d, 'h) route_mem
    \<Rightarrow> (dp_thread \<times> 'd data_socks \<times> ('d, 'h) route_mem) option" where
  "dp_stop_client zh cb t s w = do {
     w \<leftarrow> route_broker_client_delete zh cb (th_client t) w;
     s \<leftarrow> (if dp_data_sock s = NULL then Some s
          else do {
            _ \<leftarrow> sock_out s (dp_data_sock s);
            Some (s\<lparr>sock_out := (sock_out s)(dp_data_sock s := None), dp_data_sock := NULL\<rparr>)
          });
     Some (t\<lparr>th_pc := Returned\<rparr>, s, w)
   }"

text \<open>
  The socket of a dataplane. \<open>stack\<close> is what the memory of \<open>ep_dir\<close> holds when the function is
  entered, \<open>PATH_MAX\<close> characters; the result is the endpoint and the paths whose permissions were
  changed. \<open>None\<close> is a failed assertion, or an access outside of \<open>ep_dir\<close>.
\<close>

record data_sock_ops =
  push_new :: ptr
  bind_rc :: "string \<Rightarrow> int"
  last_endpoint :: string
  chmod_rc :: "string \<Rightarrow> int"

abbreviation NUL :: char where "NUL \<equiv> CHR 0x00"

text \<open>\<open>strrchr(s, '/')\<close> on the memory \<open>s\<close>: the index, if the text up to the first \<open>NUL\<close> has one.\<close>

definition last_slash :: "string \<Rightarrow> nat option option" where
  "last_slash s =
     (let t = takeWhile (\<lambda>c. c \<noteq> NUL) s in
      if t = s then None
      else if CHR ''/'' \<in> set t then Some (Some (length t - Suc (length (takeWhile (\<lambda>c. c \<noteq> CHR ''/'') (rev t)))))
      else Some None)"

definition broker_dp_data_init ::
  "data_sock_ops \<Rightarrow> string \<Rightarrow> string \<Rightarrow> (string \<times> string list) option" where
  "broker_dp_data_init so stack sock_ep =
     (if push_new so = NULL then None
      else if bind_rc so sock_ep < 0 then None
      else do {
        let actual_ep = last_endpoint so;
        if take 6 actual_ep = ''ipc://'' then do {
          let path = drop 6 actual_ep;
          if chmod_rc so path < 0 then None
          else if sock_ep = ''ipc://*'' \<and> CHR ''/'' \<in> set path then
            if length path \<le> length stack then do {
              let ep_dir = path @ drop (length path) stack;
              i \<leftarrow> last_slash ep_dir;
              i \<leftarrow> i;
              let dir = take i ep_dir;
              if chmod_rc so dir < 0 then None else Some (actual_ep, [path, dir])
            } else None
          else Some (actual_ep, [path])
        } else Some (actual_ep, [])
      })"

text \<open>The start: the client, the socket, the endpoint for the control thread, the top of the loop.\<close>

definition dp_start ::
  "'h zhash_ops \<Rightarrow> 'd object_cbs \<Rightarrow> data_sock_ops \<Rightarrow> string \<Rightarrow> string \<Rightarrow> ptr \<Rightarrow> (ptr \<times> bool) list \<Rightarrow> int
    \<Rightarrow> 'd data_socks \<Rightarrow> ('d, 'h) route_mem \<Rightarrow> (dp_thread \<times> 'd data_socks \<times> ('d, 'h) route_mem) option" where
  "dp_start zh cb so stack sock_ep rc ms cond_rc s w = do {
     (client, w) \<leftarrow> route_broker_client_create zh cb (Some ''dp'') rc ms cond_rc w;
     (ep, _) \<leftarrow> broker_dp_data_init so stack sock_ep;
     Some (\<lparr>th_pc = Fetch, th_client = client, th_pipe = [], th_ep = ep, th_bound = push_new so\<rparr>,
       s\<lparr>dp_data_sock := push_new so, sock_out := (sock_out s)(push_new so \<mapsto> [])\<rparr>, w)
   }"

text \<open>\<open>broker_dp_data_client\<close>, one step at a time; \<open>ev\<close> is what the environment answers.\<close>

datatype ('d, 'h) dp_event =
    Memory ptr "(int \<times> ('d, 'h) route_mem) list"
  | Sent int int
  | Command string
  | Nothing

definition broker_dp_data_client ::
  "'h zhash_ops \<Rightarrow> 'd object_cbs \<Rightarrow> bool \<Rightarrow> ('d, 'h) dp_event \<Rightarrow> dp_thread \<Rightarrow> 'd data_socks \<Rightarrow> ('d, 'h) route_mem
    \<Rightarrow> (dp_thread \<times> 'd data_socks \<times> ('d, 'h) route_mem) option" where
  "broker_dp_data_client zh cb detail ev t s w =
     (case (ev, th_pc t) of
        (Command str, _) \<Rightarrow> Some (t\<lparr>th_pipe := th_pipe t @ [str]\<rparr>, s, w)
      | (Memory m waits, Fetch) \<Rightarrow> do {
          (t, w) \<leftarrow> dp_fetch zh cb m waits t w;
          Some (t, s, w)
        }
      | (Sent rc errno, Try_sending obj bc) \<Rightarrow> dp_try_sending cb detail rc errno obj bc t s w
      | (Nothing, Stop_client) \<Rightarrow> dp_stop_client zh cb t s w
      | _ \<Rightarrow> Some (t, s, w))"

section \<open>The thread of the kernel\<close>

datatype kernel_pc = K_fetch | K_publish ptr ptr

record 'd kernel_thread =
  k_pc :: kernel_pc
  k_client :: ptr
  k_handed :: "'d list"

definition kernel_start ::
  "'h zhash_ops \<Rightarrow> 'd object_cbs \<Rightarrow> ptr \<Rightarrow> (ptr \<times> bool) list \<Rightarrow> int
    \<Rightarrow> ('d, 'h) route_mem \<Rightarrow> ('d kernel_thread \<times> ('d, 'h) route_mem) option" where
  "kernel_start zh cb rc ms cond_rc w = do {
     (client, w) \<leftarrow> route_broker_client_create zh cb (Some ''kernel'') rc ms cond_rc w;
     Some (\<lparr>k_pc = K_fetch, k_client = client, k_handed = []\<rparr>, w)
   }"

definition kernel_fetch ::
  "'h zhash_ops \<Rightarrow> 'd object_cbs \<Rightarrow> ptr \<Rightarrow> (int \<times> ('d, 'h) route_mem) list \<Rightarrow> 'd kernel_thread \<Rightarrow> ('d, 'h) route_mem
    \<Rightarrow> ('d kernel_thread \<times> ('d, 'h) route_mem) option" where
  "kernel_fetch zh cb malloc_ret waits t w = do {
     (r, w) \<leftarrow> route_broker_client_get_data zh cb (k_client t) malloc_ret waits w;
     Some (case r of
        Got obj bc \<Rightarrow> if obj \<noteq> NULL then t\<lparr>k_pc := K_publish obj bc\<rparr> else t
      | Timed_out \<Rightarrow> t
      | Blocked \<Rightarrow> t, w)
   }"

definition kernel_hand_over ::
  "'d object_cbs \<Rightarrow> bool \<Rightarrow> int \<Rightarrow> ptr \<Rightarrow> ptr \<Rightarrow> 'd kernel_thread \<Rightarrow> ('d, 'h) route_mem
    \<Rightarrow> ('d kernel_thread \<times> ('d, 'h) route_mem) option" where
  "kernel_hand_over cb detail rc obj bc t w = do {
     d \<leftarrow> datas w obj;
     w \<leftarrow> (if rc \<noteq> 0 then do {
            w \<leftarrow> count_error (k_client t) w;
            _ \<leftarrow> log_args bc w;
            Some w
          } else if detail then do {
            _ \<leftarrow> log_args bc w;
            Some w
          } else Some w);
     w \<leftarrow> route_broker_client_free_data cb (k_client t) obj w;
     Some (t\<lparr>k_pc := K_fetch, k_handed := k_handed t @ [d]\<rparr>, w)
   }"

definition broker_consumer ::
  "'h zhash_ops \<Rightarrow> 'd object_cbs \<Rightarrow> bool \<Rightarrow> ('d, 'h) dp_event \<Rightarrow> 'd kernel_thread \<Rightarrow> ('d, 'h) route_mem
    \<Rightarrow> ('d kernel_thread \<times> ('d, 'h) route_mem) option" where
  "broker_consumer zh cb detail ev t w =
     (case (ev, k_pc t) of
        (Memory m waits, K_fetch) \<Rightarrow> kernel_fetch zh cb m waits t w
      | (Sent rc errno, K_publish obj bc) \<Rightarrow> kernel_hand_over cb detail rc obj bc t w
      | _ \<Rightarrow> Some (t, w))"

end
