(* ===== verification/Broker_Init.thy ===== *)
theory Broker_Init
  imports Consumers
begin

text \<open>
  Starting and stopping the library: the end of \<open>src/broker/route_broker.c\<close> and the parts of
  \<open>src/broker/route_broker_dp_ctrl.c\<close> and \<open>src/broker/route_broker_kernel.c\<close> that start and stop the
  threads.
\<close>

section \<open>What a user of the library gives\<close>

datatype object_broker_client_type = OB_CLIENT_CB | OB_CLIENT_DP_ZSOCK

text \<open>
  Of the callbacks for logging and publishing it only matters here whether they are set; \<open>is_log_detail\<close> is a
  pointer to a flag.
\<close>

record log_cbs =
  log_debug :: bool
  log_error :: bool
  log_dp_detail :: bool
  is_log_detail :: "bool option"

text \<open>Where a message of the library goes: the macros of \<open>src/broker/route_broker_internal.h\<close>.\<close>

datatype log_dest = To_callback | To_stderr | Nowhere

definition lib_log_debug :: "log_cbs \<Rightarrow> log_dest" where
  "lib_log_debug l = (if log_debug l then To_callback else Nowhere)"

definition lib_log_err :: "log_cbs \<Rightarrow> log_dest" where
  "lib_log_err l = (if log_error l then To_callback else To_stderr)"

definition broker_is_log_detail :: "log_cbs \<Rightarrow> bool" where
  "broker_is_log_detail l = (case is_log_detail l of None \<Rightarrow> False | Some flag \<Rightarrow> flag)"

definition broker_log_dp_detail :: "log_cbs \<Rightarrow> log_dest" where
  "broker_log_dp_detail l = (if log_dp_detail l \<and> broker_is_log_detail l then To_callback else Nowhere)"

record 'd object_broker_init =
  init_topic_gen :: "('d \<Rightarrow> nat \<Rightarrow> (int \<times> string \<times> bool) option) option"
  init_copy_obj :: "(ptr \<Rightarrow> 'd \<Rightarrow> (ptr \<rightharpoonup> 'd) \<Rightarrow> (ptr \<times> (ptr \<rightharpoonup> 'd)) option) option"
  init_free_obj :: "(ptr \<Rightarrow> (ptr \<rightharpoonup> 'd) \<Rightarrow> (ptr \<rightharpoonup> 'd) option) option"
  init_logs :: log_cbs

record object_broker_client_init =
  client_type :: object_broker_client_type
  has_publish :: bool
  cfg_file :: "string option"
  client_data_format :: u32

text \<open>
  The variables of the library: the memory of the broker, the callbacks, the control thread with its
  arguments, and whether \<open>broker_consumer_thread\<close> names a thread that can be joined.
\<close>

record dp_ctrl_client_args =
  args_cfgfile :: string
  args_data_format :: u32

record ('d, 'h) broker_lib =
  lib_mem :: "('d, 'h) route_mem"
  lib_cbs :: "'d object_cbs option"
  lib_logs :: log_cbs
  broker_dp_ctrl_thread :: "dp_ctrl_client_args option"
  broker_dp_client_publish :: bool
  broker_consumer_thread :: bool
  obj_kernel_publish :: bool

record init_answers =
  broker_callocs :: "ptr \<times> ptr \<times> ptr"
  ctrl_calloc :: bool
  ctrl_actor :: bool
  pthread_create_rc :: int

section \<open>The threads\<close>

definition route_broker_dataplane_ctrl_init ::
  "init_answers \<Rightarrow> string \<Rightarrow> bool \<Rightarrow> u32 \<Rightarrow> ('d, 'h) broker_lib \<Rightarrow> int \<times> ('d, 'h) broker_lib" where
  "route_broker_dataplane_ctrl_init a cfgfile pub data_format l =
     (if \<not> ctrl_calloc a then (- 1, l)
      else
        let l = l\<lparr>broker_dp_client_publish := pub,
                  broker_dp_ctrl_thread := (if ctrl_actor a then Some \<lparr>args_cfgfile = cfgfile, args_data_format = data_format\<rparr> else None)\<rparr> in
        if broker_dp_ctrl_thread l \<noteq> None then (0, l) else (- 1, l))"

text \<open>
  \<open>zactor_destroy\<close> waits for the end of the control thread, which closes the sessions: \<open>quit\<close> is what
  the threads that end do to the memory of the broker.
\<close>

definition route_broker_dataplane_ctrl_shutdown ::
  "(('d, 'h) route_mem \<Rightarrow> ('d, 'h) route_mem option) \<Rightarrow> ('d, 'h) broker_lib \<Rightarrow> ('d, 'h) broker_lib option" where
  "route_broker_dataplane_ctrl_shutdown quit l =
     (if broker_dp_ctrl_thread l = None then Some l
      else do {
        w \<leftarrow> quit (lib_mem l);
        Some (l\<lparr>lib_mem := w, broker_dp_ctrl_thread := None\<rparr>)
      })"

definition route_broker_kernel_init :: "init_answers \<Rightarrow> bool \<Rightarrow> ('d, 'h) broker_lib \<Rightarrow> int \<times> ('d, 'h) broker_lib" where
  "route_broker_kernel_init a pub l =
     (pthread_create_rc a,
      l\<lparr>obj_kernel_publish := pub, broker_consumer_thread := (pthread_create_rc a = 0 \<or> broker_consumer_thread l)\<rparr>)"

text \<open>\<open>pthread_cancel\<close> and \<open>pthread_join\<close> of a variable that names no thread are undefined: a fault.\<close>

definition route_broker_kernel_shutdown :: "('d, 'h) broker_lib \<Rightarrow> ('d, 'h) broker_lib option" where
  "route_broker_kernel_shutdown l =
     (if broker_consumer_thread l then Some (l\<lparr>broker_consumer_thread := False\<rparr>) else None)"

section \<open>The object broker\<close>

abbreviation EINVAL :: int where "EINVAL \<equiv> 22"

text \<open>The tests of the clients; \<open>None\<close> is a read behind the end of the array.\<close>

definition clients_invalid :: "u32 \<Rightarrow> object_broker_client_init list \<Rightarrow> bool option" where
  "clients_invalid num_clients clients =
     (if num_clients \<noteq> 1 \<and> num_clients \<noteq> 2 then Some True
      else do {
        c0 \<leftarrow> arr clients 0;
        if client_type c0 \<noteq> OB_CLIENT_DP_ZSOCK \<or> cfg_file c0 = None \<or> \<not> has_publish c0 then Some True
        else if num_clients = 2 then do {
          c1 \<leftarrow> arr clients 1;
          Some (client_type c1 \<noteq> OB_CLIENT_CB \<or> \<not> has_publish c1)
        } else Some False
      })"

definition init_cbs :: "'d object_broker_init \<Rightarrow> 'd object_cbs option" where
  "init_cbs i = do {
     tg \<leftarrow> init_topic_gen i;
     co \<leftarrow> init_copy_obj i;
     fo \<leftarrow> init_free_obj i;
     Some \<lparr>topic_gen = tg, copy_obj = co, free_obj = fo\<rparr>
   }"

text \<open>What follows the tests: the broker, then the threads.\<close>

definition init_start ::
  "'h zhash_ops \<Rightarrow> init_answers \<Rightarrow> 'd object_cbs \<Rightarrow> log_cbs \<Rightarrow> u32 \<Rightarrow> object_broker_client_init list
    \<Rightarrow> ('d, 'h) broker_lib \<Rightarrow> (int \<times> ('d, 'h) broker_lib) option" where
  "init_start zh a cb logs num_clients clients l = do {
     let l = l\<lparr>lib_cbs := Some cb, lib_logs := logs\<rparr>;
     (rc, w) \<leftarrow> (case broker_callocs a of (m0, m1, m2) \<Rightarrow> route_broker_init zh cb m0 m1 m2 (lib_mem l));
     if rc \<noteq> 0 then None
     else do {
       c0 \<leftarrow> arr clients 0;
       cfgfile \<leftarrow> cfg_file c0;
       let (rc, l) = route_broker_dataplane_ctrl_init a cfgfile (has_publish c0) (client_data_format c0) (l\<lparr>lib_mem := w\<rparr>);
       if num_clients = 2 then do {
         c1 \<leftarrow> arr clients 1;
         let (krc, l) = route_broker_kernel_init a (has_publish c1) l;
         Some (rc OR krc, l)
       } else Some (rc, l)
     }
   }"

definition object_broker_init_all ::
  "'h zhash_ops \<Rightarrow> init_answers \<Rightarrow> 'd object_broker_init option \<Rightarrow> u32 \<Rightarrow> object_broker_client_init list
    \<Rightarrow> ('d, 'h) broker_lib \<Rightarrow> (int \<times> ('d, 'h) broker_lib) option" where
  "object_broker_init_all zh a init num_clients clients l =
     (case init of
        None \<Rightarrow> Some (- EINVAL, l)
      | Some i \<Rightarrow>
          (case init_cbs i of
             None \<Rightarrow> Some (- EINVAL, l)
           | Some cb \<Rightarrow> do {
               bad \<leftarrow> clients_invalid num_clients clients;
               if bad then Some (- EINVAL, l) else init_start zh a cb (init_logs i) num_clients clients l
             }))"

definition object_broker_shutdown_all ::
  "(('d, 'h) route_mem \<Rightarrow> ('d, 'h) route_mem option) \<Rightarrow> ('d, 'h) broker_lib \<Rightarrow> ('d, 'h) broker_lib option" where
  "object_broker_shutdown_all quit l = do {
     l \<leftarrow> route_broker_dataplane_ctrl_shutdown quit l;
     l \<leftarrow> route_broker_kernel_shutdown l;
     (_, w) \<leftarrow> route_broker_destroy (lib_mem l);
     Some (l\<lparr>lib_mem := w\<rparr>)
   }"

section \<open>Netlink routes\<close>

definition rib_nl_kernel_publish_wrapper :: "(bytes \<Rightarrow> int) \<Rightarrow> bytes \<Rightarrow> int" where
  "rib_nl_kernel_publish_wrapper rib_nl_kernel_publish obj = rib_nl_kernel_publish obj"

text \<open>
  The result, and what was sent on the socket. \<open>frame\<close> is whether \<open>zframe_new\<close> succeeds, which copies
  \<open>nlmsg_len\<close> bytes from \<open>obj\<close>, and \<open>send_ret\<close> what \<open>zframe_send\<close> returns.
\<close>

definition rib_nl_dp_publish_route :: "bool \<Rightarrow> int \<Rightarrow> bytes \<Rightarrow> (int \<times> bytes option) option" where
  "rib_nl_dp_publish_route frame send_ret obj = do {
     len \<leftarrow> nlmsg_len obj;
     if \<not> frame then Some (- 1, None)
     else if length obj < unat len then None
     else Some (send_ret, if send_ret < 0 then None else Some (take (unat len) obj))
   }"

record route_broker_init_args =
  kernel_publish :: bool
  rb_logs :: log_cbs

definition no_logs :: log_cbs where
  "no_logs = \<lparr>log_debug = False, log_error = False, log_dp_detail = False, is_log_detail = None\<rparr>"

definition route_broker_init_all ::
  "'h zhash_ops \<Rightarrow> build \<Rightarrow> mnl_parse \<Rightarrow> init_answers \<Rightarrow> route_broker_init_args option
    \<Rightarrow> (bytes, 'h) broker_lib \<Rightarrow> (int \<times> (bytes, 'h) broker_lib) option" where
  "route_broker_init_all zh b mnl a init l =
     (let logs = (case init of
            None \<Rightarrow> no_logs
          | Some i \<Rightarrow> no_logs\<lparr>log_debug := log_debug (rb_logs i), log_error := log_error (rb_logs i)\<rparr>);
        obj_init = \<lparr>init_topic_gen = Some (route_topic b mnl), init_copy_obj = Some rib_nl_copy, init_free_obj = Some rib_nl_free,
          init_logs = logs\<rparr>;
        c0 = \<lparr>client_type = OB_CLIENT_DP_ZSOCK, has_publish = True, cfg_file = Some ''/etc/vyatta-routing/rib.conf'',
          client_data_format = 0\<rparr>;
        unset = \<lparr>client_type = OB_CLIENT_CB, has_publish = False, cfg_file = None, client_data_format = 0\<rparr>;
        kernel = (case init of None \<Rightarrow> False | Some i \<Rightarrow> kernel_publish i) in
      object_broker_init_all zh a (Some obj_init) (if kernel then 2 else 1) [c0, unset\<lparr>has_publish := kernel\<rparr>] l)"

definition route_broker_shutdown_all ::
  "((bytes, 'h) route_mem \<Rightarrow> (bytes, 'h) route_mem option) \<Rightarrow> (bytes, 'h) broker_lib \<Rightarrow> (bytes, 'h) broker_lib option" where
  "route_broker_shutdown_all quit l = object_broker_shutdown_all quit l"

section \<open>Start\<close>

text \<open>What a user must give.\<close>

definition valid_init :: "'d object_broker_init option \<Rightarrow> u32 \<Rightarrow> object_broker_client_init list \<Rightarrow> bool" where
  "valid_init init num_clients clients \<longleftrightarrow>
     (\<exists>i. init = Some i \<and> init_topic_gen i \<noteq> None \<and> init_copy_obj i \<noteq> None \<and> init_free_obj i \<noteq> None) \<and>
     (num_clients = 1 \<or> num_clients = 2) \<and>
     client_type (clients ! 0) = OB_CLIENT_DP_ZSOCK \<and> cfg_file (clients ! 0) \<noteq> None \<and> has_publish (clients ! 0) \<and>
     (num_clients = 2 \<longrightarrow> client_type (clients ! 1) = OB_CLIENT_CB \<and> has_publish (clients ! 1))"

lemma arr_nth: "i < length xs \<Longrightarrow> arr xs (int i) = Some (xs ! i)"
  by (simp add: arr_def)

lemma clients_invalid_eq:
  assumes "length clients = unat num_clients"
  shows "clients_invalid num_clients clients = Some (\<not> ((num_clients = 1 \<or> num_clients = 2) \<and>
    client_type (clients ! 0) = OB_CLIENT_DP_ZSOCK \<and> cfg_file (clients ! 0) \<noteq> None \<and> has_publish (clients ! 0) \<and>
    (num_clients = 2 \<longrightarrow> client_type (clients ! 1) = OB_CLIENT_CB \<and> has_publish (clients ! 1))))"
  using arr_nth [of 0 clients] arr_nth [of 1 clients] assms by (auto simp: clients_invalid_def)

text \<open>
  C29. The start of the library checks its arguments: with an incomplete or wrong argument it returns
  \<open>- EINVAL\<close> and changes nothing; otherwise, with memory and threads to be had, it returns 0 with the empty
  table in a state that satisfies the invariant, the callbacks of the user, and the control thread
  running with the file and the data format of the first client.
\<close>

theorem init_all_checks:
  assumes "zhash zh" and "pristine (lib_mem l)" and "zhash_new zh = Some h" and "length clients = unat num_clients"
    and "broker_callocs a = (m0, m1, m2)" and "distinct [m0, m1, m2]" and "NULL \<notin> {m0, m1, m2}" and "ctrl_calloc a" and "ctrl_actor a"
    and "pthread_create_rc a = 0"
  shows "if valid_init init num_clients clients
    then \<exists>l'. object_broker_init_all zh a init num_clients clients l = Some (0, l') \<and> route_ok zh valid (lib_mem l') \<and>
      rib zh (lib_mem l') = Map.empty \<and> lib_cbs l' = init_cbs (the init) \<and>
      broker_dp_ctrl_thread l' = Some \<lparr>args_cfgfile = the (cfg_file (clients ! 0)), args_data_format = client_data_format (clients ! 0)\<rparr> \<and>
      (broker_consumer_thread l' \<longleftrightarrow> num_clients = 2 \<or> broker_consumer_thread l)
    else object_broker_init_all zh a init num_clients clients l = Some (- EINVAL, l)"
proof (cases "valid_init init num_clients clients")
  case False
  then show ?thesis
    using clients_invalid_eq [OF assms(4)]
    by (auto simp: object_broker_init_all_def valid_init_def init_cbs_def Option.bind_eq_Some_conv split: option.splits)
next
  case True
  then obtain i tg co fo cfg where i: "init = Some i" "init_topic_gen i = Some tg" "init_copy_obj i = Some co" "init_free_obj i = Some fo"
    "cfg_file (clients ! 0) = Some cfg" unfolding valid_init_def by blast
  define cb where "cb = \<lparr>topic_gen = tg, copy_obj = co, free_obj = fo\<rparr>"
  have cbs: "init_cbs i = Some cb" using i by (simp add: init_cbs_def cb_def)
  obtain w where w: "route_broker_init zh cb m0 m1 m2 (lib_mem l) = Some (0, w)" "route_ok zh valid w" "rib zh w = Map.empty"
    using route_broker_init_eq [OF assms(2,6) _ _ _ assms(3)] route_broker_init_ok [OF assms(1,2,6) _ _ _ assms(3)] assms(7) by fastforce
  have n: "clients_invalid num_clients clients = Some False" "num_clients = 1 \<or> num_clients = 2"
    using True clients_invalid_eq [OF assms(4)] by (auto simp: valid_init_def)
  have c: "arr clients 0 = Some (clients ! 0)" "num_clients = 2 \<Longrightarrow> arr clients 1 = Some (clients ! 1)"
    using n(2) assms(4) arr_nth [of 0 clients] arr_nth [of 1 clients] by auto
  show ?thesis using True i cbs n c w assms(5,8-10)
    by (auto simp: object_broker_init_all_def init_start_def route_broker_dataplane_ctrl_init_def route_broker_kernel_init_def)
qed

text \<open>A start with the two clients the library supports, on the memory of a fresh process.\<close>

definition eg_lib :: "(bytes, string \<Rightarrow> ptr) broker_lib" where
  "eg_lib = \<lparr>lib_mem = eg_start, lib_cbs = None, lib_logs = no_logs, broker_dp_ctrl_thread = None, broker_dp_client_publish = False,
     broker_consumer_thread = False, obj_kernel_publish = False\<rparr>"

definition eg_init_answers :: init_answers where
  "eg_init_answers = \<lparr>broker_callocs = (1, 2, 3), ctrl_calloc = True, ctrl_actor = True, pthread_create_rc = 0\<rparr>"

definition eg_clients :: "object_broker_client_init list" where
  "eg_clients = [\<lparr>client_type = OB_CLIENT_DP_ZSOCK, has_publish = True, cfg_file = Some ''rib.conf'', client_data_format = 7\<rparr>,
     \<lparr>client_type = OB_CLIENT_CB, has_publish = True, cfg_file = None, client_data_format = 0\<rparr>]"

definition eg_obj_init :: "bytes object_broker_init" where
  "eg_obj_init = \<lparr>init_topic_gen = Some (topic_gen eg_cb), init_copy_obj = Some (copy_obj eg_cb), init_free_obj = Some (free_obj eg_cb),
     init_logs = no_logs\<rparr>"

lemma eg_lib_pristine: "pristine (lib_mem eg_lib)"
  by (simp add: eg_lib_def pristine_def eg_start_def)

theorem init_all_checks_witness:
  "(\<exists>l'. object_broker_init_all map_zhash eg_init_answers (Some eg_obj_init) 2 eg_clients eg_lib = Some (0, l') \<and>
      broker_dp_ctrl_thread l' = Some \<lparr>args_cfgfile = ''rib.conf'', args_data_format = 7\<rparr>) \<and>
   object_broker_init_all map_zhash eg_init_answers (Some eg_obj_init) 2 (rev eg_clients) eg_lib = Some (- EINVAL, eg_lib)"
proof
  have h: "zhash_new map_zhash = Some (\<lambda>_. NULL)" by (simp add: map_zhash_def)
  note a = eg_init_answers_def eg_clients_def eg_obj_init_def valid_init_def
  show "\<exists>l'. object_broker_init_all map_zhash eg_init_answers (Some eg_obj_init) 2 eg_clients eg_lib = Some (0, l') \<and>
      broker_dp_ctrl_thread l' = Some \<lparr>args_cfgfile = ''rib.conf'', args_data_format = 7\<rparr>"
    using init_all_checks [OF map_zhash.zhash_axioms eg_lib_pristine h, of eg_clients 2 eg_init_answers 1 2 3 "Some eg_obj_init"] by (auto simp: a)
  show "object_broker_init_all map_zhash eg_init_answers (Some eg_obj_init) 2 (rev eg_clients) eg_lib = Some (- EINVAL, eg_lib)"
    using init_all_checks [OF map_zhash.zhash_axioms eg_lib_pristine h, of "rev eg_clients" 2 eg_init_answers 1 2 3 "Some eg_obj_init"] by (simp add: a)
qed

section \<open>Stop\<close>

lemma ctrl_init_consumer: "broker_consumer_thread (snd (route_broker_dataplane_ctrl_init a f p fmt l)) = broker_consumer_thread l"
  by (simp add: route_broker_dataplane_ctrl_init_def Let_def)

lemma init_start_consumer:
  assumes "init_start zh a cb logs num_clients clients l = Some (rc, l')" and "num_clients \<noteq> 2"
  shows "broker_consumer_thread l' = broker_consumer_thread l"
proof -
  obtain f p fmt w where "route_broker_dataplane_ctrl_init a f p fmt (l\<lparr>lib_cbs := Some cb, lib_logs := logs, lib_mem := w\<rparr>) = (rc, l')"
    using assms by (auto simp: init_start_def Let_def Option.bind_eq_Some_conv split: if_splits prod.splits)
  then show ?thesis using ctrl_init_consumer [of a f p fmt "l\<lparr>lib_cbs := Some cb, lib_logs := logs, lib_mem := w\<rparr>"] by simp
qed

lemma init_all_consumer:
  assumes "route_broker_init_all zh b mnl a init l = Some (rc, l')" and "\<forall>i. init = Some i \<longrightarrow> \<not> kernel_publish i"
  shows "broker_consumer_thread l' = broker_consumer_thread l"
proof -
  have k: "(case init of None \<Rightarrow> False | Some i \<Rightarrow> kernel_publish i) = False" using assms(2) by (auto split: option.split)
  have "\<exists>cb logs clients. init_start zh a cb logs 1 clients l = Some (rc, l')"
    using assms(1) unfolding route_broker_init_all_def k Let_def by (auto simp: object_broker_init_all_def init_cbs_def clients_invalid_def arr_def)
  then show ?thesis using init_start_consumer by fastforce
qed

text \<open>
  A library without a kernel client cannot be shut down: after a start whose argument has no
  \<open>kernel_publish\<close>, whatever happened to the memory of the broker since, \<open>route_broker_shutdown_all\<close> cancels
  a thread that was never created.
\<close>

theorem shutdown_without_kernel_faults:
  assumes "route_broker_init_all zh b mnl a init l = Some (rc, l')" and "\<forall>i. init = Some i \<longrightarrow> \<not> kernel_publish i"
    and "\<not> broker_consumer_thread l"
  shows "route_broker_shutdown_all quit (l'\<lparr>lib_mem := w\<rparr>) = None"
  using init_all_consumer [OF assms(1,2)] assms(3)
  by (cases "quit w") (simp_all add: route_broker_shutdown_all_def object_broker_shutdown_all_def
      route_broker_dataplane_ctrl_shutdown_def route_broker_kernel_shutdown_def)

definition eg_rb_init :: route_broker_init_args where
  "eg_rb_init = \<lparr>kernel_publish = False, rb_logs = no_logs\<lparr>log_debug := True, log_error := True\<rparr>\<rparr>"

theorem shutdown_without_kernel_faults_witness:
  "\<exists>rc l'. route_broker_init_all map_zhash eg_build eg_mnl eg_init_answers (Some eg_rb_init) eg_lib = Some (rc, l') \<and>
     route_broker_shutdown_all Some (l'\<lparr>lib_mem := eg_published\<rparr>) = None"
proof -
  have "route_broker_init_all map_zhash eg_build eg_mnl eg_init_answers (Some eg_rb_init) eg_lib \<noteq> None" by code_simp
  then obtain rc l' where i: "route_broker_init_all map_zhash eg_build eg_mnl eg_init_answers (Some eg_rb_init) eg_lib = Some (rc, l')" by auto
  from shutdown_without_kernel_faults [OF i] show ?thesis using i by (auto simp: eg_rb_init_def eg_lib_def)
qed

section \<open>Logging\<close>

lemma init_start_logs:
  assumes "init_start zh a cb logs num_clients clients l = Some (rc, l')"
  shows "lib_logs l' = logs"
  using assms
  by (auto simp: init_start_def Let_def Option.bind_eq_Some_conv route_broker_dataplane_ctrl_init_def route_broker_kernel_init_def
      split: if_splits prod.splits)

text \<open>
  The detailed log of the dataplanes cannot be switched on: whatever a caller of \<open>route_broker_init_all\<close>
  gives, the library starts without the callback and without the flag, while the other two callbacks arrive.
\<close>

theorem detail_log_lost:
  assumes "route_broker_init_all zh b mnl a init l = Some (rc, l')"
  shows "broker_log_dp_detail (lib_logs l') = Nowhere" "\<not> broker_is_log_detail (lib_logs l')"
    "lib_log_err (lib_logs l') = (if \<exists>i. init = Some i \<and> log_error (rb_logs i) then To_callback else To_stderr)"
    "lib_log_debug (lib_logs l') = (if \<exists>i. init = Some i \<and> log_debug (rb_logs i) then To_callback else Nowhere)"
proof -
  define logs where "logs = (case init of None \<Rightarrow> no_logs
    | Some i \<Rightarrow> no_logs\<lparr>log_debug := log_debug (rb_logs i), log_error := log_error (rb_logs i)\<rparr>)"
  have "\<exists>cb n clients. init_start zh a cb logs n clients l = Some (rc, l')"
    using assms unfolding route_broker_init_all_def logs_def
    by (auto simp: object_broker_init_all_def init_cbs_def clients_invalid_def arr_def Let_def split: option.splits if_splits)
  then have eq: "lib_logs l' = logs" using init_start_logs by blast
  show "broker_log_dp_detail (lib_logs l') = Nowhere" "\<not> broker_is_log_detail (lib_logs l')"
    "lib_log_err (lib_logs l') = (if \<exists>i. init = Some i \<and> log_error (rb_logs i) then To_callback else To_stderr)"
    "lib_log_debug (lib_logs l') = (if \<exists>i. init = Some i \<and> log_debug (rb_logs i) then To_callback else Nowhere)"
    unfolding eq logs_def
    by (auto simp: broker_log_dp_detail_def broker_is_log_detail_def lib_log_err_def lib_log_debug_def no_logs_def split: option.splits)
qed

section \<open>Sending to a dataplane\<close>

text \<open>
  What a dataplane is sent is the route: for an object of the broker, a complete message, a send
  that succeeds sends exactly its bytes, and one that fails reports it and sends nothing.
\<close>

theorem dp_publish_sends_route:
  assumes "nl_valid mnl d"
  shows "rib_nl_dp_publish_route frame send_ret d =
    Some (if frame then send_ret else - 1, if frame \<and> 0 \<le> send_ret then Some d else None)"
  using nl_validD [OF assms] by (auto simp: rib_nl_dp_publish_route_def)

theorem dp_publish_sends_route_witness:
  "rib_nl_dp_publish_route True 0 (eg_msg 24 1) = Some (0, Some (eg_msg 24 1))"
  using dp_publish_sends_route [OF eg_msg_valid(1), of True 0] by simp

end
