(* ===== verification/Daemon.thy ===== *)
theory Daemon
  imports Broker_Init
begin

text \<open>
  The daemon, \<open>src/daemon/broker_main.c\<close>: options and privileges, the sockets to the routing daemon and
  to the kernel with its filter, and the loop that waits for messages. A run ends with a status,
  \<open>Inl\<close>, or goes on, \<open>Inr\<close>; \<open>None\<close> is a fault. \<open>exit(1)\<close> in the middle is an \<open>Inl 1\<close>.
\<close>

section \<open>Logging\<close>

definition broker_log_debug :: "bool \<Rightarrow> string \<Rightarrow> 'w proc \<Rightarrow> 'w proc" where
  "broker_log_debug dbg s p = (if dbg then eprint s p else p)"

definition broker_log_error :: "string \<Rightarrow> 'w proc \<Rightarrow> 'w proc" where
  "broker_log_error s p = eprint s p"

section \<open>Options\<close>

record opts =
  opt_debug :: bool
  opt_group :: "string option"
  opt_user :: "string option"

text \<open>
  What \<open>getopt_long\<close> returns one after the other, each with \<open>optarg\<close>; an unknown option is \<open>?\<close>. \<open>argv0\<close>
  is the name of the program.
\<close>

definition usage :: "string \<Rightarrow> 'w proc \<Rightarrow> 'w proc" where
  "usage argv0 p = eprint ''  -g,--group   additional group'' (eprint ''  -u,--user    user to run as''
     (eprint ''  -d,--debug   debugging'' (eprint (''usage: '' @ argv0 @ '' [ARGS]'') p)))"

fun main_options :: "string \<Rightarrow> (char \<times> string) list \<Rightarrow> opts \<Rightarrow> 'w proc \<Rightarrow> (int \<times> 'w proc) + opts" where
  "main_options argv0 [] o' p = Inr o'"
| "main_options argv0 ((opt, optarg) # rest) o' p =
     (if opt = CHR ''d'' then main_options argv0 rest (o'\<lparr>opt_debug := True\<rparr>) p
      else if opt = CHR ''g'' then main_options argv0 rest (o'\<lparr>opt_group := Some optarg\<rparr>) p
      else if opt = CHR ''u'' then main_options argv0 rest (o'\<lparr>opt_user := Some optarg\<rparr>) p
      else Inl (1, usage argv0 p))"

text \<open>The ids of the process: the supplementary groups and the effective user.\<close>

record creds =
  groups :: "nat list"
  euid :: nat

record accounts =
  getgrnam :: "string \<Rightarrow> nat option"
  setgroups_rc :: int
  getpwnam :: "string \<Rightarrow> nat option"
  setreuid_rc :: int

definition main_group :: "accounts \<Rightarrow> string option \<Rightarrow> creds \<Rightarrow> 'w proc \<Rightarrow> (int \<times> 'w proc) + creds" where
  "main_group ac g c p =
     (case g of
        None \<Rightarrow> Inr c
      | Some g \<Rightarrow>
          (case getgrnam ac g of
             None \<Rightarrow> Inl (1, eprint (''no such group: '' @ g) p)
           | Some gid \<Rightarrow> if setgroups_rc ac < 0 then Inl (1, eprint ''setgroups'' p) else Inr (c\<lparr>groups := [gid]\<rparr>)))"

definition main_user :: "accounts \<Rightarrow> string option \<Rightarrow> creds \<Rightarrow> 'w proc \<Rightarrow> (int \<times> 'w proc) + creds" where
  "main_user ac u c p =
     (case u of
        None \<Rightarrow> Inr c
      | Some u \<Rightarrow>
          (case getpwnam ac u of
             None \<Rightarrow> Inl (1, eprint (''no such user: '' @ u) p)
           | Some uid \<Rightarrow> if setreuid_rc ac < 0 then Inl (1, eprint ''setreuid'' p) else Inr (c\<lparr>euid := uid\<rparr>)))"

section \<open>Sockets\<close>

record fpm_sock =
  fpm_socket_ret :: int
  fpm_reuseaddr_rc :: int
  fpm_bind_rc :: int
  fpm_listen_rc :: int
  fpm_accept_ret :: int

definition broker_fpm_socket :: "fpm_sock \<Rightarrow> 'w proc \<Rightarrow> (int \<times> 'w proc) + (int \<times> 'w proc)" where
  "broker_fpm_socket s p =
     (if fpm_socket_ret s < 0 then Inl (1, eprint ''socket'' p)
      else if fpm_reuseaddr_rc s < 0 then Inl (1, eprint ''SO_REUSEADDR'' p)
      else if fpm_bind_rc s < 0 then Inl (1, eprint ''bind'' p)
      else if fpm_listen_rc s < 0 then Inl (1, eprint ''listen'' p)
      else
        let p = eprint ''Listening for FPM connection'' p in
        if fpm_accept_ret s < 0 then Inl (1, eprint ''accept'' p)
        else Inr (fpm_accept_ret s, eprint ''Connected to FPM'' p))"

text \<open>The instructions of the classic packet filter that the filter uses.\<close>

datatype bpf_insn =
    Ld_abs_b nat
  | Jeq u32 nat nat
  | Ret u32

text \<open>
  A load outside of the packet rejects it; the targets of a jump are relative to the next instruction.
\<close>

function bpf_run :: "bpf_insn list \<Rightarrow> u32 \<Rightarrow> bytes \<Rightarrow> u32" where
  "bpf_run [] acc pkt = 0"
| "bpf_run (Ld_abs_b k # is) acc pkt = (if k < length pkt then bpf_run is (ucast (pkt ! k)) pkt else 0)"
| "bpf_run (Jeq k jt jf # is) acc pkt = bpf_run (drop (if acc = k then jt else jf) is) acc pkt"
| "bpf_run (Ret k # is) acc pkt = k"
  by pat_completeness auto
termination
  by (relation "measure (\<lambda>(is, _, _). length is)") auto

text \<open>\<open>NLMSG_LENGTH(offsetof(struct rtmsg, rtm_protocol))\<close> is 16 + 5.\<close>

definition kernel_filter :: "bpf_insn list" where
  "kernel_filter = [Ld_abs_b (NLMSG_HDRLEN + 5), Jeq (ucast RTPROT_KERNEL) 0 1, Ret 0xffff, Ret 0]"

record nl_sock =
  nl_socket_ret :: int
  nl_bind_rc :: int
  nl_filter_rc :: int

definition broker_netlink_socket :: "nl_sock \<Rightarrow> 'w proc \<Rightarrow> (int \<times> 'w proc) + (int \<times> bpf_insn list \<times> 'w proc)" where
  "broker_netlink_socket s p =
     (if nl_socket_ret s < 0 then Inl (1, eprint ''netlink socket'' p)
      else if nl_bind_rc s < 0 then Inl (1, eprint ''bind netlink'' p)
      else if nl_filter_rc s < 0 then Inl (1, eprint ''SO_ATTACH_FILTER'' p)
      else Inr (nl_socket_ret s, kernel_filter, p))"

section \<open>The loop\<close>

abbreviation POLLIN :: int where "POLLIN \<equiv> 1"

text \<open>What a call of \<open>poll\<close> returns, and what the buffers of the functions called then hold at their start.\<close>

record polled =
  poll_ret :: int
  nl_revents :: int
  fpm_revents :: int
  nl_buf :: bytes
  fpm_buf :: bytes

text \<open>The program ends: the library is shut down first.\<close>

definition quit_main :: "('w \<Rightarrow> 'w option) \<Rightarrow> int \<Rightarrow> 'w proc \<Rightarrow> ((int \<times> 'w proc) + 'a) option" where
  "quit_main shutdown status p = do {
     w \<leftarrow> shutdown (world p);
     Some (Inl (status, p\<lparr>world := w\<rparr>))
   }"

definition main_nl ::
  "'w host \<Rightarrow> ('w \<Rightarrow> 'w option) \<Rightarrow> polled \<Rightarrow> event list \<Rightarrow> 'w proc \<Rightarrow> ((int \<times> 'w proc) + (event list \<times> 'w proc)) option" where
  "main_nl h shutdown e nl p =
     (if nl_revents e \<noteq> 0 then
        if nl_revents e \<noteq> POLLIN then quit_main shutdown 1 (eprint (''Bad NL event: 0x'' @ fmt_x (nat (nl_revents e))) p)
        else do {
          (n, nl, p) \<leftarrow> broker_process_nl h (nl_buf e) nl p;
          if n < 0 then quit_main shutdown 1 (eprint ''NL recv'' p)
          else if n = 0 then quit_main shutdown 0 (eprint ''NL connection closed'' p)
          else Some (Inr (nl, p))
        }
      else Some (Inr (nl, p)))"

definition main_fpm ::
  "'w host \<Rightarrow> ('w \<Rightarrow> 'w option) \<Rightarrow> polled \<Rightarrow> event list \<Rightarrow> 'w proc \<Rightarrow> ((int \<times> 'w proc) + (event list \<times> 'w proc)) option" where
  "main_fpm h shutdown e fpm p =
     (if fpm_revents e \<noteq> 0 then
        if fpm_revents e \<noteq> POLLIN then quit_main shutdown 1 (eprint (''Bad FPM event: 0x'' @ fmt_x (nat (fpm_revents e))) p)
        else do {
          (n, fpm, p) \<leftarrow> broker_process_fpm h (fpm_buf e) fpm p;
          if n < 0 then quit_main shutdown 1 p
          else if n = 0 then quit_main shutdown 0 (eprint ''FPM connection closed'' p)
          else Some (Inr (fpm, p))
        }
      else Some (Inr (fpm, p)))"

fun main_loop ::
  "'w host \<Rightarrow> ('w \<Rightarrow> 'w option) \<Rightarrow> polled list \<Rightarrow> event list \<Rightarrow> event list \<Rightarrow> 'w proc
    \<Rightarrow> ((int \<times> 'w proc) + (event list \<times> event list \<times> 'w proc)) option" where
  "main_loop h shutdown [] nl fpm p = Some (Inr (nl, fpm, p))"
| "main_loop h shutdown (e # es) nl fpm p =
     (if poll_ret e < 0 then quit_main shutdown 1 (eprint ''poll'' p)
      else do {
        r \<leftarrow> main_nl h shutdown e nl p;
        (case r of
           Inl x \<Rightarrow> Some (Inl x)
         | Inr (nl, p) \<Rightarrow> do {
             r \<leftarrow> main_fpm h shutdown e fpm p;
             (case r of
                Inl x \<Rightarrow> Some (Inl x)
              | Inr (fpm, p) \<Rightarrow> main_loop h shutdown es nl fpm p)
           })
      })"

text \<open>
  The whole program: what the system answers, \<open>init\<close> and \<open>shutdown\<close> of the library, the routes the kernel
  dumps, then what is polled and received. The result of \<open>init\<close>, which is called with \<open>main_init\<close>, is not
  looked at.
\<close>

definition main_init :: route_broker_init_args where
  "main_init = \<lparr>kernel_publish = False, rb_logs = no_logs\<lparr>log_debug := True, log_error := True\<rparr>\<rparr>"

record sys =
  argv0 :: string
  args :: "(char \<times> string) list"
  accts :: accounts
  fpm_side :: fpm_sock
  nl_side :: nl_sock
  dump_side :: mnl_socket

text \<open>Everything before the library is started: it goes on with the flag for debugging.\<close>

definition main_setup :: "sys \<Rightarrow> creds \<Rightarrow> 'w proc \<Rightarrow> (int \<times> 'w proc) + (bool \<times> 'w proc)" where
  "main_setup s c p =
     (case main_options (argv0 s) (args s) \<lparr>opt_debug = False, opt_group = None, opt_user = None\<rparr> p of
        Inl x \<Rightarrow> Inl x
      | Inr o' \<Rightarrow>
          (case main_group (accts s) (opt_group o') c p of
             Inl x \<Rightarrow> Inl x
           | Inr c \<Rightarrow>
               (case main_user (accts s) (opt_user o') c p of
                  Inl x \<Rightarrow> Inl x
                | Inr c \<Rightarrow>
                    (case broker_fpm_socket (fpm_side s) p of
                       Inl x \<Rightarrow> Inl x
                     | Inr (_, p) \<Rightarrow>
                         (case broker_netlink_socket (nl_side s) p of
                            Inl x \<Rightarrow> Inl x
                          | Inr (_, _, p) \<Rightarrow> Inr (opt_debug o', p))))))"

definition broker_main ::
  "'w host \<Rightarrow> ('w \<Rightarrow> (int \<times> 'w) option) \<Rightarrow> ('w \<Rightarrow> 'w option) \<Rightarrow> sys \<Rightarrow> polled list \<Rightarrow> event list \<Rightarrow> event list \<Rightarrow> creds \<Rightarrow> 'w proc
    \<Rightarrow> ((int \<times> 'w proc) + (event list \<times> event list \<times> 'w proc)) option" where
  "broker_main h init shutdown s es nl fpm c p =
     (case main_setup s c p of
        Inl x \<Rightarrow> Some (Inl x)
      | Inr (debug, p) \<Rightarrow> do {
          let h = h\<lparr>broker_debug := debug\<rparr>;
          (_, w) \<leftarrow> init (world p);
          let p = p\<lparr>world := w\<rparr>;
          r \<leftarrow> broker_dump_routes h (dump_side s) p;
          (case r of
             Inl st \<Rightarrow> Some (Inl (st, p))
           | Inr p \<Rightarrow> main_loop h shutdown es nl fpm p)
        })"

end
