(* ===== verification/Daemon_Properties.thy ===== *)
theory Daemon_Properties
  imports Daemon
begin

text \<open>
  The properties of the daemon: the filter on the socket of the kernel, the loop over the messages of the
  routing daemon down to the table of the broker, and the way the program ends.
\<close>

section \<open>The filter\<close>

text \<open>
  C31. The filter accepts exactly the routes of the kernel: of all packets it lets those pass, in full,
  whose protocol is that of the kernel; a packet too short to have one is rejected.
\<close>

theorem filter_accepts_kernel_routes:
  "bpf_run kernel_filter acc d = (if rtm_protocol d = Some RTPROT_KERNEL then 0xffff else 0)"
proof -
  have "(ucast x :: u32) = 2 \<longleftrightarrow> x = 2" for x :: u8
  proof -
    have "unat (ucast x :: u32) = unat x" using unsigned_less [of x, where 'a = nat] by (simp add: unsigned_ucast_eq take_bit_nat_eq_self)
    then show ?thesis by (simp add: word_unat_eq_iff)
  qed
  then show ?thesis by (simp add: kernel_filter_def rtm_protocol_def byte_at_def)
qed

section \<open>From the stream to the table\<close>

lemma recv_intact: "recv n es = (k, bs, es') \<Longrightarrow> Failed \<notin> set es \<Longrightarrow> Failed \<notin> set es'"
  by (induction n es rule: recv.induct) (auto split: if_splits)

lemma recv_loop_intact: "recv_loop sz l n buf es = Some (n', buf', es') \<Longrightarrow> Failed \<notin> set es \<Longrightarrow> Failed \<notin> set es'"
proof (induction sz l n buf es rule: recv_loop.induct)
  case (1 sz l n buf es)
  show ?case
  proof (cases "l < sz")
    case False
    then show ?thesis using 1(2,3) by (simp add: recv_loop.simps)
  next
    case True
    obtain k bs es1 where r: "recv (sz - l) es = (k, bs, es1)" by (cases "recv (sz - l) es") auto
    note i = recv_intact [OF r 1(3)]
    show ?thesis
    proof (cases "k \<le> 0")
      case le: True
      then show ?thesis using 1(2) True r i by (subst (asm) recv_loop.simps) simp
    next
      case gt: False
      then obtain b where b: "store l bs buf = Some b" "recv_loop sz (l + nat k) k b es1 = Some (n', buf', es')"
        using 1(2) True r by (subst (asm) recv_loop.simps) (auto simp: Option.bind_eq_Some_conv)
      show ?thesis by (rule 1(1) [OF True r [symmetric] refl gt b(1,2) i])
    qed
  qed
qed

lemma process_fpm_intact:
  assumes "broker_process_fpm h buf es p = Some (n, es', p')" and "Failed \<notin> set es"
  shows "Failed \<notin> set es'"
proof -
  obtain n1 buf1 es1 where r1: "recv_loop 4 0 0 buf es = Some (n1, buf1, es1)"
    using assms(1) by (auto simp: broker_process_fpm_def Option.bind_eq_Some_conv)
  have i1: "Failed \<notin> set es1" by (rule recv_loop_intact [OF r1 assms(2)])
  have "es' = es1 \<or> (\<exists>sz n2 n3 buf2. recv_loop sz 4 n2 buf1 es1 = Some (n3, buf2, es'))"
    using assms(1) r1 by (auto simp: broker_process_fpm_def Let_def Option.bind_eq_Some_conv split: if_splits)
  then show ?thesis using recv_loop_intact i1 by blast
qed

definition fpm_payload :: "bytes \<Rightarrow> (bytes \<times> int) list" where
  "fpm_payload msg = sent (drop 4 msg) (length msg - 4)"

definition fpm_readable :: "polled \<Rightarrow> bool" where
  "fpm_readable e \<longleftrightarrow> 0 \<le> poll_ret e \<and> nl_revents e = 0 \<and> fpm_revents e = POLLIN \<and> length (fpm_buf e) = unat FPM_MAX_MSG_LEN"

context message_sink
begin

lemma main_loop_stream:
  assumes "list_all fpm_message msgs" and "list_all fpm_readable es" and "length es = length msgs"
    and "Failed \<notin> set fpm" and "stream fpm = concat msgs @ rest" and "publish_all h (concat (map fpm_payload msgs)) (world p) = Some w"
  shows "\<exists>fpm' p'. main_loop h shutdown es nl fpm p = Some (Inr (nl, fpm', p')) \<and> stream fpm' = rest \<and> world p' = w"
  using assms
proof (induction msgs arbitrary: es fpm p)
  case (Cons m msgs)
  obtain e es' where es: "es = e # es'" using Cons(4) by (cases es) auto
  obtain w1 where w1: "publish_all h (fpm_payload m) (world p) = Some w1" "publish_all h (concat (map fpm_payload msgs)) w1 = Some w"
    using Cons(7) by (auto simp: publish_all_append Option.bind_eq_Some_conv)
  have e: "0 \<le> poll_ret e" "nl_revents e = 0" "fpm_revents e = POLLIN" "length (fpm_buf e) = 4096"
    using Cons(3) es by (simp_all add: fpm_readable_def)
  have "stream fpm = m @ concat msgs @ rest" using Cons(6) by simp
  from process_fpm_sent [OF _ Cons(5) this e(4), of p] Cons(2) w1(1) [unfolded fpm_payload_def]
  obtain n f p1 where f: "broker_process_fpm h (fpm_buf e) fpm p = Some (n, f, p1)" "0 < n" "stream f = concat msgs @ rest" "world p1 = w1"
    by (auto simp: payload_def)
  have "Failed \<notin> set f" by (rule process_fpm_intact [OF f(1) Cons(5)])
  from Cons(1) [of es' f p1, OF _ _ _ this f(3)] Cons(2-4) es w1(2) f(4)
  obtain fpm' p' where "main_loop h shutdown es' nl f p1 = Some (Inr (nl, fpm', p'))" "stream fpm' = rest" "world p' = w" by auto
  then show ?case using es e f(1,2) by (simp add: main_nl_def main_fpm_def)
qed simp

end

text \<open>The loop over a stream, as a sequence of publishes to the broker.\<close>

lemma payload_priority:
  assumes "(d, i) \<in> set (concat (map fpm_payload msgs))"
  shows "\<exists>n. i = int n \<and> n < ROUTE_PRIORITY_MAX"
proof -
  obtain m where "(d, i) \<in> set (sent (drop 4 m) (length m - 4))" using assms by (auto simp: fpm_payload_def)
  then show ?thesis by (rule normal_priority [OF sent_normal])
qed

lemma stream_publishes:
  assumes "zhash zh" and "route_ok zh (nl_valid mnl) (mem (world p))"
    and "list_all fpm_message msgs" and "Failed \<notin> set fpm" and "stream fpm = concat msgs @ rest"
    and "list_all fpm_readable es" and "length es = length msgs"
    and "\<forall>(d, i) \<in> set (concat (map fpm_payload msgs)). nl_valid mnl d"
    and "ready (length (concat (map fpm_payload msgs))) (world p)"
  obtains fpm' p' where "main_loop (broker_host zh b mnl) shutdown es nl fpm p = Some (Inr (nl, fpm', p'))" "stream fpm' = rest"
    "publish_all (broker_host zh b mnl) (concat (map fpm_payload msgs)) (world p) = Some (world p')"
    "route_ok zh (nl_valid mnl) (mem (world p'))"
    "rib zh (mem (world p')) = fold (apply_msg (nl_cbs b mnl)) (map fst (concat (map fpm_payload msgs))) (rib zh (mem (world p)))"
proof -
  let ?ms = "concat (map fpm_payload msgs)"
  have "nl_valid mnl d \<and> (\<exists>n. i = int n \<and> n < ROUTE_PRIORITY_MAX)" if di: "(d, i) \<in> set ?ms" for d i
  proof
    show "nl_valid mnl d" using assms(8) di by blast
    show "\<exists>n. i = int n \<and> n < ROUTE_PRIORITY_MAX" by (rule payload_priority [OF di])
  qed
  then have "\<forall>(d, i) \<in> set ?ms. nl_valid mnl d \<and> (\<exists>n. i = int n \<and> n < ROUTE_PRIORITY_MAX)" by blast
  from publish_all_table [OF assms(1,2,9) this] obtain bw where bw: "publish_all (broker_host zh b mnl) ?ms (world p) = Some bw"
    "route_ok zh (nl_valid mnl) (mem bw)" "rib zh (mem bw) = fold (apply_msg (nl_cbs b mnl)) (map fst ?ms) (rib zh (mem (world p)))"
    by blast
  from broker.main_loop_stream [OF assms(3,6,7,4,5) bw(1)] show thesis using that bw by blast
qed
text \<open>
  C5. The daemon tracks the routing daemon: a stream of any number of FPM messages with valid
  netlink messages as payload, cut into any pieces, is taken in by as many rounds of the loop, without a
  fault and without ending; afterwards the table of the broker is the table before with all netlink
  messages of all FPM messages applied in the order in which they were sent.
\<close>

theorem daemon_tracks_stream:
  assumes "zhash zh" and "route_ok zh (nl_valid mnl) (mem (world p))"
    and "list_all fpm_message msgs" and "Failed \<notin> set fpm" and "stream fpm = concat msgs @ rest"
    and "list_all fpm_readable es" and "length es = length msgs"
    and "\<forall>(d, i) \<in> set (concat (map fpm_payload msgs)). nl_valid mnl d"
    and "ready (length (concat (map fpm_payload msgs))) (world p)"
  shows "\<exists>fpm' p'. main_loop (broker_host zh b mnl) shutdown es nl fpm p = Some (Inr (nl, fpm', p')) \<and> stream fpm' = rest \<and>
    route_ok zh (nl_valid mnl) (mem (world p')) \<and>
    rib zh (mem (world p')) = fold (apply_msg (nl_cbs b mnl)) (map fst (concat (map fpm_payload msgs))) (rib zh (mem (world p)))"
  using stream_publishes [OF assms] by metis

text \<open>The route 10.0.2.0/24 in one message, then once more in a second one; the pieces are cut in the middle of both.\<close>

definition eg_stream :: "event list" where
  "eg_stream = [Chunk (take 7 eg_fpm2), Chunk (drop 7 eg_fpm2 @ take 9 eg_fpm2), Chunk (drop 9 eg_fpm2)]"

definition eg_poll :: polled where
  "eg_poll = \<lparr>poll_ret = 1, nl_revents = 0, fpm_revents = POLLIN, nl_buf = [], fpm_buf = replicate 4096 0\<rparr>"

lemma eg_payload: "fpm_payload eg_fpm2 = [(eg_replaced, ROUTE_CONNECTED)]"
  using eg_sent2 by (simp add: fpm_payload_def)

lemma eg_ready2: "ready 2 eg_world"
proof -
  have "unat (brk_id br) + 4 < 2 ^ 64" if b: "brks eg_read b = Some br" for b br
  proof -
    have "b \<in> set (route_broker eg_read)" using route_okD(2) [OF eg_system_ok [OF eg_run_read]] b by (auto simp: levels_ok_def)
    moreover have "list_all (\<lambda>b. case brks eg_read b of None \<Rightarrow> True | Some br \<Rightarrow> unat (brk_id br) \<le> 9) (route_broker eg_read)"
      by code_simp
    ultimately have "unat (brk_id br) \<le> 9" using b by (auto simp: list_all_iff)
    then show ?thesis by simp
  qed
  moreover have "fresh_ptrs (40 + 2 * k) (41 + 2 * k) eg_read" if "k < 2" for k
  proof -
    have "fresh_ptrs 42 43 eg_read" by code_simp
    then show ?thesis using that eg_fresh(2) by (cases k) (auto simp: less_Suc_eq)
  qed
  ultimately show ?thesis by (simp add: ready_def eg_world_def)
qed

theorem daemon_tracks_stream_witness:
  "\<exists>fpm' p'. main_loop (broker_host map_zhash eg_build eg_mnl) Some [eg_poll, eg_poll] [] eg_stream \<lparr>stderr = [], world = eg_world\<rparr> =
       Some (Inr ([], fpm', p')) \<and> stream fpm' = [] \<and> rib map_zhash (mem (world p')) ''r 10.0.2.0/24 0 254'' = Some eg_replaced"
proof -
  let ?p = "\<lparr>stderr = [], world = eg_world\<rparr>"
  have ok: "route_ok map_zhash (nl_valid eg_mnl) (mem (world ?p))" using eg_system_ok [OF eg_run_read] by (simp add: eg_world_def)
  have m: "list_all fpm_message [eg_fpm2, eg_fpm2]" by code_simp
  have s: "Failed \<notin> set eg_stream" "stream eg_stream = concat [eg_fpm2, eg_fpm2] @ []" by (simp_all add: eg_stream_def)
  have e: "list_all fpm_readable [eg_poll, eg_poll]" by (simp add: fpm_readable_def eg_poll_def)
  have t: "topic_of (nl_cbs eg_build eg_mnl) eg_replaced = Some (''r 10.0.2.0/24 0 254'', False)" by code_simp
  have v: "\<forall>(d, i) \<in> set (concat (map fpm_payload [eg_fpm2, eg_fpm2])). nl_valid eg_mnl d"
    "ready (length (concat (map fpm_payload [eg_fpm2, eg_fpm2]))) (world ?p)"
    using eg_replaced_valid eg_ready2 by (simp_all add: eg_payload numeral_2_eq_2)
  from daemon_tracks_stream [OF map_zhash.zhash_axioms ok m s e _ v, where b = eg_build and shutdown = Some and nl = "[]"]
  show ?thesis using t by (auto simp: eg_payload apply_msg_def)
qed

section \<open>The end\<close>

lemma process_publishes:
  assumes "broker_process_fpm h buf es p = Some (n, es', p') \<or> broker_process_nl h buf es p = Some (n, es', p')"
  shows "publishes h sent_ok p p'"
  using assms by (auto elim: process_fpmE process_nlE intro: publishes_none)

lemma quit_main_world:
  assumes "quit_main shutdown st p = Some (Inl (st', p'))"
  shows "shutdown (world p) = Some (world p')"
  using assms by (auto simp: quit_main_def Option.bind_eq_Some_conv)

lemma quit_main_stops: "quit_main shutdown st p \<noteq> Some (Inr x)"
  by (simp add: quit_main_def Option.bind_eq_Some_conv)

lemma main_nl_cases:
  assumes "main_nl h shutdown e nl p = Some r"
  obtains (go) nl' p' where "r = Inr (nl', p')" "publishes h sent_ok p p'"
    | (stop) q st p' where "r = Inl (st, p')" "publishes h sent_ok p q" "shutdown (world q) = Some (world p')"
proof (cases "nl_revents e = POLLIN")
  case True
  then obtain n nl' q where q: "broker_process_nl h (nl_buf e) nl p = Some (n, nl', q)"
    using assms by (auto simp: main_nl_def Option.bind_eq_Some_conv)
  then have pub: "publishes h sent_ok p q" using process_publishes by blast
  show thesis
  proof (cases r)
    case (Inl x)
    obtain st p' where x: "x = (st, p')" by (cases x)
    have "shutdown (world q) = Some (world p')"
      using assms True q Inl x by (auto simp: main_nl_def dest!: quit_main_world split: if_splits)
    then show ?thesis using stop Inl x pub by simp
  next
    case (Inr y)
    then have "y = (nl', q)" using assms True q by (auto simp: main_nl_def quit_main_stops split: if_splits)
    then show ?thesis using go Inr pub by simp
  qed
next
  case False
  then show thesis
    using assms go [of nl p] stop [of _ _ p] publishes_none [of p p]
    by (cases r) (auto simp: main_nl_def quit_main_stops dest!: quit_main_world split: if_splits)
qed

lemma main_fpm_cases:
  assumes "main_fpm h shutdown e fpm p = Some r"
  obtains (go) fpm' p' where "r = Inr (fpm', p')" "publishes h sent_ok p p'"
    | (stop) q st p' where "r = Inl (st, p')" "publishes h sent_ok p q" "shutdown (world q) = Some (world p')"
proof (cases "fpm_revents e = POLLIN")
  case True
  then obtain n fpm' q where q: "broker_process_fpm h (fpm_buf e) fpm p = Some (n, fpm', q)"
    using assms by (auto simp: main_fpm_def Option.bind_eq_Some_conv)
  then have pub: "publishes h sent_ok p q" using process_publishes by blast
  show thesis
  proof (cases r)
    case (Inl x)
    obtain st p' where x: "x = (st, p')" by (cases x)
    have "shutdown (world q) = Some (world p')"
      using assms True q Inl x by (auto simp: main_fpm_def dest!: quit_main_world split: if_splits)
    then show ?thesis using stop Inl x pub by simp
  next
    case (Inr y)
    then have "y = (fpm', q)" using assms True q by (auto simp: main_fpm_def quit_main_stops split: if_splits)
    then show ?thesis using go Inr pub by simp
  qed
next
  case False
  then show thesis
    using assms go [of fpm p] stop [of _ _ p] publishes_none [of p p]
    by (cases r) (auto simp: main_fpm_def quit_main_stops dest!: quit_main_world split: if_splits)
qed

lemma main_loop_end:
  assumes "main_loop h shutdown es nl fpm p = Some (Inl (st, p'))"
  shows "\<exists>ms w. list_all sent_ok ms \<and> publish_all h ms (world p) = Some w \<and> shutdown w = Some (world p')"
proof -
  have "\<exists>q. publishes h sent_ok p q \<and> shutdown (world q) = Some (world p')"
    using assms
  proof (induction es arbitrary: nl fpm p)
    case (Cons e es)
    show ?case
    proof (cases "poll_ret e < 0")
      case True
      then show ?thesis using Cons(2) by (intro exI [of _ p]) (auto intro: publishes_none dest!: quit_main_world)
    next
      case False
      then obtain r where r: "main_nl h shutdown e nl p = Some r" using Cons(2) by (auto simp: Option.bind_eq_Some_conv)
      from r show ?thesis
      proof (cases rule: main_nl_cases)
        case (stop q st' p1)
        then show ?thesis using Cons(2) False r by auto
      next
        case (go nl1 p1)
        then obtain r2 where r2: "main_fpm h shutdown e fpm p1 = Some r2" using Cons(2) False r by (auto simp: Option.bind_eq_Some_conv)
        from r2 show ?thesis
        proof (cases rule: main_fpm_cases)
          case (stop q st' p2)
          then show ?thesis using Cons(2) False r go r2 publishes_trans by fastforce
        next
          case inner: (go fpm2 p2)
          then have "main_loop h shutdown es nl1 fpm2 p2 = Some (Inl (st, p'))" using Cons(2) False r go(1) r2 by simp
          from Cons(1) [OF this] show ?thesis
            using publishes_trans [OF go(2) inner(2)] publishes_trans by blast
        qed
      qed
    qed
  qed simp
  then show ?thesis by (auto simp: publishes_def)
qed



definition eg_short :: polled where
  "eg_short = eg_poll\<lparr>fpm_buf := replicate 40 0\<rparr>"


text \<open>
  The daemon as it is linked: the world is the library with the addresses the allocator will return,
  publishing is \<open>route_broker_publish\<close>, the end is \<open>route_broker_shutdown_all\<close>.
\<close>

record 'h daemon_world =
  lib :: "(bytes, 'h) broker_lib"
  heap :: "nat \<Rightarrow> ptr \<times> ptr"
  used :: nat

definition daemon_publish ::
  "'h zhash_ops \<Rightarrow> build \<Rightarrow> mnl_parse \<Rightarrow> bytes \<Rightarrow> int \<Rightarrow> 'h daemon_world \<Rightarrow> 'h daemon_world option" where
  "daemon_publish zh b mnl d i dw =
     map_option (\<lambda>w. dw\<lparr>lib := (lib dw)\<lparr>lib_mem := w\<rparr>, used := Suc (used dw)\<rparr>)
       (route_broker_publish zh b mnl d i (fst (heap dw (used dw))) (snd (heap dw (used dw))) (lib_mem (lib dw)))"

definition daemon_host :: "'h zhash_ops \<Rightarrow> build \<Rightarrow> mnl_parse \<Rightarrow> bool \<Rightarrow> 'h daemon_world host" where
  "daemon_host zh b mnl dbg = \<lparr>broker_debug = dbg, attr_parse = mnl, publish = daemon_publish zh b mnl,
     show_broker = (\<lambda>dw. route_broker_show (lib_mem (lib dw)))\<rparr>"

definition daemon_shutdown ::
  "((bytes, 'h) route_mem \<Rightarrow> (bytes, 'h) route_mem option) \<Rightarrow> 'h daemon_world \<Rightarrow> 'h daemon_world option" where
  "daemon_shutdown quit dw = map_option (\<lambda>l. dw\<lparr>lib := l\<rparr>) (route_broker_shutdown_all quit (lib dw))"

lemma publish_all_consumer:
  "publish_all (daemon_host zh b mnl dbg) ms dw = Some dw' \<Longrightarrow> broker_consumer_thread (lib dw') = broker_consumer_thread (lib dw)"
proof (induction ms arbitrary: dw)
  case (Cons m ms)
  obtain d i where m: "m = (d, i)" by (cases m)
  then obtain dw1 where d: "daemon_publish zh b mnl d i dw = Some dw1" "publish_all (daemon_host zh b mnl dbg) ms dw1 = Some dw'"
    using Cons(2) by (auto simp: daemon_host_def Option.bind_eq_Some_conv)
  have "broker_consumer_thread (lib dw1) = broker_consumer_thread (lib dw)" using d(1) by (auto simp: daemon_publish_def)
  then show ?case using Cons(1) [OF d(2)] by simp
qed simp

lemma shutdown_consumer:
  assumes "daemon_shutdown quit dw = Some dw'"
  shows "broker_consumer_thread (lib dw)"
proof (cases "quit (lib_mem (lib dw))")
  case None
  then show ?thesis using assms
    by (auto simp: daemon_shutdown_def route_broker_shutdown_all_def object_broker_shutdown_all_def
        route_broker_dataplane_ctrl_shutdown_def route_broker_kernel_shutdown_def split: if_splits)
next
  case (Some w)
  then show ?thesis using assms
    by (auto simp: daemon_shutdown_def route_broker_shutdown_all_def object_broker_shutdown_all_def
        route_broker_dataplane_ctrl_shutdown_def route_broker_kernel_shutdown_def split: if_splits)
qed

definition daemon_init ::
  "'h zhash_ops \<Rightarrow> build \<Rightarrow> mnl_parse \<Rightarrow> init_answers \<Rightarrow> 'h daemon_world \<Rightarrow> (int \<times> 'h daemon_world) option" where
  "daemon_init zh b mnl a dw =
     map_option (\<lambda>(rc, l). (rc, dw\<lparr>lib := l\<rparr>)) (route_broker_init_all zh b mnl a (Some main_init) (lib dw))"

lemma daemon_init_consumer:
  assumes "daemon_init zh b mnl a dw = Some (rc, dw')"
  shows "broker_consumer_thread (lib dw') = broker_consumer_thread (lib dw)"
proof -
  obtain l where l: "route_broker_init_all zh b mnl a (Some main_init) (lib dw) = Some (rc, l)" "dw' = dw\<lparr>lib := l\<rparr>"
    using assms by (auto simp: daemon_init_def)
  show ?thesis using init_all_consumer [OF l(1)] l(2) by (simp add: main_init_def)
qed

lemma daemon_loop_stays:
  assumes "\<not> broker_consumer_thread (lib (world p))"
  shows "main_loop (daemon_host zh b mnl dbg) (daemon_shutdown quit) es nl fpm p \<noteq> Some (Inl r)"
proof
  assume x: "main_loop (daemon_host zh b mnl dbg) (daemon_shutdown quit) es nl fpm p = Some (Inl r)"
  obtain st p' where "r = (st, p')" by (cases r)
  with main_loop_end [of "daemon_host zh b mnl dbg" "daemon_shutdown quit" es nl fpm p] x
  obtain ms dw where "publish_all (daemon_host zh b mnl dbg) ms (world p) = Some dw" "daemon_shutdown quit dw = Some (world p')" by blast
  then have "broker_consumer_thread (lib (world p))" using publish_all_consumer shutdown_consumer by metis
  then show False using assms by simp
qed

lemma main_options_status: "main_options n as o' p = Inl (st, p') \<Longrightarrow> st = 1"
  by (induction n as o' p rule: main_options.induct) (auto split: if_splits)

lemma socket_status:
  "broker_fpm_socket s p = Inl (st, p') \<Longrightarrow> st = 1"
  "broker_netlink_socket t p = Inl (st, p') \<Longrightarrow> st = 1"
  by (auto simp: broker_fpm_socket_def broker_netlink_socket_def Let_def split: if_splits)

lemma fpm_socket_world: "broker_fpm_socket s p = Inr (n, p') \<Longrightarrow> world p' = world p"
  by (auto simp: broker_fpm_socket_def Let_def split: if_splits)

lemma netlink_socket_world: "broker_netlink_socket s p = Inr (n, f, p') \<Longrightarrow> world p' = world p"
  by (auto simp: broker_netlink_socket_def split: if_splits)

lemma account_status:
  "main_group ac g c p = Inl (st, p') \<Longrightarrow> st = 1"
  "main_user ac u c p = Inl (st, p') \<Longrightarrow> st = 1"
  by (auto simp: main_group_def main_user_def split: option.splits if_splits)

lemma main_setup_status: "main_setup s c p = Inl (st, p') \<Longrightarrow> st = 1"
  by (auto simp: main_setup_def dest: main_options_status account_status socket_status split: sum.splits prod.splits)

lemma main_setup_world: "main_setup s c p = Inr (debug, p') \<Longrightarrow> world p' = world p"
  by (auto simp: main_setup_def dest!: fpm_socket_world netlink_socket_world split: sum.splits prod.splits)

text \<open>How a run of the program ends or comes to its loop.\<close>

lemma broker_main_cases:
  assumes "broker_main h init shutdown s es nl fpm c p = Some r"
  obtains (early) p' where "r = Inl (1, p')" "\<And>es. broker_main h init shutdown s es nl fpm c p = Some r"
    | (loop) dbg rc w q q' where "init (world p) = Some (rc, w)" "world q = w"
        "broker_dump_routes (h\<lparr>broker_debug := dbg\<rparr>) (dump_side s) q = Some (Inr q')"
        "main_loop (h\<lparr>broker_debug := dbg\<rparr>) shutdown es nl fpm q' = Some r"
proof (cases "main_setup s c p")
  case (Inl x)
  then show thesis using early [of "snd x"] assms by (cases x) (auto simp: broker_main_def dest: main_setup_status)
next
  case s: (Inr y)
  obtain dbg p2 where y: "y = (dbg, p2)" by (cases y)
  have w: "world p2 = world p" using main_setup_world s y by metis
  note eqs = broker_main_def s y w
  let ?h = "h\<lparr>broker_debug := dbg\<rparr>"
  obtain rc w1 r1 where i: "init (world p) = Some (rc, w1)" "broker_dump_routes ?h (dump_side s) (p2\<lparr>world := w1\<rparr>) = Some r1"
    using assms by (auto simp: eqs Let_def Option.bind_eq_Some_conv)
  show thesis
  proof (cases r1)
    case (Inl st)
    then have "st = 1" using i(2) dump_status by blast
    then show ?thesis using early [of "p2\<lparr>world := w1\<rparr>"] assms i Inl by (simp add: eqs)
  next
    case (Inr q')
    then show ?thesis using loop [of rc w1 "p2\<lparr>world := w1\<rparr>" dbg q'] assms i by (simp add: eqs)
  qed
qed

text \<open>
  C35. The daemon never ends regularly once its loop runs: it starts the library without a kernel client,
  so every way out of the loop faults in the shutdown of the library. A run that does end with a status
  has ended before the loop, with status 1, and ends in the same way whatever would be polled and received.
\<close>

theorem daemon_cannot_stop:
  assumes "\<not> broker_consumer_thread (lib (world p))"
    and "broker_main (daemon_host zh b mnl dbg) (daemon_init zh b mnl a) (daemon_shutdown quit) s es nl fpm c p = Some (Inl (st, p'))"
  shows "st = 1 \<and> broker_main (daemon_host zh b mnl dbg) (daemon_init zh b mnl a) (daemon_shutdown quit) s es' nl fpm c p = Some (Inl (st, p'))"
  using assms(2)
proof (cases rule: broker_main_cases)
  case (early q)
  then show ?thesis by simp
next
  case (loop dbg' rc w q q')
  have h: "(daemon_host zh b mnl dbg)\<lparr>broker_debug := dbg'\<rparr> = daemon_host zh b mnl dbg'" by (simp add: daemon_host_def)
  have "publishes (daemon_host zh b mnl dbg') dumped_ok q q'" using dump_publishes loop(3) unfolding h by blast
  then have "broker_consumer_thread (lib (world q')) = broker_consumer_thread (lib (world q))"
    unfolding publishes_def using publish_all_consumer by metis
  then have "\<not> broker_consumer_thread (lib (world q'))" using daemon_init_consumer [OF loop(1)] loop(2) assms(1) by simp
  from daemon_loop_stays [OF this] loop(4) show ?thesis unfolding h by blast
qed

text \<open>
  A daemon that serves one connection which is closed after its only message, and one that is started with
  an unknown option.
\<close>

definition eg_daemon :: "(string \<Rightarrow> ptr) daemon_world proc" where
  "eg_daemon = \<lparr>stderr = [], world = \<lparr>lib = eg_lib, heap = (\<lambda>k. (40 + 2 * k, 41 + 2 * k)), used = 0\<rparr>\<rparr>"

definition eg_sys :: "(char \<times> string) list \<Rightarrow> sys" where
  "eg_sys as = \<lparr>argv0 = ''brokerd'', args = as,
     accts = \<lparr>getgrnam = (\<lambda>_. None), setgroups_rc = 0, getpwnam = (\<lambda>u. if u = ''routeadm'' then Some 7 else None), setreuid_rc = 0\<rparr>,
     fpm_side = \<lparr>fpm_socket_ret = 3, fpm_reuseaddr_rc = 0, fpm_bind_rc = 0, fpm_listen_rc = 0, fpm_accept_ret = 4\<rparr>,
     nl_side = \<lparr>nl_socket_ret = 5, nl_bind_rc = 0, nl_filter_rc = 0\<rparr>, dump_side = eg_socket\<rparr>"

definition eg_main :: "(char \<times> string) list \<Rightarrow> polled list
    \<Rightarrow> ((int \<times> (string \<Rightarrow> ptr) daemon_world proc) + (event list \<times> event list \<times> (string \<Rightarrow> ptr) daemon_world proc)) option" where
  "eg_main as es = broker_main (daemon_host map_zhash eg_build eg_mnl False) (daemon_init map_zhash eg_build eg_mnl eg_init_answers)
     (daemon_shutdown Some) (eg_sys as) es [] [Chunk eg_fpm2] \<lparr>groups = [], euid = 0\<rparr> eg_daemon"

theorem daemon_cannot_stop_witness:
  "(\<exists>p'. eg_main [(CHR ''x'', [])] [] = Some (Inl (1, p')) \<and> eg_main [(CHR ''x'', [])] [eg_short] = Some (Inl (1, p'))) \<and>
   eg_main [(CHR ''u'', ''routeadm'')] [eg_short] \<noteq> None \<and> eg_main [(CHR ''u'', ''routeadm'')] [eg_short, eg_short] = None"
proof (intro conjI)
  have "\<not> broker_consumer_thread (lib (world eg_daemon))" by code_simp
  moreover have "case eg_main [(CHR ''x'', [])] [] of Some (Inl (st, p')) \<Rightarrow> True | _ \<Rightarrow> False" by code_simp
  then obtain st p' where m: "eg_main [(CHR ''x'', [])] [] = Some (Inl (st, p'))" by (auto split: option.splits sum.splits)
  ultimately show "\<exists>p'. eg_main [(CHR ''x'', [])] [] = Some (Inl (1, p')) \<and> eg_main [(CHR ''x'', [])] [eg_short] = Some (Inl (1, p'))"
    using daemon_cannot_stop [OF _ m [unfolded eg_main_def], of "[eg_short]"] m by (auto simp: eg_main_def)
  show "eg_main [(CHR ''u'', ''routeadm'')] [eg_short] \<noteq> None" by code_simp
  show "eg_main [(CHR ''u'', ''routeadm'')] [eg_short, eg_short] = None" by code_simp
qed

end
