(* ===== verification/Consumer_Runs.thy ===== *)
theory Consumer_Runs
  imports Consumers
begin

text \<open>
  A dataplane behind the broker: the thread that serves it runs between the operations of all other
  threads. What was sent to the dataplane, applied in order, is the table the thread has read; no step
  of the thread faults, and nothing the thread holds is lost.
\<close>

section \<open>A copy that a thread holds\<close>

definition held :: "ptr \<Rightarrow> 'd \<Rightarrow> ('d, 'h) route_mem \<Rightarrow> bool" where
  "held x d w \<longleftrightarrow> datas w x = Some d \<and> free_cell x w"

lemma heldD: "held x d w \<Longrightarrow> datas w x = Some d" "held x d w \<Longrightarrow> x \<noteq> NULL"
    "held x d w \<Longrightarrow> objs w p = Some r \<Longrightarrow> data r \<noteq> x"
  by (auto simp: held_def free_cell_def)

lemma held_cong: "held x d w \<Longrightarrow> objs w' = objs w \<Longrightarrow> datas w' = datas w \<Longrightarrow> held x d w'"
  by (simp add: held_def free_cell_def)

lemma held_stamp: "held x d w \<Longrightarrow> held x d (stamp_route f p w)"
  by (auto simp: held_def free_cell_def stamp_route_def Let_def split: option.splits if_splits)

lemma held_release: "held x d w \<Longrightarrow> held x d (release_step (route_release zh) b p w)"
  by (auto simp: held_def free_cell_def release_step_def route_release_def split: option.splits if_splits)

lemma held_drop: "held x d w \<Longrightarrow> held x d (drop_route zh p w)"
  by (auto simp: drop_route_def held_release split: option.split)

lemma held_swap: "held x d w \<Longrightarrow> dc \<noteq> x \<Longrightarrow> held x d (swap_payload p dc e w)"
  by (auto simp: held_def free_cell_def swap_payload_def split: option.splits if_splits)

lemma held_add: "held x d w \<Longrightarrow> dc \<noteq> x \<Longrightarrow> held x d (add_route i t p dc e w)"
  by (auto simp: held_def free_cell_def add_route_def Let_def split: option.splits if_splits)

lemma held_file: "held x d w \<Longrightarrow> held x d (file_route zh t p w)"
  by (simp add: held_def free_cell_def file_route_def)

lemma held_retire: "held x d w \<Longrightarrow> held x d (retire_route zh p w)"
  by (simp add: retire_route_def held_drop held_stamp)

lemma held_publish_effect:
  assumes "held x d w" and "dc \<noteq> x"
  shows "held x d (publish_effect zh t del i p dc e w)"
  using assms
  by (simp add: publish_effect_def Let_def held_retire held_file held_add held_drop held_swap held_stamp)

lemma held_copied: "held x d w \<Longrightarrow> free_or_null m w \<Longrightarrow> held x d (copied m e w)"
  by (auto simp: held_def free_cell_def copied_def free_or_null_def)

lemma held_read: "held x d w \<Longrightarrow> held x d (read_mem zh w rcl i br cl p)"
proof -
  assume h: "held x d w"
  then have "held x d (moved b br c cl p w)" for b c by (rule held_cong) (simp_all add: moved_def)
  then show ?thesis by (simp add: delivered_def held_drop)
qed

lemma held_fold: "held x d w \<Longrightarrow> held x d (fold (release_step (route_release zh) b) ps w)"
  by (induction ps arbitrary: w) (simp_all add: held_release)

lemma held_leave: "held x d w \<Longrightarrow> held x d (leave zh i c w)"
proof (cases "brks w (route_broker w ! i)")
  case (Some br)
  assume "held x d w"
  then have "held x d (w\<lparr>brks := (brks w)(route_broker w ! i \<mapsto> without_client c br), clis := (clis w)(c := None)\<rparr>)"
    by (rule held_cong) simp_all
  then show ?thesis using Some by (simp add: leave_def leave_level_def held_fold)
qed (simp add: leave_def)

lemma held_left: "held x d w \<Longrightarrow> held x d (left zh cs w)"
  by (simp add: left_def held_leave)

section \<open>The other threads\<close>

text \<open>One operation of another thread; \<open>x\<close> is the copy that the thread we look at holds, if any.\<close>

inductive env_step ::
  "'h zhash_ops \<Rightarrow> 'd object_cbs \<Rightarrow> ('d \<Rightarrow> bool) \<Rightarrow> ('d \<Rightarrow> 'd) \<Rightarrow> ptr \<Rightarrow> ptr option
    \<Rightarrow> ('d, 'h) route_mem \<Rightarrow> ('d, 'h) route_mem \<Rightarrow> bool"
  for zh cb valid norm rc x where
  publish: "fresh_ptrs p dc w \<Longrightarrow> i < ROUTE_PRIORITY_MAX \<Longrightarrow> valid (norm d) \<Longrightarrow> stamps_left w \<Longrightarrow>
    (\<And>t del. topic_of cb (norm d) = Some (t, del) \<Longrightarrow> \<not> delete_overtakes zh t del i w) \<Longrightarrow>
    object_broker_publish zh cb d (int i) p dc w = Some w' \<Longrightarrow> env_step zh cb valid norm rc x w w'"
| attach: "fresh_clients c0 c1 c2 w \<Longrightarrow> rc' \<noteq> NULL \<Longrightarrow> rc' \<noteq> rc \<Longrightarrow> rclis w rc' = None \<Longrightarrow>
    route_broker_client_create zh cb (Some nm) rc' [(c0, True), (c1, True), (c2, True)] 0 w = Some (y, w') \<Longrightarrow>
    env_step zh cb valid norm rc x w w'"
| read: "rc' \<in> set (client_list_head w) \<Longrightarrow> rc' \<noteq> rc \<Longrightarrow> free_or_null m w \<Longrightarrow>
    route_broker_client_get_data zh cb rc' m [] w = Some (Got y c, w') \<Longrightarrow> env_step zh cb valid norm rc x w w'"
| detach: "rc' \<in> set (client_list_head w) \<Longrightarrow> rc' \<noteq> rc \<Longrightarrow> route_broker_client_delete zh cb rc' w = Some w' \<Longrightarrow>
    env_step zh cb valid norm rc x w w'"
| free: "free_cell m w \<Longrightarrow> datas w m \<noteq> None \<Longrightarrow> x \<noteq> Some m \<Longrightarrow> route_broker_client_free_data cb rc' m w = Some w' \<Longrightarrow>
    env_step zh cb valid norm rc x w w'"
| report: "rc' \<noteq> rc \<Longrightarrow> rclis w rc' = Some rcl \<Longrightarrow>
    env_step zh cb valid norm rc x w (w\<lparr>rclis := (rclis w)(rc' \<mapsto> rcl\<lparr>errors := errors rcl + 1\<rparr>)\<rparr>)"

lemma env_step_system:
  assumes "env_step zh cb valid norm rc x w w'" and "system zh cb valid norm rc w v"
  shows "system zh cb valid norm rc w' v"
  using assms
proof cases
  case (publish p dc i d)
  then show ?thesis by (intro system.publish [OF assms(2)])
next
  case (attach c0 c1 c2 rc' nm y)
  then show ?thesis by (intro system.other_attach [OF assms(2)])
next
  case (read rc' m y c)
  then show ?thesis by (intro system.other_read [OF assms(2)])
next
  case (detach rc')
  then show ?thesis by (intro system.other_detach [OF assms(2)])
next
  case (free m rc')
  then show ?thesis by (intro system.free [OF assms(2)])
next
  case (report rc' rcl)
  then show ?thesis by (simp add: system.report [OF assms(2)])
qed

context route_callbacks
begin

lemma free_copy:
  assumes "x \<noteq> NULL" and "datas w x \<noteq> None"
  shows "route_broker_client_free_data cb rc' x w = Some (w\<lparr>datas := (datas w)(x := None)\<rparr>)"
  using assms free [of x "datas w"] by (simp add: route_broker_client_free_data_def free_data_def)

lemma held_published:
  assumes ok: "route_ok zh valid w" and h: "held x d w"
    and f: "fresh_ptrs p dc w" "i < ROUTE_PRIORITY_MAX" "valid (norm e)" "stamps_left w"
    and p: "object_broker_publish zh cb e (int i) p dc w = Some w'"
  shows "held x d w'"
proof (cases "topic_of cb (norm e)")
  case None
  then have "w' = w\<lparr>processed_msg := processed_msg w + 1, ignored_msg := ignored_msg w + 1\<rparr>"
    using p object_broker_publish_eq [OF ok f] by simp
  then show ?thesis by (simp add: held_cong [OF h])
next
  case (Some td)
  obtain t del where td: "td = (t, del)" by (cases td)
  let ?e = "publish_effect zh t del i p dc (norm e) (w\<lparr>processed_msg := processed_msg w + 1\<rparr>)"
  have "dc \<noteq> x" using f(1) heldD(1) [OF h] by (auto simp: fresh_ptrs_def)
  then have eff: "held x d ?e" using h by (intro held_publish_effect) (simp_all add: held_def free_cell_def)
  have w': "w' = woken ?e (client_list_head w)" using p object_broker_publish_eq [OF ok f] Some td by simp
  show ?thesis unfolding w' by (rule held_cong [OF eff]) simp_all
qed

lemma env_step_held:
  assumes e: "env_step zh cb valid norm rc (Some x) w w'" and ok: "route_ok zh valid w" and h: "held x d w"
  shows "held x d w'"
  using e
proof cases
  case (publish p dc i e)
  show ?thesis by (rule held_published [OF ok h publish(1-4,6)])
next
  case (attach c0 c1 c2 rc' nm y)
  then have "w' = registered rc' [c0, c1, c2] (joined nm c0 c1 c2 w)"
    using client_create_eq [OF ok attach(1,2), where nm = nm and cb = cb] by auto
  then show ?thesis by (simp add: held_cong [OF h])
next
  case (read rc' m y c)
  obtain rcl where rcl: "rclis w rc' = Some rcl" using clients_ok_ex [OF route_okD(6) [OF ok] read(1)] by blast
  note rok = registered_ok [OF ok read(1) rcl]
  from ok rok rcl read(3,4) read_lags [OF ok rok rcl read(4)] show ?thesis
  proof (cases rule: read_cases)
    case (none i br cl)
    then show ?thesis using h by (simp add: caught_up_def held_def free_cell_def)
  next
    case (some i br cl p r e)
    then show ?thesis using held_read [OF held_copied [OF h read(3)]] by simp
  qed
next
  case (detach rc')
  obtain rcl where rcl: "rclis w rc' = Some rcl" using clients_ok_ex [OF route_okD(6) [OF ok] detach(1)] by blast
  have "held x d (left zh (client rcl) (unlisted rc' w))" using h by (intro held_left) (simp add: unlisted_def held_def free_cell_def)
  then show ?thesis using client_delete_eq [OF ok detach(1) rcl] detach(3) by (auto simp: held_def free_cell_def)
next
  case (free m rc')
  then have "w' = w\<lparr>datas := (datas w)(m := None)\<rparr>" using free_copy [of m w rc'] by (simp add: free_cell_def)
  then show ?thesis using h free(3) by (simp add: held_def free_cell_def)
next
  case (report rc' rcl)
  then show ?thesis using h by (simp add: held_def free_cell_def)
qed

end

section \<open>The thread of a dataplane\<close>

text \<open>The table a dataplane has, that applied what it was sent.\<close>

definition sent_table :: "'d object_cbs \<Rightarrow> ptr \<Rightarrow> 'd data_socks \<Rightarrow> (string \<rightharpoonup> 'd)" where
  "sent_table cb sock s = fold (apply_msg cb) (case sock_out s sock of Some out \<Rightarrow> out | None \<Rightarrow> []) Map.empty"

definition in_hand :: "dp_thread \<Rightarrow> ptr option" where
  "in_hand t = (case th_pc t of Try_sending x bc \<Rightarrow> Some x | _ \<Rightarrow> None)"

text \<open>What the environment answers: memory for a copy, then perhaps a time-out while nothing is there.\<close>

fun good_event :: "('d, 'h) dp_event \<Rightarrow> ('d, 'h) route_mem \<Rightarrow> bool" where
  "good_event (Memory m waits) w \<longleftrightarrow> m \<noteq> NULL \<and> datas w m = None \<and> (waits = [] \<or> waits = [(ETIMEDOUT, w)])"
| "good_event _ w \<longleftrightarrow> True"

text \<open>
  A run of the thread \<open>t\<close> with the client \<open>rc\<close>, between the steps of all other threads, as long as no
  other dataplane connects: a second one would change the variable \<open>dp_data_sock\<close> of this one.
\<close>

inductive dp_run ::
  "'h zhash_ops \<Rightarrow> 'd object_cbs \<Rightarrow> ('d \<Rightarrow> bool) \<Rightarrow> ('d \<Rightarrow> 'd) \<Rightarrow> ptr \<Rightarrow> dp_thread \<Rightarrow> 'd data_socks
    \<Rightarrow> ('d, 'h) route_mem \<Rightarrow> bool"
  for zh cb valid norm rc where
  start: "system zh cb valid norm rc w None \<Longrightarrow> fresh_clients c0 c1 c2 w \<Longrightarrow> rc \<noteq> NULL \<Longrightarrow> rclis w rc = None \<Longrightarrow>
    dp_start zh cb so stack sock_ep rc [(c0, True), (c1, True), (c2, True)] 0 s w = Some (t, s', w') \<Longrightarrow>
    dp_run zh cb valid norm rc t s' w'"
| other: "dp_run zh cb valid norm rc t s w \<Longrightarrow> env_step zh cb valid norm rc (in_hand t) w w' \<Longrightarrow>
    dp_run zh cb valid norm rc t s w'"
| act: "dp_run zh cb valid norm rc t s w \<Longrightarrow> good_event ev w \<Longrightarrow>
    broker_dp_data_client zh cb detail ev t s w = Some (t', s', w') \<Longrightarrow> dp_run zh cb valid norm rc t' s' w'"

definition dp_ok ::
  "'h zhash_ops \<Rightarrow> 'd object_cbs \<Rightarrow> ('d \<Rightarrow> bool) \<Rightarrow> ('d \<Rightarrow> 'd) \<Rightarrow> ptr \<Rightarrow> dp_thread \<Rightarrow> 'd data_socks
    \<Rightarrow> ('d, 'h) route_mem \<Rightarrow> bool" where
  "dp_ok zh cb valid norm rc t s w \<longleftrightarrow> th_client t = rc \<and>
     (th_pc t = Returned \<or> (dp_data_sock s = th_bound t \<and> sock_out s (th_bound t) \<noteq> None)) \<and>
     (case th_pc t of
        Fetch \<Rightarrow> system zh cb valid norm rc w (Some (sent_table cb (th_bound t) s))
      | Try_sending x bc \<Rightarrow> \<exists>d rcl. held x d w \<and>
          system zh cb valid norm rc w (Some (apply_msg cb d (sent_table cb (th_bound t) s))) \<and>
          rclis w rc = Some rcl \<and> bc \<in> set (client rcl)
      | Stop_client \<Rightarrow> \<exists>v. system zh cb valid norm rc w (Some v)
      | Returned \<Rightarrow> system zh cb valid norm rc w None)"

lemma restart_or_simps [simp]:
  "th_client (restart_or go t) = th_client t" "th_bound (restart_or go t) = th_bound t"
  "th_pc (restart_or go t) = (if fst (client_needs_restart (th_pipe t)) then Stop_client else go)"
  by (simp_all add: restart_or_def split: prod.split)

lemma client_publish_eq:
  assumes "sock_out s (dp_data_sock s) = Some out"
  shows "client_publish r d s =
    Some (if r = 0 then s\<lparr>sock_out := (sock_out s)(dp_data_sock s \<mapsto> out @ [d])\<rparr> else s)"
  using assms by (simp add: client_publish_def)

context route_callbacks
begin

lemma env_step_rclis:
  assumes e: "env_step zh cb valid norm rc x w w'" and ok: "route_ok zh valid w" and r: "rclis w rc = Some rcl"
  shows "\<exists>rcl'. rclis w' rc = Some rcl' \<and> client rcl' = client rcl"
  using e
proof cases
  case (publish p dc i e)
  show ?thesis
  proof (cases "topic_of cb (norm e)")
    case None
    then show ?thesis using publish(6) object_broker_publish_eq [OF ok publish(1-4)] r by auto
  next
    case (Some td)
    obtain t del where td: "td = (t, del)" by (cases td)
    have "w' = woken (publish_effect zh t del i p dc (norm e) (w\<lparr>processed_msg := processed_msg w + 1\<rparr>)) (client_list_head w)"
      using publish(6) object_broker_publish_eq [OF ok publish(1-4)] Some td by simp
    then show ?thesis using r by (simp add: woken_def)
  qed
next
  case (attach c0 c1 c2 rc' nm y)
  then have "w' = registered rc' [c0, c1, c2] (joined nm c0 c1 c2 w)"
    using client_create_eq [OF ok attach(1,2), where nm = nm and cb = cb] by auto
  then show ?thesis using r attach(3) by (simp add: registered_def)
next
  case (read rc' m y c)
  obtain rcl' where rcl': "rclis w rc' = Some rcl'" using clients_ok_ex [OF route_okD(6) [OF ok] read(1)] by blast
  note rok = registered_ok [OF ok read(1) rcl']
  from ok rok rcl' read(3,4) read_lags [OF ok rok rcl' read(4)] show ?thesis
  proof (cases rule: read_cases)
    case (none i br cl)
    then show ?thesis using r by (simp add: caught_up_def)
  next
    case (some i br cl p q e)
    then show ?thesis using r read_mem_eq(5) [OF some(1), of zh] by simp
  qed
next
  case (detach rc')
  obtain rcl' where rcl': "rclis w rc' = Some rcl'" using clients_ok_ex [OF route_okD(6) [OF ok] detach(1)] by blast
  then show ?thesis using client_delete_eq [OF ok detach(1) rcl'] detach(2,3) r by auto
next
  case (free m rc')
  then show ?thesis using r by (auto simp: route_broker_client_free_data_def free_data_def Option.bind_eq_Some_conv)
next
  case (report rc' rcl')
  then show ?thesis using r by simp
qed

text \<open>A read of the thread itself: what it holds afterwards.\<close>

lemma read_holds:
  assumes ok: "route_ok zh valid w" and rc: "rc \<in> set (client_list_head w)" "rclis w rc = Some rcl"
    and m: "m \<noteq> NULL" "datas w m = None"
    and g: "route_broker_client_get_data zh cb rc m waits w = Some (Got x c, w')" and lag: "first_lag w rcl \<ge> 0"
  shows "rclis w' rc = Some rcl" "c \<in> set (client rcl)" "x \<noteq> NULL \<Longrightarrow> \<exists>d. held x d w'"
proof -
  have mf: "free_or_null m w" using m by (simp add: free_or_null_def)
  note rok = registered_ok [OF ok rc]
  have len: "length (client rcl) = 3" using rok by (simp add: rcl_ok_def)
  have "rclis w' rc = Some rcl \<and> c \<in> set (client rcl) \<and> (x \<noteq> NULL \<longrightarrow> (\<exists>d. held x d w'))"
    using ok rok rc(2) mf g lag
  proof (cases rule: read_cases)
    case (none i br cl)
    then show ?thesis using rc(2) reader_atD(1) [OF none(1)] len by (simp add: caught_up_def)
  next
    case (some i br cl p r d)
    note rD = reader_atD [OF next_forD(1) [OF some(1)]]
    have "free_cell m w" using free_or_null_data [OF ok mf] m(1) by (auto simp: free_cell_def)
    then have "held m d (copied m d w)" using m(1) by (simp add: held_def copied_def free_cell_def)
    then have "held x d w'" unfolding some(4,6) by (rule held_read)
    then show ?thesis
      using some rc(2) read_mem_eq(5) [OF some(1), of zh] rD(1) len by auto
  qed
  then show "rclis w' rc = Some rcl" "c \<in> set (client rcl)" "x \<noteq> NULL \<Longrightarrow> \<exists>d. held x d w'" by blast+
qed

lemma log_args_total:
  assumes ok: "route_ok zh valid w" and rc: "rc \<in> set (client_list_head w)" "rclis w rc = Some rcl" and bc: "bc \<in> set (client rcl)"
  shows "log_args bc w \<noteq> None"
proof -
  note rok = registered_ok [OF ok rc]
  obtain i where i: "i < ROUTE_PRIORITY_MAX" "bc = client rcl ! i" using bc rok by (auto simp: rcl_ok_def in_set_conv_nth)
  obtain br where br: "brks w (route_broker w ! i) = Some br" using level_broker [OF route_okD(2) [OF ok] i(1)] .
  from ok rok i(1) br obtain cl where "clis w (client rcl ! i) = Some cl" "cl_broker cl = route_broker w ! i"
    by (rule client_at_level)
  then show ?thesis using br i(2) by (simp add: log_args_def)
qed

lemma get_data_waits:
  assumes ok: "route_ok zh valid w" and rcl: "rcl_ok (level_clients w) rcl" "rclis w rc = Some rcl" and lag: "first_lag w rcl \<ge> 0"
  shows "route_broker_client_get_data zh cb rc m waits w = route_broker_client_get_data zh cb rc m [] w"
proof -
  obtain i where i: "first_lag w rcl = int i" "i < ROUTE_PRIORITY_MAX"
    using lag by (cases rule: first_lag_cases [of w rcl]) auto
  obtain br cl where r: "reader_at w rcl i br cl" using reader_at_ex [OF ok rcl(1) i(2)] .
  show ?thesis unfolding get_data_level [OF ok rcl i(1) r] ..
qed

text \<open>A read of a thread in a run: nothing is there, or a read without an object, or an object that is held.\<close>

lemma thread_reads:
  assumes sys: "system zh cb valid norm rc w (Some v)"
    and m: "m \<noteq> NULL" "datas w m = None" and waits: "waits = [] \<or> waits = [(ETIMEDOUT, w)]"
  obtains (idle) "route_broker_client_get_data zh cb rc m waits w = Some (if waits = [] then Blocked else Timed_out, w)"
    | (none) c w' where "route_broker_client_get_data zh cb rc m waits w = Some (Got NULL c, w')" "system zh cb valid norm rc w' (Some v)"
    | (some) x c w' d rcl where "route_broker_client_get_data zh cb rc m waits w = Some (Got x c, w')" "x \<noteq> NULL" "held x d w'"
        "system zh cb valid norm rc w' (Some (apply_msg cb d v))" "rclis w' rc = Some rcl" "c \<in> set (client rcl)"
proof -
  note I = system_okD [OF system_invariant [OF sys]]
  from I(4) obtain rcl where rc: "rc \<in> set (client_list_head w)" "rclis w rc = Some rcl" by (rule syncedD)
  note rok = registered_ok [OF I(1) rc]
  have mf: "free_or_null m w" using m by (simp add: free_or_null_def)
  show thesis
  proof (cases "first_lag w rcl \<ge> 0")
    case True
    obtain x c w' where g: "route_broker_client_get_data zh cb rc m [] w = Some (Got x c, w')"
      using read_total [OF I(1) rok rc(2) mf True] by blast
    note g' = g [folded get_data_waits [OF I(1) rok rc(2) True, of m waits]]
    note sys' = system.read [OF sys m g]
    note H = read_holds [OF I(1) rc m g True]
    show ?thesis
    proof (cases "x = NULL")
      case True
      then show ?thesis using none [of c w'] g' sys' by simp
    next
      case False
      then obtain d where d: "held x d w'" using H(3) by blast
      then have "system zh cb valid norm rc w' (Some (apply_msg cb d v))" using sys' False heldD(1) [OF d] by simp
      then show ?thesis using some [OF g' False d _ H(1,2)] by blast
    qed
  next
    case False
    then show ?thesis using idle data_available_eq [OF I(1) rok rc(2)] waits by auto
  qed
qed

lemma system_free_held:
  assumes "held x d u" and "system zh cb valid norm rc u v"
  shows "system zh cb valid norm rc (u\<lparr>datas := (datas u)(x := None)\<rparr>) v"
  using system.free [OF assms(2), of x rc] assms(1) free_copy [of x u rc] by (simp add: held_def free_cell_def)

lemma reader_log_args:
  assumes "system zh cb valid norm rc w (Some v)" and "rclis w rc = Some rcl" and "bc \<in> set (client rcl)"
  shows "\<exists>a. log_args bc w = Some a"
proof -
  note I = system_okD [OF system_invariant [OF assms(1)]]
  from I(4) have "rc \<in> set (client_list_head w)" by (auto elim: syncedD)
  from log_args_total [OF I(1) this assms(2,3)] show ?thesis by auto
qed

lemma dp_fetch_ok:
  assumes ok: "dp_ok zh cb valid norm rc t s w" and pc: "th_pc t = Fetch"
    and m: "m \<noteq> NULL" "datas w m = None" and waits: "waits = [] \<or> waits = [(ETIMEDOUT, w)]"
  shows "\<exists>t' w'. dp_fetch zh cb m waits t w = Some (t', w') \<and> dp_ok zh cb valid norm rc t' s w'"
proof -
  let ?v = "sent_table cb (th_bound t) s"
  have t: "th_client t = rc" "dp_data_sock s = th_bound t" "sock_out s (th_bound t) \<noteq> None"
    and sys: "system zh cb valid norm rc w (Some ?v)" using ok pc by (simp_all add: dp_ok_def)
  from sys m waits show ?thesis
  proof (cases rule: thread_reads)
    case idle
    then have "dp_fetch zh cb m waits t w = Some (if waits = [] then t else restart_or Fetch t, w)"
      using t(1) by (simp add: dp_fetch_def del: route_broker_client_get_data.simps)
    then show ?thesis using ok sys t by (auto simp: dp_ok_def)
  next
    case (none c w')
    then have "dp_fetch zh cb m waits t w = Some (restart_or Fetch t, w')"
      using t(1) by (simp add: dp_fetch_def del: route_broker_client_get_data.simps)
    then show ?thesis using none(2) t by (auto simp: dp_ok_def)
  next
    case (some x c w' d rcl)
    then have "dp_fetch zh cb m waits t w = Some (t\<lparr>th_pc := Try_sending x c\<rparr>, w')"
      using t(1) by (simp add: dp_fetch_def del: route_broker_client_get_data.simps)
    then show ?thesis using some t by (auto simp: dp_ok_def sent_table_def)
  qed
qed

lemma dp_try_ok:
  assumes ok: "dp_ok zh cb valid norm rc t s w" and pc: "th_pc t = Try_sending x bc"
  shows "\<exists>t' s' w'. dp_try_sending cb detail r errno x bc t s w = Some (t', s', w') \<and> dp_ok zh cb valid norm rc t' s' w'"
proof -
  let ?v = "sent_table cb (th_bound t) s"
  obtain d rcl out where t: "th_client t = rc" "dp_data_sock s = th_bound t" "sock_out s (th_bound t) = Some out"
    and h: "held x d w" and sys: "system zh cb valid norm rc w (Some (apply_msg cb d ?v))"
    and rcl: "rclis w rc = Some rcl" "bc \<in> set (client rcl)" using ok pc by (auto simp: dp_ok_def)
  note la = reader_log_args [OF sys rcl]
  note pub = client_publish_eq [of s, unfolded t(2), OF t(3)]
  show ?thesis
  proof (cases "r = 0")
    case True
    let ?t = "restart_or Fetch t"
    let ?s = "s\<lparr>sock_out := (sock_out s)(th_bound t \<mapsto> out @ [d])\<rparr>"
    let ?w = "w\<lparr>datas := (datas w)(x := None)\<rparr>"
    have "dp_try_sending cb detail r errno x bc t s w = Some (?t, ?s, ?w)"
      using True heldD(1) [OF h] la free_copy [of x w rc] heldD(2) [OF h] t(1) pub [of r d] by (auto simp: dp_try_sending_def)
    moreover have "sent_table cb (th_bound t) ?s = apply_msg cb d ?v" using t(3) by (simp add: sent_table_def)
    ultimately show ?thesis using system_free_held [OF h sys] t by (auto simp: dp_ok_def)
  next
    case False
    let ?r = "rcl\<lparr>errors := errors rcl + 1\<rparr>"
    define u where "u = (if errno \<noteq> EAGAIN then w\<lparr>rclis := (rclis w)(rc \<mapsto> ?r)\<rparr> else w)"
    have u: "held x d u" "system zh cb valid norm rc u (Some (apply_msg cb d ?v))" "datas u = datas w"
      "\<exists>q. rclis u rc = Some q \<and> bc \<in> set (client q)"
      using held_cong [OF h, of u] system.report [OF sys rcl(1)] sys rcl by (simp_all add: u_def)
    have la': "log_args bc (w\<lparr>rclis := z\<rparr>) = log_args bc w" for z by (simp add: log_args_def)
    let ?t = "restart_or (Try_sending x bc) t"
    have f: "dp_try_sending cb detail r errno x bc t s w =
        Some (?t, s, if th_pc ?t = Stop_client then u\<lparr>datas := (datas u)(x := None)\<rparr> else u)"
      using False heldD(1) [OF h] la la' free_copy [of x u rc] heldD(2) [OF h] t(1) rcl(1) u(3) pub [of r d]
      by (auto simp: dp_try_sending_def count_error_def u_def Let_def)
    show ?thesis
    proof (cases "fst (client_needs_restart (th_pipe t))")
      case True
      then show ?thesis using f system_free_held [OF u(1,2)] t by (auto simp: dp_ok_def)
    next
      case False
      then show ?thesis using f u t by (auto simp: dp_ok_def)
    qed
  qed
qed

lemma dp_stop_ok:
  assumes ok: "dp_ok zh cb valid norm rc t s w" and pc: "th_pc t = Stop_client"
  shows "\<exists>t' s' w'. dp_stop_client zh cb t s w = Some (t', s', w') \<and> dp_ok zh cb valid norm rc t' s' w'"
proof -
  obtain v out where t: "th_client t = rc" "sock_out s (dp_data_sock s) = Some out"
    and sys: "system zh cb valid norm rc w (Some v)" using ok pc by (auto simp: dp_ok_def)
  note I = system_okD [OF system_invariant [OF sys]]
  from I(4) obtain rcl where rc: "rc \<in> set (client_list_head w)" "rclis w rc = Some rcl" by (rule syncedD)
  obtain w' where w': "route_broker_client_delete zh cb rc w = Some w'" using client_delete_eq [OF I(1) rc] by blast
  then show ?thesis using t system.detach [OF sys w'] by (auto simp: dp_stop_client_def dp_ok_def)
qed

lemma dp_step_ok:
  assumes ok: "dp_ok zh cb valid norm rc t s w" and ev: "good_event ev w"
  shows "\<exists>t' s' w'. broker_dp_data_client zh cb detail ev t s w = Some (t', s', w') \<and> dp_ok zh cb valid norm rc t' s' w'"
proof -
  consider (cmd) str where "ev = Command str" | (fetch) m waits where "ev = Memory m waits" "th_pc t = Fetch"
    | (sent) r errno x bc where "ev = Sent r errno" "th_pc t = Try_sending x bc"
    | (stop) "ev = Nothing" "th_pc t = Stop_client"
    | (idle) "broker_dp_data_client zh cb detail ev t s w = Some (t, s, w)"
    by (cases ev; cases "th_pc t") (auto simp: broker_dp_data_client_def)
  then show ?thesis
  proof cases
    case (cmd str)
    then show ?thesis using ok by (auto simp: broker_dp_data_client_def dp_ok_def split: dp_pc.splits)
  next
    case (fetch m waits)
    then show ?thesis using dp_fetch_ok [OF ok fetch(2), of m waits] ev by (auto simp: broker_dp_data_client_def)
  next
    case (sent r errno x bc)
    then show ?thesis using dp_try_ok [OF ok sent(2)] by (simp add: broker_dp_data_client_def)
  next
    case stop
    then show ?thesis using dp_stop_ok [OF ok stop(2)] by (simp add: broker_dp_data_client_def)
  next
    case idle
    then show ?thesis using ok by blast
  qed
qed

lemma dp_run_ok:
  assumes "dp_run zh cb valid norm rc t s w"
  shows "dp_ok zh cb valid norm rc t s w"
  using assms
proof induction
  case (start w c0 c1 c2 so stack sock_ep s t s' w')
  then obtain cl ep ps where c: "route_broker_client_create zh cb (Some ''dp'') rc [(c0, True), (c1, True), (c2, True)] 0 w = Some (cl, w')"
    "t = \<lparr>th_pc = Fetch, th_client = cl, th_pipe = [], th_ep = ep, th_bound = push_new so\<rparr>"
    "s' = s\<lparr>dp_data_sock := push_new so, sock_out := (sock_out s)(push_new so \<mapsto> [])\<rparr>"
    by (auto simp: dp_start_def Option.bind_eq_Some_conv)
  have "cl = rc"
    using client_create_eq [OF system_okD(1) [OF system_invariant [OF start(1)]] start(2,3), where nm = "''dp''" and cb = cb] c(1) by simp
  then show ?case using system.attach [OF start(1-4) c(1)] c(2,3) by (simp add: dp_ok_def sent_table_def)
next
  case (other t s w w')
  note keep = env_step_system [OF other(2)]
  show ?case
  proof (cases "th_pc t")
    case (Try_sending x bc)
    then obtain d rcl where h: "held x d w" "system zh cb valid norm rc w (Some (apply_msg cb d (sent_table cb (th_bound t) s)))"
      "rclis w rc = Some rcl" "bc \<in> set (client rcl)" using other(3) by (auto simp: dp_ok_def)
    note ok = system_okD(1) [OF system_invariant [OF h(2)]]
    have e: "env_step zh cb valid norm rc (Some x) w w'" using other(2) Try_sending by (simp add: in_hand_def)
    obtain rcl' where "rclis w' rc = Some rcl'" "client rcl' = client rcl" using env_step_rclis [OF e ok h(3)] by blast
    then show ?thesis using env_step_held [OF e ok h(1)] keep [OF h(2)] h(4) other(3) Try_sending by (auto simp: dp_ok_def)
  qed (use other(3) keep in \<open>auto simp: dp_ok_def\<close>)
next
  case (act t s w ev detail t' s' w')
  then show ?case using dp_step_ok [OF act(4,2), of detail] by auto
qed

end

end
