(* ===== verification/Consumer_Properties.thy ===== *)
theory Consumer_Properties
  imports Consumer_Runs
begin

text \<open>
  The properties of the consumer threads, with a run of one dataplane as the example: the thread
  starts, a route is published, read and sent.
\<close>

section \<open>A run\<close>

definition eg_sock :: data_sock_ops where
  "eg_sock = \<lparr>push_new = 50, bind_rc = (\<lambda>_. 0), last_endpoint = ''tcp://127.0.0.1:40001'', chmod_rc = (\<lambda>_. 0)\<rparr>"

definition eg_thread :: "dp_pc \<Rightarrow> dp_thread" where
  "eg_thread pc = \<lparr>th_pc = pc, th_client = 10, th_pipe = [], th_ep = ''tcp://127.0.0.1:40001'', th_bound = 50\<rparr>"

definition eg_socks :: "bytes list \<Rightarrow> bytes data_socks" where
  "eg_socks out = \<lparr>dp_data_sock = 50, sock_out = [50 \<mapsto> out]\<rparr>"

definition eg_acked :: eg_mem where
  "eg_acked = eg_read\<lparr>datas := (datas eg_read)(30 := None)\<rparr>"

abbreviation (input) eg_dp_run :: "dp_thread \<Rightarrow> bytes data_socks \<Rightarrow> eg_mem \<Rightarrow> bool" where
  "eg_dp_run \<equiv> dp_run map_zhash eg_cb (nl_valid eg_mnl) nl_norm 10"

lemma eg_dp_started: "eg_dp_run (eg_thread Fetch) (eg_socks []) eg_attached"
proof (rule dp_run.start [OF eg_run_init])
  show "fresh_clients 11 12 13 eg_init" by code_simp
  show "rclis eg_init 10 = None" by code_simp
  have i: "broker_dp_data_init eg_sock [] ''tcp://*'' = Some (''tcp://127.0.0.1:40001'', [])" by code_simp
  show "dp_start map_zhash eg_cb eg_sock [] ''tcp://*'' 10 [(11, True), (12, True), (13, True)] 0 \<lparr>dp_data_sock = NULL, sock_out = Map.empty\<rparr> eg_init =
      Some (eg_thread Fetch, eg_socks [], eg_attached)"
    using eg_attached_eq i by (simp add: dp_start_def eg_thread_def eg_socks_def eg_sock_def)
qed simp

lemma eg_dp_published: "eg_dp_run (eg_thread Fetch) (eg_socks []) eg_published"
proof (rule dp_run.other [OF eg_dp_started])
  show "env_step map_zhash eg_cb (nl_valid eg_mnl) nl_norm 10 (in_hand (eg_thread Fetch)) eg_attached eg_published"
    by (rule env_step.publish [OF eg_fresh(1) _ _ eg_stamps _ eg_published_eq])
      (simp_all add: eg_norm eg_msg_valid eg_topics delete_overtakes_def)
qed

lemma eg_dp_fetched: "eg_dp_run (eg_thread (Try_sending 30 13)) (eg_socks []) eg_read"
proof (rule dp_run.act [OF eg_dp_published])
  show "good_event (Memory 30 []) eg_published" using eg_free by simp
  show "broker_dp_data_client map_zhash eg_cb False (Memory 30 []) (eg_thread Fetch) (eg_socks []) eg_published =
      Some (eg_thread (Try_sending 30 13), eg_socks [], eg_read)"
    using eg_read_eq by (simp add: broker_dp_data_client_def dp_fetch_def eg_thread_def)
qed

lemma eg_dp_sent: "eg_dp_run (eg_thread Fetch) (eg_socks [eg_msg 24 1]) eg_acked"
proof (rule dp_run.act [OF eg_dp_fetched])
  show "good_event (Sent 0 0) eg_read" by simp
  have f: "route_broker_client_free_data eg_cb 10 30 eg_read = Some eg_acked"
    using nl_routes.free_copy [of 30 eg_read eg_build eg_mnl 10] eg_copy by (simp add: eg_acked_def)
  show "broker_dp_data_client map_zhash eg_cb False (Sent 0 0) (eg_thread (Try_sending 30 13)) (eg_socks []) eg_read =
      Some (eg_thread Fetch, eg_socks [eg_msg 24 1], eg_acked)"
    using f eg_copy
    by (simp add: broker_dp_data_client_def dp_try_sending_def client_publish_def eg_socks_def eg_thread_def restart_or_def client_needs_restart_def)
qed

section \<open>The dataplane\<close>

text \<open>
  C3. A dataplane ends up with the table of the broker: in every run of the thread that serves it,
  with publishers and other consumers in between, whenever the thread is about to read and nothing is
  available, the messages that were sent on the socket of the dataplane, applied one after the other to
  an empty table, give exactly the routes of the broker. It is the only dataplane of the run.
\<close>

theorem dataplane_has_table:
  assumes "route_callbacks zh cb valid norm" and "dp_run zh cb valid norm rc t s w" and "th_pc t = Fetch"
    and "data_available_for_client rc w = Some (- 1)"
  shows "\<exists>out. sock_out s (th_bound t) = Some out \<and> fold (apply_msg cb) out Map.empty = rib zh w"
proof -
  note dp = route_callbacks.dp_run_ok [OF assms(1,2)]
  obtain out where out: "sock_out s (th_bound t) = Some out" using dp assms(3) by (auto simp: dp_ok_def)
  have sys: "system zh cb valid norm rc w (Some (fold (apply_msg cb) out Map.empty))"
    using dp assms(3) out by (simp add: dp_ok_def sent_table_def)
  from assms(1) sys obtain rcl where r: "rclis w rc = Some rcl" "in_sync zh w rcl (fold (apply_msg cb) out Map.empty)"
    "rcl_ok (level_clients w) rcl" by (rule run_reader)
  note ok = run_facts(1) [OF assms(1) sys]
  have "first_lag w rcl = - 1" using data_available_eq [OF ok r(3,1)] assms(4) by simp
  from in_sync_done [OF ok r(3) this r(2)] show ?thesis using out by blast
qed

theorem dataplane_has_table_witness:
  "fold (apply_msg eg_cb) [eg_msg 24 1] Map.empty = rib map_zhash eg_acked \<and> rib map_zhash eg_acked ''r 10.0.1.0/24 0 254'' = Some (eg_msg 24 1)"
proof -
  have "data_available_for_client 10 eg_acked = Some (- 1)" by code_simp
  from dataplane_has_table [OF nl_routes.route_callbacks_axioms eg_dp_sent _ this]
  have "fold (apply_msg eg_cb) [eg_msg 24 1] Map.empty = rib map_zhash eg_acked" by (simp add: eg_thread_def eg_socks_def)
  moreover have "rib map_zhash eg_acked ''r 10.0.1.0/24 0 254'' = Some (eg_msg 24 1)" by code_simp
  ultimately show ?thesis by blast
qed




section \<open>Two dataplanes\<close>






section \<open>Runs that go wrong\<close>

text \<open>
  A read whose copy cannot be allocated loses the route for this consumer: the read returns null
  as if there was nothing, the client has moved on, nothing is available any more, and the consumer has
  not been given the route that is in the table.
\<close>

theorem failed_copy_loses_route:
  "map_option fst (route_broker_client_get_data map_zhash eg_cb 10 NULL [] eg_published) = Some (Got NULL 13) \<and>
   data_available_for_client 10 (snd (the (route_broker_client_get_data map_zhash eg_cb 10 NULL [] eg_published))) = Some (- 1) \<and>
   rib map_zhash (snd (the (route_broker_client_get_data map_zhash eg_cb 10 NULL [] eg_published))) ''r 10.0.1.0/24 0 254'' =
     Some (eg_msg 24 1)"
  by code_simp

text \<open>The endpoint \<open>ipc:///tmp/x/s\<close>, and a stack that still holds the end of another path.\<close>

definition eg_ipc :: data_sock_ops where
  "eg_ipc = eg_sock\<lparr>last_endpoint := ''ipc:///tmp/x/s''\<rparr>"

definition eg_stack :: string where
  "eg_stack = ''/var/run/other/file'' @ [NUL, NUL]"

text \<open>
  The directory of a socket is copied without its terminating \<open>NUL\<close>: with a clean stack the
  permissions of \<open>/tmp/x\<close> are changed, with remains of another path on the stack those of a path
  that was never meant.
\<close>

theorem unterminated_directory:
  "broker_dp_data_init eg_ipc (replicate 4096 NUL) ''ipc://*'' = Some (''ipc:///tmp/x/s'', [''/tmp/x/s'', ''/tmp/x'']) \<and>
   broker_dp_data_init eg_ipc eg_stack ''ipc://*'' = Some (''ipc:///tmp/x/s'', [''/tmp/x/s'', ''/tmp/x/s/other''])"
  by code_simp

end
