(* ===== verification/Consumer_Liveness.thy ===== *)
theory Consumer_Liveness
  imports Consumer_Properties
begin

text \<open>
  The thread of a dataplane catches up: when it keeps being scheduled and every send succeeds in the
  end, however often it is refused before, the dataplane has the table after a number of rounds that is
  known in advance.
\<close>

section \<open>Rounds\<close>

fun dp_acts ::
  "'h zhash_ops \<Rightarrow> 'd object_cbs \<Rightarrow> bool \<Rightarrow> ('d, 'h) dp_event list \<Rightarrow> dp_thread \<Rightarrow> 'd data_socks \<Rightarrow> ('d, 'h) route_mem
    \<Rightarrow> (dp_thread \<times> 'd data_socks \<times> ('d, 'h) route_mem) option" where
  "dp_acts zh cb detail [] t s w = Some (t, s, w)"
| "dp_acts zh cb detail (ev # evs) t s w = do {
     (t, s, w) \<leftarrow> broker_dp_data_client zh cb detail ev t s w;
     dp_acts zh cb detail evs t s w
   }"

lemma dp_acts_append:
  "dp_acts zh cb detail (evs @ evs') t s w = do {
     (t, s, w) \<leftarrow> dp_acts zh cb detail evs t s w;
     dp_acts zh cb detail evs' t s w
   }"
  by (induction evs arbitrary: t s w) (auto split: Option.bind_splits)

text \<open>A round: memory for one read, then sends that end with one that succeeds.\<close>

definition dp_round :: "ptr \<times> (int \<times> int) list \<Rightarrow> ('d, 'h) dp_event list" where
  "dp_round r = Memory (fst r) [] # map (\<lambda>(rc, errno). Sent rc errno) (snd r) @ [Sent 0 0]"

text \<open>What sending leaves as it is: everything but the counter of the consumer and the copy in hand.\<close>

definition quiet :: "ptr \<Rightarrow> ptr \<Rightarrow> ('d, 'h) route_mem \<Rightarrow> ('d, 'h) route_mem \<Rightarrow> bool" where
  "quiet x rc w w' \<longleftrightarrow> objs w' = objs w \<and> clis w' = clis w \<and> brks w' = brks w \<and> route_broker w' = route_broker w \<and>
     route_hashtbl w' = route_hashtbl w \<and> (\<forall>y. y \<noteq> x \<longrightarrow> datas w' y = datas w y) \<and> datas w' x \<in> {None, datas w x} \<and>
     map_option client (rclis w' rc) = map_option client (rclis w rc)"

lemma quiet_refl: "quiet x rc w w"
  by (simp add: quiet_def)

lemma quiet_trans: "quiet x rc w w' \<Longrightarrow> quiet x rc w' w'' \<Longrightarrow> quiet x rc w w''"
  by (auto simp: quiet_def)

lemma quiet_reads_left:
  assumes "quiet x rc w w'" and "client rcl' = client rcl"
  shows "reads_left w' rcl' = reads_left w rcl"
  using assms by (simp add: reads_left_def waiting_def behind_def awaits_def lag_def quiet_def)

lemma quiet_rib:
  assumes "quiet x rc w w'" and "\<And>p r. objs w p = Some r \<Longrightarrow> data r \<noteq> x"
  shows "rib zh w' = rib zh w"
proof -
  have "payload w' p = payload w p" for p using assms by (cases "objs w p") (auto simp: payload_def quiet_def)
  then have "entry w' p = entry w p" for p using assms(1) by (intro entry_payload) (simp_all add: quiet_def)
  moreover have "hashed zh w' = hashed zh w" using assms(1) by (simp add: hashed_def quiet_def fun_eq_iff)
  ultimately show ?thesis by (simp add: rib_entry fun_eq_iff)
qed

section \<open>Sending\<close>

lemma dp_acts_idle:
  "th_pc t = Fetch \<Longrightarrow> dp_acts zh cb detail (map (\<lambda>(rc, errno). Sent rc errno) fs) t s w = Some (t, s, w)"
  by (induction fs) (auto simp: broker_dp_data_client_def)

context route_callbacks
begin

lemma dp_try_quiet:
  assumes ok: "dp_ok zh cb valid norm rc t s w" and pc: "th_pc t = Try_sending x bc" "th_pipe t = []"
    and r: "dp_try_sending cb detail r errno x bc t s w = Some (t', s', w')"
  shows "quiet x rc w w' \<and> th_pipe t' = [] \<and> th_pc t' = (if r = 0 then Fetch else th_pc t)"
proof -
  obtain d rcl where t: "th_client t = rc" and h: "held x d w" and rcl: "rclis w rc = Some rcl"
    using ok pc by (auto simp: dp_ok_def)
  have fr: "route_broker_client_free_data cb rc x w = Some (w\<lparr>datas := (datas w)(x := None)\<rparr>)"
    using free_copy [of x w rc] heldD(1,2) [OF h] by simp
  have ro: "restart_or go t = t\<lparr>th_pc := go, th_pipe := []\<rparr>" for go using pc(2) by (simp add: restart_or_def client_needs_restart_def)
  show ?thesis
  proof (cases "r = 0")
    case True
    then obtain s1 where "Some (restart_or Fetch t, s1, w\<lparr>datas := (datas w)(x := None)\<rparr>) = Some (t', s', w')"
      using r heldD(1) [OF h] fr t by (auto simp: dp_try_sending_def Option.bind_eq_Some_conv simp del: restart_or_simps)
    then show ?thesis using True by (auto simp: ro quiet_def)
  next
    case False
    define u where "u = (if errno \<noteq> EAGAIN then w\<lparr>rclis := (rclis w)(rc \<mapsto> rcl\<lparr>errors := errors rcl + 1\<rparr>)\<rparr> else w)"
    obtain s1 where "Some (restart_or (Try_sending x bc) t, s1, u) = Some (t', s', w')"
      using r False heldD(1) [OF h] t rcl unfolding dp_try_sending_def ro Let_def
      by (cases "errno = EAGAIN") (auto simp: count_error_def u_def Option.bind_eq_Some_conv)
    then show ?thesis using False pc(1) rcl by (auto simp: ro quiet_def u_def)
  qed
qed

lemma dp_sends:
  assumes "dp_ok zh cb valid norm rc t s w" and "th_pc t = Try_sending x bc" and "th_pipe t = []"
  shows "\<exists>t' s' w'. dp_acts zh cb detail (map (\<lambda>(rc, errno). Sent rc errno) fs @ [Sent 0 0]) t s w = Some (t', s', w') \<and>
    dp_ok zh cb valid norm rc t' s' w' \<and> th_pc t' = Fetch \<and> th_pipe t' = [] \<and> quiet x rc w w'"
  using assms
proof (induction fs arbitrary: t s w)
  case Nil
  then obtain t' s' w' where s: "dp_try_sending cb detail 0 0 x bc t s w = Some (t', s', w')" "dp_ok zh cb valid norm rc t' s' w'"
    using dp_try_ok by blast
  then show ?case using dp_try_quiet [OF Nil s(1)] Nil(2) by (simp add: broker_dp_data_client_def)
next
  case (Cons f fs)
  obtain r e where f: "f = (r, e)" by (cases f)
  obtain t1 s1 w1 where s: "dp_try_sending cb detail r e x bc t s w = Some (t1, s1, w1)" "dp_ok zh cb valid norm rc t1 s1 w1"
    using dp_try_ok [OF Cons(2,3)] by blast
  note q = dp_try_quiet [OF Cons(2-4) s(1)]
  have step: "dp_acts zh cb detail (map (\<lambda>(rc, errno). Sent rc errno) (f # fs) @ [Sent 0 0]) t s w =
      dp_acts zh cb detail (map (\<lambda>(rc, errno). Sent rc errno) fs @ [Sent 0 0]) t1 s1 w1"
    using s(1) f Cons(3) by (simp add: broker_dp_data_client_def)
  show ?case
  proof (cases "r = 0")
    case True
    then have "th_pc t1 = Fetch" using q by simp
    then have "dp_acts zh cb detail (map (\<lambda>(rc, errno). Sent rc errno) (fs @ [(0, 0)])) t1 s1 w1 = Some (t1, s1, w1)" by (rule dp_acts_idle)
    then show ?thesis using s(2) q True step by simp
  next
    case False
    then have "th_pc t1 = Try_sending x bc" "th_pipe t1 = []" using q Cons(3) by simp_all
    from Cons(1) [OF s(2) this] obtain t' s' w' where
      "dp_acts zh cb detail (map (\<lambda>(rc, errno). Sent rc errno) fs @ [Sent 0 0]) t1 s1 w1 = Some (t', s', w')"
      "dp_ok zh cb valid norm rc t' s' w'" "th_pc t' = Fetch" "th_pipe t' = []" "quiet x rc w1 w'" by blast
    then show ?thesis using step quiet_trans q by metis
  qed
qed

section \<open>A round makes it less\<close>

lemma thread_reader:
  assumes "dp_ok zh cb valid norm rc t s w" and "th_pc t = Fetch" and "rclis w rc = Some rcl"
  shows "th_client t = rc" "system zh cb valid norm rc w (Some (sent_table cb (th_bound t) s))" "route_ok zh valid w"
    "rcl_ok (level_clients w) rcl"
proof -
  show c: "th_client t = rc" and sys: "system zh cb valid norm rc w (Some (sent_table cb (th_bound t) s))"
    using assms(1,2) by (simp_all add: dp_ok_def)
  note I = system_okD [OF system_invariant [OF sys]]
  show "route_ok zh valid w" by (rule I(1))
  from I(4) have "rc \<in> set (client_list_head w)" by (auto elim: syncedD)
  then show "rcl_ok (level_clients w) rcl" by (rule registered_ok [OF I(1) _ assms(3)])
qed

lemma dp_round_idle:
  assumes ok: "dp_ok zh cb valid norm rc t s w" and pc: "th_pc t = Fetch" and rcl: "rclis w rc = Some rcl" "first_lag w rcl = - 1"
  shows "dp_acts zh cb detail (dp_round r) t s w = Some (t, s, w)"
proof -
  note T = thread_reader [OF ok pc rcl(1)]
  have "data_available_for_client rc w = Some (- 1)" using data_available_eq [OF T(3,4) rcl(1)] rcl(2) by simp
  then have "broker_dp_data_client zh cb detail (Memory (fst r) []) t s w = Some (t, s, w)"
    using pc T(1) by (simp add: broker_dp_data_client_def dp_fetch_def)
  then show ?thesis using dp_acts_idle [OF pc, of zh cb detail "snd r @ [(0, 0)]"] by (simp add: dp_round_def)
qed

lemma dp_rounds_idle:
  assumes "dp_ok zh cb valid norm rc t s w" and "th_pc t = Fetch" and "rclis w rc = Some rcl" and "first_lag w rcl = - 1"
  shows "dp_acts zh cb detail (concat (map dp_round rs)) t s w = Some (t, s, w)"
  using dp_round_idle [OF assms] by (induction rs) (simp_all add: dp_acts_append)

lemma dp_round_progress:
  assumes ok: "dp_ok zh cb valid norm rc t s w" and pc: "th_pc t = Fetch" "th_pipe t = []"
    and m: "m \<noteq> NULL" "datas w m = None" and rcl: "rclis w rc = Some rcl" "first_lag w rcl \<ge> 0"
  obtains t' s' w' rcl' where "dp_acts zh cb detail (dp_round (m, fs)) t s w = Some (t', s', w')" "dp_ok zh cb valid norm rc t' s' w'"
    "th_pc t' = Fetch" "th_pipe t' = []" "rclis w' rc = Some rcl'" "reads_left w' rcl' < reads_left w rcl" "rib zh w' = rib zh w"
    "\<And>k. k \<noteq> m \<Longrightarrow> datas w k = None \<Longrightarrow> datas w' k = None"
proof -
  note T = thread_reader [OF ok pc(1) rcl(1)]
  have mf: "free_or_null m w" using m by (simp add: free_or_null_def)
  obtain x c w1 where g: "route_broker_client_get_data zh cb rc m [] w = Some (Got x c, w1)"
    using read_total [OF T(3,4) rcl(1) mf rcl(2)] by blast
  note P = read_progress [OF system_invariant [OF T(2)] rcl(1) m g]
  let ?t = "if x \<noteq> NULL then t\<lparr>th_pc := Try_sending x c\<rparr> else restart_or Fetch t"
  have step: "broker_dp_data_client zh cb detail (Memory m []) t s w = Some (?t, s, w1)"
    using g pc(1) T(1) by (simp add: broker_dp_data_client_def dp_fetch_def del: route_broker_client_get_data.simps)
  then have ok1: "dp_ok zh cb valid norm rc ?t s w1" using dp_step_ok [OF ok, of "Memory m []" detail] m by auto
  show thesis
  proof (cases "x = NULL")
    case True
    have f: "th_pc (restart_or Fetch t) = Fetch" "th_pipe (restart_or Fetch t) = []"
      using pc(2) by (simp_all add: restart_or_def client_needs_restart_def)
    have "dp_acts zh cb detail (dp_round (m, fs)) t s w = Some (restart_or Fetch t, s, w1)"
      using step True dp_acts_idle [OF f(1), of zh cb detail "fs @ [(0, 0)]"] by (simp add: dp_round_def)
    then show ?thesis using that ok1 True f P by auto
  next
    case False
    then have ok2: "dp_ok zh cb valid norm rc (t\<lparr>th_pc := Try_sending x c\<rparr>) s w1" using ok1 by simp
    then obtain d where h: "held x d w1" by (auto simp: dp_ok_def)
    from dp_sends [OF ok2, of x c detail fs] pc(2) obtain t' s' w' where
      a: "dp_acts zh cb detail (map (\<lambda>(rc, errno). Sent rc errno) fs @ [Sent 0 0]) (t\<lparr>th_pc := Try_sending x c\<rparr>) s w1 = Some (t', s', w')"
      "dp_ok zh cb valid norm rc t' s' w'" "th_pc t' = Fetch" "th_pipe t' = []" and q: "quiet x rc w1 w'" by auto
    obtain rcl' where r': "rclis w' rc = Some rcl'" "client rcl' = client rcl" using q P(1) by (auto simp: quiet_def)
    have "dp_acts zh cb detail (dp_round (m, fs)) t s w = Some (t', s', w')" using step False a(1) by (simp add: dp_round_def)
    moreover have "reads_left w' rcl' < reads_left w rcl" using P(2) quiet_reads_left [OF q r'(2)] by simp
    moreover have "rib zh w' = rib zh w" using quiet_rib [OF q heldD(3) [OF h]] P(3) by simp
    moreover have "datas w' k = None" if "k \<noteq> m" "datas w k = None" for k
      using P(4) [OF that] q by (cases "k = x") (auto simp: quiet_def)
    ultimately show ?thesis using that [OF _ a(2-4) r'(1)] by blast
  qed
qed

lemma dp_rounds_done:
  assumes "dp_ok zh cb valid norm rc t s w" and "th_pc t = Fetch" and "th_pipe t = []" and "rclis w rc = Some rcl"
    and "reads_left w rcl \<le> length rs" and "distinct (map fst rs)" and "\<And>r. r \<in> set rs \<Longrightarrow> fst r \<noteq> NULL \<and> datas w (fst r) = None"
  shows "\<exists>t' s' w' rcl'. dp_acts zh cb detail (concat (map dp_round rs)) t s w = Some (t', s', w') \<and> dp_ok zh cb valid norm rc t' s' w' \<and>
    th_pc t' = Fetch \<and> rclis w' rc = Some rcl' \<and> first_lag w' rcl' = - 1 \<and> rib zh w' = rib zh w"
  using assms
proof (induction rs arbitrary: t s w rcl)
  case Nil
  then have "behind w rcl = {}" using finite_behind [of w rcl] by (simp add: reads_left_def)
  then show ?case using Nil by (auto simp: behind_first_lag)
next
  case (Cons r rs)
  obtain m fs where r: "r = (m, fs)" by (cases r)
  show ?case
  proof (cases "first_lag w rcl \<ge> 0")
    case True
    have m: "m \<noteq> NULL" "datas w m = None" using Cons(8) [of r] r by simp_all
    obtain t1 s1 w1 rcl1 where p: "dp_acts zh cb detail (dp_round (m, fs)) t s w = Some (t1, s1, w1)" "dp_ok zh cb valid norm rc t1 s1 w1"
      "th_pc t1 = Fetch" "th_pipe t1 = []" "rclis w1 rc = Some rcl1" "reads_left w1 rcl1 < reads_left w rcl" "rib zh w1 = rib zh w"
      "\<And>k. k \<noteq> m \<Longrightarrow> datas w k = None \<Longrightarrow> datas w1 k = None"
      using dp_round_progress [OF Cons(2-4) m Cons(5) True] by blast
    have fresh: "fst q \<noteq> NULL \<and> datas w1 (fst q) = None" if "q \<in> set rs" for q
    proof -
      have "fst q \<noteq> m" using Cons(7) that r by (metis distinct.simps(2) fst_conv image_eqI list.simps(9) set_map)
      then show ?thesis using p(8) [of "fst q"] Cons(8) [of q] that by simp
    qed
    from Cons(1) [OF p(2-5)] p(6) Cons(6,7) fresh
    have "\<exists>t' s' w' rcl'. dp_acts zh cb detail (concat (map dp_round rs)) t1 s1 w1 = Some (t', s', w') \<and> dp_ok zh cb valid norm rc t' s' w' \<and>
      th_pc t' = Fetch \<and> rclis w' rc = Some rcl' \<and> first_lag w' rcl' = - 1 \<and> rib zh w' = rib zh w1" by simp
    then show ?thesis using p(1,7) r by (simp add: dp_acts_append)
  next
    case False
    then have "first_lag w rcl = - 1" by (cases rule: first_lag_cases [of w rcl]) auto
    then show ?thesis using dp_rounds_idle [OF Cons(2,3,5), of detail "r # rs"] Cons(2-5) by auto
  qed
qed

end

text \<open>From any state of a run, rounds that are enough for the queues.\<close>

lemma dp_served:
  assumes "route_callbacks zh cb valid norm" and "dp_run zh cb valid norm rc t s w" and "th_pc t = Fetch" and "th_pipe t = []"
    and "queued_nodes w + ROUTE_PRIORITY_MAX \<le> length rs" and "distinct (map fst rs)"
    and "\<forall>r \<in> set rs. fst r \<noteq> NULL \<and> datas w (fst r) = None"
  shows "\<exists>t' s' w' out. dp_acts zh cb detail (concat (map dp_round rs)) t s w = Some (t', s', w') \<and>
    data_available_for_client rc w' = Some (- 1) \<and> sock_out s' (th_bound t') = Some out \<and> fold (apply_msg cb) out Map.empty = rib zh w"
proof -
  note ok = route_callbacks.dp_run_ok [OF assms(1,2)]
  have sys: "system zh cb valid norm rc w (Some (sent_table cb (th_bound t) s))" using ok assms(3) by (simp add: dp_ok_def)
  from assms(1) sys obtain rcl where r: "rclis w rc = Some rcl" by (rule run_reader)
  note rok = run_facts(1) [OF assms(1) sys]
  have "reads_left w rcl \<le> length rs" using reads_left_bound [OF rok, of rcl] assms(5) by simp
  then obtain t' s' w' rcl' where w': "dp_acts zh cb detail (concat (map dp_round rs)) t s w = Some (t', s', w')"
    "dp_ok zh cb valid norm rc t' s' w'" "th_pc t' = Fetch" "rclis w' rc = Some rcl'" "first_lag w' rcl' = - 1" "rib zh w' = rib zh w"
    using route_callbacks.dp_rounds_done [OF assms(1) ok assms(3,4) r _ assms(6)] assms(7) by blast
  obtain out where out: "sock_out s' (th_bound t') = Some out" using w'(2,3) by (auto simp: dp_ok_def)
  have sys': "system zh cb valid norm rc w' (Some (fold (apply_msg cb) out Map.empty))"
    using w'(2,3) out by (simp add: dp_ok_def sent_table_def)
  from assms(1) sys' obtain q where "rclis w' rc = Some q" "in_sync zh w' q (fold (apply_msg cb) out Map.empty)" "rcl_ok (level_clients w') q"
    by (rule run_reader)
  then have q: "in_sync zh w' rcl' (fold (apply_msg cb) out Map.empty)" "rcl_ok (level_clients w') rcl'" using w'(4) by simp_all
  note rok' = run_facts(1) [OF assms(1) sys']
  show ?thesis using in_sync_done [OF rok' q(2) w'(5) q(1)] data_available_eq [OF rok' q(2) w'(4)] w'(1,5,6) out by auto
qed

section \<open>The property\<close>

text \<open>
  C8. A dataplane is served in the end: from any state of any run in which its thread is about to read,
  as many rounds as there are nodes in the queues, plus one for each priority, are enough, where a round reads once and
  sends until a send succeeds, however many are refused before; no step faults, afterwards nothing
  is available, and what was sent on the socket of the dataplane is the table as it was at the beginning.
\<close>

theorem dataplane_catches_up:
  assumes "route_callbacks zh cb valid norm" and "dp_run zh cb valid norm rc t s w" and "th_pc t = Fetch" and "th_pipe t = []"
    and "queued_nodes w + ROUTE_PRIORITY_MAX \<le> length rs" and "distinct (map fst rs)"
    and "\<forall>r \<in> set rs. fst r \<noteq> NULL \<and> datas w (fst r) = None"
  shows "\<exists>t' s' w' out. dp_acts zh cb detail (concat (map dp_round rs)) t s w = Some (t', s', w') \<and>
    data_available_for_client rc w' = Some (- 1) \<and> sock_out s' (th_bound t') = Some out \<and> fold (apply_msg cb) out Map.empty = rib zh w"
  by (rule dp_served [OF assms])

text \<open>Every send is refused once before it succeeds.\<close>

theorem dataplane_catches_up_witness:
  "\<exists>t' s' w'. dp_acts map_zhash eg_cb True (concat (map dp_round (map (\<lambda>m. (m, [(- 1, EAGAIN)])) [31, 32, 33, 34, 35, 36, 37])))
       (eg_thread Fetch) (eg_socks []) eg_published = Some (t', s', w') \<and> data_available_for_client 10 w' = Some (- 1)"
proof -
  let ?rs = "map (\<lambda>m. (m, [(- 1, EAGAIN)])) [31, 32, 33, 34, 35, 36, 37 :: nat]"
  have "queued_nodes eg_published + ROUTE_PRIORITY_MAX \<le> 7" by code_simp
  moreover have "\<forall>m \<in> set [31, 32, 33, 34, 35, 36, 37]. datas eg_published m = None" by code_simp
  ultimately show ?thesis
    using dataplane_catches_up [OF nl_routes.route_callbacks_axioms eg_dp_published, of ?rs True]
    by (fastforce simp: eg_thread_def simp del: dp_acts.simps)
qed

end
