(* ===== verification/Serving.thy ===== *)
theory Serving
  imports Daemon_Properties Consumer_Liveness
begin

text \<open>
  The daemon and the thread of a dataplane on one broker: what the daemon publishes are steps of the run of
  the thread, as long as no delete overtakes the route it deletes.
\<close>

section \<open>Publishing in order\<close>

text \<open>
  No delete among the messages overtakes the route it deletes, when they are published one after the other.
\<close>

fun in_order :: "'h zhash_ops \<Rightarrow> build \<Rightarrow> mnl_parse \<Rightarrow> (bytes \<times> int) list \<Rightarrow> 'h broker_world \<Rightarrow> bool" where
  "in_order zh b mnl [] bw \<longleftrightarrow> True"
| "in_order zh b mnl ((d, i) # ms) bw \<longleftrightarrow>
     (case topic_of (nl_cbs b mnl) d of None \<Rightarrow> True | Some (t, del) \<Rightarrow> \<not> delete_overtakes zh t del (nat i) (mem bw)) \<and>
     (case publish (broker_host zh b mnl) d i bw of None \<Rightarrow> False | Some bw' \<Rightarrow> in_order zh b mnl ms bw')"

text \<open>It is enough that deletes do not carry the protocol of the kernel.\<close>

lemma in_order_other:
  assumes "zhash zh"
  shows "route_ok zh (nl_valid mnl) (mem bw) \<Longrightarrow> ready (length ms) bw \<Longrightarrow>
    \<forall>(d, i) \<in> set ms. nl_valid mnl d \<and> (\<exists>n. i = int n \<and> n < ROUTE_PRIORITY_MAX) \<Longrightarrow>
    \<forall>(d, i) \<in> set ms. i = ROUTE_OTHER \<or> (\<forall>t. topic_of (nl_cbs b mnl) d \<noteq> Some (t, True)) \<Longrightarrow> in_order zh b mnl ms bw"
proof (induction ms arbitrary: bw)
  case (Cons m ms)
  obtain d n where m: "m = (d, int n)" "nl_valid mnl d" "n < ROUTE_PRIORITY_MAX" using Cons(4) by (cases m) auto
  obtain bw1 where b1: "broker_publish zh b mnl d (int n) bw = Some bw1" "route_ok zh (nl_valid mnl) (mem bw1)" "ready (length ms) bw1"
    using broker_publish_step [OF assms Cons(2) _ m(2,3), of "length ms"] Cons(3) by auto
  have "\<not> delete_overtakes zh t del n (mem bw)" if t: "topic_of (nl_cbs b mnl) d = Some (t, del)" for t del
  proof (cases del)
    case True
    then have "n = 2" using Cons(5) m(1) t by auto
    then show ?thesis using level_of_bound [OF Cons(2), of "hashed zh (mem bw) t"] by (auto simp: delete_overtakes_def)
  qed (simp add: delete_overtakes_def)
  then show ?case using Cons(1) [OF b1(2,3)] Cons(4,5) m(1) b1(1) by (auto simp: broker_host_def split: option.split)
qed simp

text \<open>The thread of a dataplane is in a run while the daemon publishes.\<close>

lemma publish_all_dp_run:
  assumes zh: "zhash zh"
  shows "dp_run zh (nl_cbs b mnl) (nl_valid mnl) nl_norm rc t s (mem bw) \<Longrightarrow> route_ok zh (nl_valid mnl) (mem bw) \<Longrightarrow> ready (length ms) bw \<Longrightarrow>
    \<forall>(d, i) \<in> set ms. nl_valid mnl d \<and> (\<exists>n. i = int n \<and> n < ROUTE_PRIORITY_MAX) \<Longrightarrow> in_order zh b mnl ms bw \<Longrightarrow>
    publish_all (broker_host zh b mnl) ms bw = Some bw' \<Longrightarrow> dp_run zh (nl_cbs b mnl) (nl_valid mnl) nl_norm rc t s (mem bw')"
proof (induction ms arbitrary: bw)
  case (Cons m ms)
  obtain d n where m: "m = (d, int n)" "nl_valid mnl d" "n < ROUTE_PRIORITY_MAX" using Cons(5) by (cases m) auto
  let ?p = "fst (alloc bw (taken bw))" and ?dc = "snd (alloc bw (taken bw))"
  obtain bw1 where b1: "broker_publish zh b mnl d (int n) bw = Some bw1" "route_ok zh (nl_valid mnl) (mem bw1)" "ready (length ms) bw1"
    using broker_publish_step [OF zh Cons(3) _ m(2,3), of "length ms"] Cons(4) by auto
  have f: "fresh_ptrs ?p ?dc (mem bw)" using Cons(4) by (auto simp: ready_def)
  have st: "stamps_left (mem bw)" using ready_stamps Cons(4) by auto
  have pub: "object_broker_publish zh (nl_cbs b mnl) d (int n) ?p ?dc (mem bw) = Some (mem bw1)"
    using b1(1) by (auto simp: broker_publish_def route_broker_publish_def)
  have "env_step zh (nl_cbs b mnl) (nl_valid mnl) nl_norm rc (in_hand t) (mem bw) (mem bw1)"
    using Cons(6) m by (intro env_step.publish [OF f m(3) _ st _ pub]) (auto simp: nl_norm_id [OF m(2)])
  then have "dp_run zh (nl_cbs b mnl) (nl_valid mnl) nl_norm rc t s (mem bw1)" by (rule dp_run.other [OF Cons(2)])
  then show ?case using Cons(1) [OF _ b1(2,3)] Cons(5-7) m(1) b1(1) by (auto simp: broker_host_def)
qed simp

end
