(* ===== verification/Dp_Ctrl.thy ===== *)
theory Dp_Ctrl
  imports Consumers
begin

text \<open>
  The control thread of the dataplanes, \<open>src/broker/route_broker_dp_ctrl.c\<close>. A dataplane sends
  CONNECT with its uuid; the thread starts a data thread for it and answers ACCEPT with the endpoint of
  that thread. KEEPALIVE is answered, by RECONNECT, only when the uuid is not known.

  The libraries are parameters: \<open>zmsg_ops\<close> are the operations of czmq on messages, \<open>actor_ops\<close> those on
  the data threads with the world \<open>'w\<close> these work on, \<open>zhash_ops\<close> and \<open>zhash_first\<close> the hash table, the
  parser of the configuration file is \<open>ini_parse_file\<close>, and \<open>libc\<close> holds \<open>strdup\<close> and \<open>inet_pton\<close>.
\<close>

section \<open>Configuration\<close>

record rib_broker_cfg =
  local_ip :: bytes
  rib_dp_ctrl_url :: "string option"
  rib_dp_data_url :: "string option"

record libc =
  strdup :: "string \<Rightarrow> string option"
  inet_pton :: "string \<Rightarrow> bytes option"

definition copy_str :: "libc \<Rightarrow> string \<Rightarrow> int \<times> string option" where
  "copy_str lc val = (1, strdup lc val)"

text \<open>
  \<open>addr\<close> is passed by value, so \<open>inet_pton(AF_INET, str, &addr)\<close> stores the address in the parameter
  itself and not in what it points to: only the result leaves the function.
\<close>

definition parse_ipaddress :: "libc \<Rightarrow> bytes \<Rightarrow> string \<Rightarrow> int \<times> bytes" where
  "parse_ipaddress lc addr str = ((case inet_pton lc str of None \<Rightarrow> 0 | Some _ \<Rightarrow> 1), addr)"

definition lower :: "char \<Rightarrow> char" where
  "lower c = (if 65 \<le> (of_char c :: nat) \<and> (of_char c :: nat) \<le> 90 then char_of ((of_char c :: nat) + 32) else c)"

definition strcasecmp_eq :: "string \<Rightarrow> string \<Rightarrow> bool" where
  "strcasecmp_eq s t \<longleftrightarrow> map lower s = map lower t"

definition parse_entry ::
  "libc \<Rightarrow> rib_broker_cfg \<Rightarrow> string \<Rightarrow> string \<Rightarrow> string \<Rightarrow> int \<times> rib_broker_cfg" where
  "parse_entry lc cfg sect nm val =
     (if strcasecmp_eq sect ''rib'' then
        if nm = ''ip'' then
          (case parse_ipaddress lc (local_ip cfg) val of (rc, a) \<Rightarrow> (rc, cfg\<lparr>local_ip := a\<rparr>))
        else if nm = ''control'' then
          (case copy_str lc val of (rc, s) \<Rightarrow> (rc, cfg\<lparr>rib_dp_ctrl_url := s\<rparr>))
        else if nm = ''data'' then
          (case copy_str lc val of (rc, s) \<Rightarrow> (rc, cfg\<lparr>rib_dp_data_url := s\<rparr>))
        else (1, cfg)
      else (1, cfg))"

text \<open>\<open>ini_parse_file\<close> calls the handler for each entry of the file; \<open>None\<close> is a file that cannot be opened.\<close>

type_synonym ini_parser =
  "(rib_broker_cfg \<Rightarrow> string \<Rightarrow> string \<Rightarrow> string \<Rightarrow> int \<times> rib_broker_cfg) \<Rightarrow> rib_broker_cfg \<Rightarrow> int \<times> rib_broker_cfg"

definition parse_rib_config ::
  "libc \<Rightarrow> ini_parser option \<Rightarrow> rib_broker_cfg \<Rightarrow> bool \<times> rib_broker_cfg" where
  "parse_rib_config lc f cfg =
     (case f of
        None \<Rightarrow> (False, cfg)
      | Some ini_parse_file \<Rightarrow>
          (case ini_parse_file (parse_entry lc) cfg of (rc, cfg) \<Rightarrow> (rc = 0, cfg)))"

section \<open>Messages\<close>

record 'm zmsg_ops =
  zmsg_pop :: "'m \<Rightarrow> bytes option \<times> 'm"
  zmsg_popstr :: "'m \<Rightarrow> string option \<times> 'm"
  zmsg_unwrap :: "'m \<Rightarrow> bytes option \<times> 'm"
  zmsg_new :: "'m option"
  zmsg_addstr :: "'m \<Rightarrow> string \<Rightarrow> int \<times> 'm"
  zmsg_append :: "'m \<Rightarrow> bytes \<Rightarrow> int \<times> 'm"
  zmsg_prepend :: "'m \<Rightarrow> bytes \<Rightarrow> int \<times> 'm"

text \<open>\<open>None\<close> is \<open>streq\<close> of a null pointer.\<close>

definition process_actor_message :: "'m zmsg_ops \<Rightarrow> 'm option \<Rightarrow> int option" where
  "process_actor_message zm msg =
     (case msg of
        None \<Rightarrow> Some 0
      | Some msg \<Rightarrow> do {
          str \<leftarrow> fst (zmsg_popstr zm msg);
          Some (if str = ''$TERM'' then - 1 else 0)
        })"

text \<open>The bytes of a \<open>uint32_t\<close> in memory; \<open>frame\<close> is whether \<open>zframe_new\<close> succeeds.\<close>

definition u32_bytes :: "u32 \<Rightarrow> bytes" where
  "u32_bytes u = map (\<lambda>i. ucast (drop_bit (8 * i) u)) [0, 1, 2, 3]"

definition zmsg_addu32 :: "'m zmsg_ops \<Rightarrow> bool \<Rightarrow> 'm \<Rightarrow> u32 \<Rightarrow> int \<times> 'm" where
  "zmsg_addu32 zm frame msg u = (if \<not> frame then (- 1, msg) else zmsg_append zm msg (u32_bytes u))"

text \<open>The second component is what is stored in \<open>*p\<close>, if anything is.\<close>

definition zmsg_popu32 :: "'m zmsg_ops \<Rightarrow> 'm \<Rightarrow> int \<times> u32 option \<times> 'm" where
  "zmsg_popu32 zm msg =
     (case zmsg_pop zm msg of
        (None, msg) \<Rightarrow> (- 1, None, msg)
      | (Some f, msg) \<Rightarrow> if length f \<noteq> 4 then (- 1, None, msg) else (0, u32_at f 0, msg))"

datatype rib_broker_dp_request = REQ_ERROR | REQ_CONNECT | REQ_KEEPALIVE

definition broker_dp_ctrl_msg_request :: "string option \<Rightarrow> rib_broker_dp_request" where
  "broker_dp_ctrl_msg_request ty =
     (case ty of
        None \<Rightarrow> REQ_ERROR
      | Some s \<Rightarrow> if s = ''CONNECT'' then REQ_CONNECT else if s = ''KEEPALIVE'' then REQ_KEEPALIVE else REQ_ERROR)"

text \<open>The request, and the string whose address is stored in \<open>*uuid\<close>, if it is.\<close>

definition broker_dp_ctrl_msg_parse :: "'m zmsg_ops \<Rightarrow> 'm \<Rightarrow> rib_broker_dp_request \<times> string option" where
  "broker_dp_ctrl_msg_parse zm msg =
     (case zmsg_popstr zm msg of
        (ty, msg) \<Rightarrow>
          let req = broker_dp_ctrl_msg_request ty in
          if req = REQ_ERROR then (REQ_ERROR, None)
          else (case zmsg_popu32 zm msg of
            (rc, ver, msg) \<Rightarrow>
              if rc < 0 \<or> ver \<noteq> Some 0 then (REQ_ERROR, None)
              else (case fst (zmsg_popstr zm msg) of
                None \<Rightarrow> (REQ_ERROR, None)
              | Some u \<Rightarrow> (req, Some u))))"

section \<open>Sessions\<close>

text \<open>
  \<open>strs\<close> and \<open>frms\<close> are the strings and frames that the thread has not given back. The addresses of
  new ones are answers of the environment, as is everything that can fail.
\<close>

record dp =
  uuid :: ptr
  envelope :: ptr
  ipc :: ptr
  data_url :: ptr

record ('h, 'm, 'w) ctrl =
  dp_uuid_ht :: "'h option"
  dps :: "ptr \<rightharpoonup> dp"
  strs :: "ptr \<rightharpoonup> string"
  frms :: "ptr \<rightharpoonup> bytes"
  replies :: "'m list"
  threads :: 'w

record answers =
  envelope_at :: ptr
  uuid_at :: ptr
  dp_calloc :: ptr
  args_calloc :: bool
  url_at :: ptr
  format_frame :: bool
  send_rc :: int

text \<open>
  The data threads: \<open>zactor_new(broker_dp_data_client, args)\<close> returns once the thread has signalled,
  \<open>actor_recv\<close> is \<open>zstr_recv\<close> on its pipe, \<open>zactor_destroy\<close> sends \<open>$TERM\<close> and waits for its end.
\<close>

record 'w actor_ops =
  zactor_new :: "string option \<Rightarrow> 'w \<Rightarrow> (ptr \<times> 'w) option"
  actor_recv :: "ptr \<Rightarrow> 'w \<Rightarrow> (string option \<times> 'w) option"
  zactor_destroy :: "ptr \<Rightarrow> 'w \<Rightarrow> 'w option"

text \<open>
  A reply is begun. \<open>zmsg_prepend\<close> takes over the frame and sets the pointer to it to null. The result
  is the message or null, the pointer, and the frames.
\<close>

definition broker_dp_ctrl_msg_prepare ::
  "'m zmsg_ops \<Rightarrow> string \<Rightarrow> ptr \<Rightarrow> ptr \<Rightarrow> ('h, 'm, 'w) ctrl \<Rightarrow> ('m option \<times> ptr \<times> ('h, 'm, 'w) ctrl) option" where
  "broker_dp_ctrl_msg_prepare zm reply u env c =
     (case zmsg_new zm of
        None \<Rightarrow> Some (None, env, c)
      | Some m \<Rightarrow>
          (case zmsg_addstr zm m reply of
             (rc, m) \<Rightarrow>
               if rc < 0 then Some (None, env, c)
               else do {
                 s \<leftarrow> strs c u;
                 (case zmsg_addstr zm m s of
                    (rc, m) \<Rightarrow>
                      if rc < 0 then Some (None, env, c)
                      else do {
                        f \<leftarrow> frms c env;
                        (case zmsg_prepend zm m f of
                           (rc, m) \<Rightarrow>
                             let c = c\<lparr>frms := (frms c)(env := None)\<rparr> in
                             Some (if rc < 0 then None else Some m, NULL, c))
                      })
               }))"

definition reply_send :: "int \<Rightarrow> 'm \<Rightarrow> ('h, 'm, 'w) ctrl \<Rightarrow> ('h, 'm, 'w) ctrl" where
  "reply_send rc m c = (if rc = 0 then c\<lparr>replies := replies c @ [m]\<rparr> else c)"

definition broker_dp_ctrl_msg_accept ::
  "'m zmsg_ops \<Rightarrow> answers \<Rightarrow> ptr \<Rightarrow> ptr \<Rightarrow> u32 \<Rightarrow> ('h, 'm, 'w) ctrl \<Rightarrow> (int \<times> ('h, 'm, 'w) ctrl) option" where
  "broker_dp_ctrl_msg_accept zm a p url data_format c = do {
     dp \<leftarrow> dps c p;
     (m, env, c) \<leftarrow> broker_dp_ctrl_msg_prepare zm ''ACCEPT'' (uuid dp) (envelope dp) c;
     let c = c\<lparr>dps := (dps c)(p \<mapsto> dp\<lparr>envelope := env\<rparr>)\<rparr>;
     (case m of
        None \<Rightarrow> Some (- 1, c)
      | Some m \<Rightarrow> do {
          s \<leftarrow> strs c url;
          (case zmsg_addstr zm m s of
             (rc, m) \<Rightarrow>
               if rc < 0 then Some (- 1, c)
               else (case zmsg_addu32 zm (format_frame a) m data_format of
                 (rc, m) \<Rightarrow>
                   if rc < 0 then Some (- 1, c) else Some (send_rc a, reply_send (send_rc a) m c)))
        })
   }"

definition broker_dp_ctrl_msg_reconnect ::
  "'m zmsg_ops \<Rightarrow> answers \<Rightarrow> ptr \<Rightarrow> ptr \<Rightarrow> ('h, 'm, 'w) ctrl \<Rightarrow> (int \<times> ('h, 'm, 'w) ctrl) option" where
  "broker_dp_ctrl_msg_reconnect zm a u env c = do {
     (m, _, c) \<leftarrow> broker_dp_ctrl_msg_prepare zm ''RECONNECT'' u env c;
     (case m of
        None \<Rightarrow> Some (- 1, c)
      | Some m \<Rightarrow> Some (send_rc a, reply_send (send_rc a) m c))
   }"

definition dp_findbyuuid :: "'h zhash_ops \<Rightarrow> ptr \<Rightarrow> ('h, 'm, 'w) ctrl \<Rightarrow> ptr option" where
  "dp_findbyuuid zh u c =
     (if u \<noteq> NULL then do {
        h \<leftarrow> dp_uuid_ht c;
        k \<leftarrow> strs c u;
        Some (zhash_lookup zh h k)
      } else Some NULL)"

definition dp_insert :: "'h zhash_ops \<Rightarrow> ptr \<Rightarrow> ('h, 'm, 'w) ctrl \<Rightarrow> ('h, 'm, 'w) ctrl option" where
  "dp_insert zh p c = do {
     dp \<leftarrow> dps c p;
     h \<leftarrow> dp_uuid_ht c;
     k \<leftarrow> strs c (uuid dp);
     Some (c\<lparr>dp_uuid_ht := Some (zhash_insert zh h k p)\<rparr>)
   }"

text \<open>\<open>free\<close> of a string: nothing to do for null, a fault for an address that is not allocated.\<close>

definition free_str :: "ptr \<Rightarrow> ('h, 'm, 'w) ctrl \<Rightarrow> ('h, 'm, 'w) ctrl option" where
  "free_str p c =
     (if p = NULL then Some c
      else do {
        _ \<leftarrow> strs c p;
        Some (c\<lparr>strs := (strs c)(p := None)\<rparr>)
      })"

definition delete_dp :: "ptr \<Rightarrow> ('h, 'm, 'w) ctrl \<Rightarrow> ('h, 'm, 'w) ctrl option" where
  "delete_dp p c = do {
     dp \<leftarrow> dps c p;
     c \<leftarrow> (if envelope dp \<noteq> NULL then do {
             _ \<leftarrow> frms c (envelope dp);
             Some (c\<lparr>frms := (frms c)(envelope dp := None)\<rparr>)
           } else Some c);
     c \<leftarrow> free_str (uuid dp) c;
     c \<leftarrow> free_str (data_url dp) c;
     Some (c\<lparr>dps := (dps c)(p := None)\<rparr>)
   }"

text \<open>\<open>zactor_destroy\<close> does nothing with a null pointer, and leaves one.\<close>

definition stop_old_dp_thread :: "'w actor_ops \<Rightarrow> ptr \<Rightarrow> ('h, 'm, 'w) ctrl \<Rightarrow> ('h, 'm, 'w) ctrl option" where
  "stop_old_dp_thread ac p c = do {
     dp \<leftarrow> dps c p;
     if ipc dp = NULL then Some c
     else do {
       w \<leftarrow> zactor_destroy ac (ipc dp) (threads c);
       Some (c\<lparr>threads := w, dps := (dps c)(p \<mapsto> dp\<lparr>ipc := NULL\<rparr>)\<rparr>)
     }
   }"

definition close_dp_session :: "'h zhash_ops \<Rightarrow> 'w actor_ops \<Rightarrow> ptr \<Rightarrow> ('h, 'm, 'w) ctrl \<Rightarrow> ('h, 'm, 'w) ctrl option" where
  "close_dp_session zh ac p c = do {
     dp \<leftarrow> dps c p;
     h \<leftarrow> dp_uuid_ht c;
     k \<leftarrow> strs c (uuid dp);
     let c = c\<lparr>dp_uuid_ht := Some (zhash_delete zh h k)\<rparr>;
     c \<leftarrow> stop_old_dp_thread ac p c;
     delete_dp p c
   }"

text \<open>The loop of \<open>close_all_dp_sessions\<close>, and the end of the hash table after it.\<close>

partial_function (option) close_all_loop ::
  "'h zhash_ops \<Rightarrow> ('h \<Rightarrow> ptr) \<Rightarrow> 'w actor_ops \<Rightarrow> ('h, 'm, 'w) ctrl \<Rightarrow> ('h, 'm, 'w) ctrl option" where
  [code]: "close_all_loop zh zhash_first ac c = do {
     h \<leftarrow> dp_uuid_ht c;
     let p = zhash_first h;
     if p \<noteq> NULL then do {
       c \<leftarrow> close_dp_session zh ac p c;
       close_all_loop zh zhash_first ac c
     } else Some c
   }"

definition close_all_dp_sessions ::
  "'h zhash_ops \<Rightarrow> ('h \<Rightarrow> ptr) \<Rightarrow> 'w actor_ops \<Rightarrow> ('h, 'm, 'w) ctrl \<Rightarrow> ('h, 'm, 'w) ctrl option" where
  "close_all_dp_sessions zh zhash_first ac c = do {
     c \<leftarrow> close_all_loop zh zhash_first ac c;
     Some (c\<lparr>dp_uuid_ht := None\<rparr>)
   }"

text \<open>
  The result is the address of the url. With \<open>zactor_new\<close> failed, \<open>zstr_recv\<close> is called on null all
  the same, which is a failed assertion of czmq.
\<close>

definition start_new_dp_data_thread ::
  "'w actor_ops \<Rightarrow> rib_broker_cfg \<Rightarrow> answers \<Rightarrow> ptr \<Rightarrow> ('h, 'm, 'w) ctrl \<Rightarrow> (ptr \<times> ('h, 'm, 'w) ctrl) option" where
  "start_new_dp_data_thread ac cfg a p c =
     (if \<not> args_calloc a then Some (NULL, c)
      else do {
        (t, w) \<leftarrow> zactor_new ac (rib_dp_data_url cfg) (threads c);
        dp \<leftarrow> dps c p;
        let c = c\<lparr>threads := w, dps := (dps c)(p \<mapsto> dp\<lparr>ipc := t\<rparr>)\<rparr>;
        if t = NULL then None
        else do {
          (s, w) \<leftarrow> actor_recv ac t (threads c);
          let c = c\<lparr>threads := w\<rparr>;
          (case s of
             None \<Rightarrow> Some (NULL, c)
           | Some s \<Rightarrow> Some (url_at a, if url_at a = NULL then c else c\<lparr>strs := (strs c)(url_at a \<mapsto> s)\<rparr>))
        }
      })"

definition process_connect_message ::
  "'h zhash_ops \<Rightarrow> 'm zmsg_ops \<Rightarrow> 'w actor_ops \<Rightarrow> rib_broker_cfg \<Rightarrow> answers \<Rightarrow> ptr \<Rightarrow> ptr \<Rightarrow> u32
    \<Rightarrow> ('h, 'm, 'w) ctrl \<Rightarrow> (int \<times> ('h, 'm, 'w) ctrl) option" where
  "process_connect_message zh zm ac cfg a env u data_format c = do {
     p \<leftarrow> dp_findbyuuid zh u c;
     c \<leftarrow> (if p \<noteq> NULL then close_dp_session zh ac p c else Some c);
     let p = dp_calloc a;
     if p = NULL then Some (0, c)
     else do {
       let c = c\<lparr>dps := (dps c)(p \<mapsto> \<lparr>uuid = u, envelope = env, ipc = NULL, data_url = NULL\<rparr>)\<rparr>;
       c \<leftarrow> dp_insert zh p c;
       (url, c) \<leftarrow> start_new_dp_data_thread ac cfg a p c;
       dp \<leftarrow> dps c p;
       let c = c\<lparr>dps := (dps c)(p \<mapsto> dp\<lparr>data_url := url\<rparr>)\<rparr>;
       (_, c) \<leftarrow> broker_dp_ctrl_msg_accept zm a p url data_format c;
       Some (0, c)
     }
   }"

definition process_keepalive_message ::
  "'h zhash_ops \<Rightarrow> 'm zmsg_ops \<Rightarrow> answers \<Rightarrow> ptr \<Rightarrow> ptr \<Rightarrow> ('h, 'm, 'w) ctrl \<Rightarrow> (int \<times> ('h, 'm, 'w) ctrl) option" where
  "process_keepalive_message zh zm a env u c = do {
     p \<leftarrow> dp_findbyuuid zh u c;
     if p \<noteq> NULL then Some (0, c)
     else do {
       (_, c) \<leftarrow> broker_dp_ctrl_msg_reconnect zm a u env c;
       Some (0, c)
     }
   }"

text \<open>
  \<open>msg\<close> is what \<open>zmsg_recv\<close> returns; unwrapping a null message is a failed assertion. The frame of the
  envelope and the string of the uuid are new.
\<close>

definition process_ctrl_message ::
  "'h zhash_ops \<Rightarrow> 'm zmsg_ops \<Rightarrow> 'w actor_ops \<Rightarrow> rib_broker_cfg \<Rightarrow> u32 \<Rightarrow> answers \<Rightarrow> 'm option
    \<Rightarrow> ('h, 'm, 'w) ctrl \<Rightarrow> (int \<times> ('h, 'm, 'w) ctrl) option" where
  "process_ctrl_message zh zm ac cfg data_format a msg c = do {
     m \<leftarrow> msg;
     let (e, m) = zmsg_unwrap zm m;
     let (env, c) = (case e of None \<Rightarrow> (NULL, c) | Some f \<Rightarrow> (envelope_at a, c\<lparr>frms := (frms c)(envelope_at a \<mapsto> f)\<rparr>));
     (case broker_dp_ctrl_msg_parse zm m of
        (REQ_CONNECT, Some s) \<Rightarrow>
          process_connect_message zh zm ac cfg a env (uuid_at a) data_format (c\<lparr>strs := (strs c)(uuid_at a \<mapsto> s)\<rparr>)
      | (REQ_KEEPALIVE, Some s) \<Rightarrow>
          process_keepalive_message zh zm a env (uuid_at a) (c\<lparr>strs := (strs c)(uuid_at a \<mapsto> s)\<rparr>)
      | _ \<Rightarrow> Some (0, c))
   }"

section \<open>The thread\<close>

text \<open>
  \<open>zloop_start\<close> calls the reader of the socket that has a message until a reader returns -1. The list
  is what arrives; the flag is whether the loop has ended.
\<close>

datatype 'm ctrl_event = Pipe "'m option" | Ctrl answers "'m option"

fun ctrl_loop ::
  "'h zhash_ops \<Rightarrow> 'm zmsg_ops \<Rightarrow> 'w actor_ops \<Rightarrow> rib_broker_cfg \<Rightarrow> u32 \<Rightarrow> 'm ctrl_event list \<Rightarrow> ('h, 'm, 'w) ctrl
    \<Rightarrow> (bool \<times> ('h, 'm, 'w) ctrl) option" where
  "ctrl_loop zh zm ac cfg fmt [] c = Some (False, c)"
| "ctrl_loop zh zm ac cfg fmt (Pipe msg # es) c = do {
     rc \<leftarrow> process_actor_message zm msg;
     if rc = - 1 then Some (True, c) else ctrl_loop zh zm ac cfg fmt es c
   }"
| "ctrl_loop zh zm ac cfg fmt (Ctrl a msg # es) c = do {
     (rc, c) \<leftarrow> process_ctrl_message zh zm ac cfg fmt a msg c;
     if rc = - 1 then Some (True, c) else ctrl_loop zh zm ac cfg fmt es c
   }"

text \<open>
  The thread as a whole. The result says where it is: it gave up while it set up its socket, waits for
  messages, or has returned. \<open>zsock_bind\<close> and \<open>strncmp\<close> of a null url are faults.
\<close>

datatype ctrl_end = Gave_up | Waiting | Ended

record ctrl_sock_ops =
  router_new :: bool
  router_bind :: "string \<Rightarrow> int"
  ctrl_chmod :: "string \<Rightarrow> int"

definition broker_dp_ctrl ::
  "'h zhash_ops \<Rightarrow> ('h \<Rightarrow> ptr) \<Rightarrow> 'm zmsg_ops \<Rightarrow> 'w actor_ops \<Rightarrow> ctrl_sock_ops \<Rightarrow> libc \<Rightarrow> ini_parser option
    \<Rightarrow> rib_broker_cfg \<Rightarrow> u32 \<Rightarrow> 'm ctrl_event list \<Rightarrow> ('h, 'm, 'w) ctrl \<Rightarrow> (ctrl_end \<times> ('h, 'm, 'w) ctrl) option" where
  "broker_dp_ctrl zh zhash_first zm ac so lc f cfg fmt es c = do {
     let cfg = snd (parse_rib_config lc f cfg);
     let c = c\<lparr>dp_uuid_ht := zhash_new zh\<rparr>;
     if \<not> router_new so then Some (Gave_up, c)
     else do {
       url \<leftarrow> rib_dp_ctrl_url cfg;
       if router_bind so url < 0 then Some (Gave_up, c)
       else if take 6 url = ''ipc://'' \<and> ctrl_chmod so (drop 6 url) < 0 then Some (Gave_up, c)
       else do {
         (ended, c) \<leftarrow> ctrl_loop zh zm ac cfg fmt es c;
         if \<not> ended then Some (Waiting, c)
         else do {
           c \<leftarrow> close_all_dp_sessions zh zhash_first ac c;
           Some (Ended, c)
         }
       }
     }
   }"

end
