(* ===== verification/Dp_Ctrl_Laws.thy ===== *)
theory Dp_Ctrl_Laws
  imports Dp_Ctrl
begin

text \<open>
  What the control thread relies on, as locales: messages are lists of frames, a hash table can be
  walked, data threads live until they are destroyed. The invariant of the sessions, and what each
  operation on a session does.
\<close>

section \<open>The libraries\<close>

text \<open>A frame as a string ends at the first \<open>NUL\<close>.\<close>

definition frame_str :: "bytes \<Rightarrow> string" where
  "frame_str f = map (\<lambda>b. char_of (unat b)) (takeWhile (\<lambda>b. b \<noteq> 0) f)"

definition str_frame :: "string \<Rightarrow> bytes" where
  "str_frame s = map (\<lambda>c. of_nat (of_char c)) s"

definition unwrapped :: "bytes list \<Rightarrow> bytes list" where
  "unwrapped fs = (case fs of [] # gs \<Rightarrow> gs | _ \<Rightarrow> fs)"

locale zmsg =
  fixes zm :: "'m zmsg_ops" and frames :: "'m \<Rightarrow> bytes list"
  assumes pop_none: "frames m = [] \<Longrightarrow> fst (zmsg_pop zm m) = None"
    and pop_some: "frames m = f # fs \<Longrightarrow> fst (zmsg_pop zm m) = Some f \<and> frames (snd (zmsg_pop zm m)) = fs"
    and popstr_none: "frames m = [] \<Longrightarrow> fst (zmsg_popstr zm m) = None"
    and popstr_some: "frames m = f # fs \<Longrightarrow>
      fst (zmsg_popstr zm m) = Some (frame_str f) \<and> frames (snd (zmsg_popstr zm m)) = fs"
    and unwrap_none: "frames m = [] \<Longrightarrow> fst (zmsg_unwrap zm m) = None \<and> frames (snd (zmsg_unwrap zm m)) = []"
    and unwrap_some: "frames m = f # fs \<Longrightarrow>
      fst (zmsg_unwrap zm m) = Some f \<and> frames (snd (zmsg_unwrap zm m)) = unwrapped fs"
    and new_empty: "zmsg_new zm = Some m \<Longrightarrow> frames m = []"
    and addstr: "0 \<le> fst (zmsg_addstr zm m s) \<Longrightarrow> frames (snd (zmsg_addstr zm m s)) = frames m @ [str_frame s]"
    and append_frame: "0 \<le> fst (zmsg_append zm m f) \<Longrightarrow> frames (snd (zmsg_append zm m f)) = frames m @ [f]"
    and prepend: "0 \<le> fst (zmsg_prepend zm m f) \<Longrightarrow> frames (snd (zmsg_prepend zm m f)) = f # frames m"

locale zhash_walk = zhash zh for zh :: "'h zhash_ops" +
  fixes zfirst :: "'h \<Rightarrow> ptr"
  assumes first_none: "zfirst h = NULL \<Longrightarrow> zhash_lookup zh h k = NULL"
    and first_some: "zfirst h \<noteq> NULL \<Longrightarrow> \<exists>k. zhash_lookup zh h k = zfirst h"

text \<open>
  A thread that was started lives until it is destroyed. In a \<open>able\<close> world a thread can be started and
  tells its endpoint.
\<close>

locale actors =
  fixes ac :: "'w actor_ops" and live :: "'w \<Rightarrow> ptr set" and able :: "'w \<Rightarrow> bool"
  assumes new: "zactor_new ac url w = Some (t, w') \<Longrightarrow> t \<noteq> NULL \<Longrightarrow> t \<notin> live w \<and> live w' = insert t (live w)"
    and recv: "actor_recv ac t w = Some (s, w') \<Longrightarrow> live w' = live w"
    and start: "able w \<Longrightarrow> url \<noteq> None \<Longrightarrow>
      \<exists>t w1 s w2. zactor_new ac url w = Some (t, w1) \<and> t \<noteq> NULL \<and> actor_recv ac t w1 = Some (Some s, w2) \<and> able w2"
    and destroy: "t \<in> live w \<Longrightarrow> \<exists>w'. zactor_destroy ac t w = Some w' \<and> live w' = live w - {t} \<and> (able w \<longrightarrow> able w')"

section \<open>Requests\<close>

datatype dp_request = Connect bytes string | Keepalive bytes string | Garbage

text \<open>The reference reading of a message: envelope, type, version zero, uuid.\<close>

definition request :: "bytes list \<Rightarrow> dp_request" where
  "request fs =
     (case fs of
        env # rest \<Rightarrow>
          (case unwrapped rest of
             ty # ver # u # _ \<Rightarrow>
               if ver \<noteq> [0, 0, 0, 0] then Garbage
               else if frame_str ty = ''CONNECT'' then Connect env (frame_str u)
               else if frame_str ty = ''KEEPALIVE'' then Keepalive env (frame_str u)
               else Garbage
           | _ \<Rightarrow> Garbage)
      | _ \<Rightarrow> Garbage)"

lemma u32_at_4: "length f = 4 \<Longrightarrow> \<exists>a b c d. f = [a, b, c, d] \<and>
    u32_at f 0 = Some (of_nat (unat a + 256 * (unat b + 256 * (unat c + 256 * unat d))))"
  by (cases f; cases "tl f"; cases "tl (tl f)"; cases "tl (tl (tl f))") (auto simp: u32_at_def byte_at_def)

lemma u8_less: "unat (a :: u8) < 256"
  using unsigned_less [of a, where 'a = nat] by simp

lemma u32_zero:
  assumes "length f = 4"
  shows "u32_at f 0 = Some 0 \<longleftrightarrow> f = [0, 0, 0, 0]"
proof -
  obtain a b c d where f: "f = [a, b, c, d]"
    and u: "u32_at f 0 = Some (of_nat (unat a + 256 * (unat b + 256 * (unat c + 256 * unat d))))"
    using u32_at_4 [OF assms] by blast
  let ?n = "unat a + 256 * (unat b + 256 * (unat c + 256 * unat d))"
  have "?n < 2 ^ LENGTH(32)" using u8_less [of a] u8_less [of b] u8_less [of c] u8_less [of d] by simp
  then have "unat (of_nat ?n :: u32) = ?n" unfolding unat_of_nat by (rule mod_less)
  then have "(of_nat ?n :: u32) = 0 \<longleftrightarrow> ?n = 0" by (metis unat_0 unat_eq_zero)
  then show ?thesis using f u by (simp add: unat_eq_0)
qed

context zmsg
begin

lemma popu32_eq:
  "zmsg_popu32 zm m =
     (case frames m of
        [] \<Rightarrow> (- 1, None, snd (zmsg_pop zm m))
      | f # fs \<Rightarrow> if length f \<noteq> 4 then (- 1, None, snd (zmsg_pop zm m)) else (0, u32_at f 0, snd (zmsg_pop zm m)))"
  using pop_none [of m] pop_some [of m]
  by (cases "frames m"; cases "zmsg_pop zm m") (auto simp: zmsg_popu32_def)

lemma parse_eq:
  "broker_dp_ctrl_msg_parse zm m =
     (case frames m of
        ty # ver # u # _ \<Rightarrow>
          if ver \<noteq> [0, 0, 0, 0] then (REQ_ERROR, None)
          else if frame_str ty = ''CONNECT'' then (REQ_CONNECT, Some (frame_str u))
          else if frame_str ty = ''KEEPALIVE'' then (REQ_KEEPALIVE, Some (frame_str u))
          else (REQ_ERROR, None)
      | _ \<Rightarrow> (REQ_ERROR, None))"
proof (cases "frames m")
  case Nil
  then show ?thesis using popstr_none [OF Nil]
    by (cases "zmsg_popstr zm m") (simp add: broker_dp_ctrl_msg_parse_def broker_dp_ctrl_msg_request_def)
next
  case (Cons ty fs)
  obtain m1 where m1: "zmsg_popstr zm m = (Some (frame_str ty), m1)" "frames m1 = fs"
    using popstr_some [OF Cons] by (cases "zmsg_popstr zm m") auto
  show ?thesis
  proof (cases fs)
    case Nil
    then show ?thesis using Cons m1 popu32_eq [of m1]
      by (auto simp: broker_dp_ctrl_msg_parse_def broker_dp_ctrl_msg_request_def)
  next
    case (Cons ver gs)
    obtain m2 where m2: "zmsg_popu32 zm m1 = (if length ver \<noteq> 4 then (- 1, None, m2) else (0, u32_at ver 0, m2))" "frames m2 = gs"
      using popu32_eq [of m1] pop_some [of m1 ver gs] m1(2) Cons by auto
    have ver: "ver = [0, 0, 0, 0] \<longleftrightarrow> length ver = 4 \<and> u32_at ver 0 = Some 0" using u32_zero [of ver] by auto
    have "fst (zmsg_popstr zm m2) = (case gs of [] \<Rightarrow> None | u # _ \<Rightarrow> Some (frame_str u))"
      using popstr_none [of m2] popstr_some [of m2] m2(2) by (cases gs) auto
    then show ?thesis using \<open>frames m = ty # fs\<close> Cons m1(1) m2(1) ver
      by (auto simp: broker_dp_ctrl_msg_parse_def broker_dp_ctrl_msg_request_def Let_def split: list.split)
  qed
qed

end

section \<open>The invariant of the sessions\<close>

text \<open>
  The hash table holds exactly the sessions there are, each under its uuid; every session owns its
  strings, its envelope and its thread; and there are no other threads.
\<close>

definition session_ok :: "('w \<Rightarrow> ptr set) \<Rightarrow> ('h, 'm, 'w) ctrl \<Rightarrow> dp \<Rightarrow> bool" where
  "session_ok live c d \<longleftrightarrow> uuid d \<noteq> NULL \<and> data_url d \<noteq> NULL \<and> uuid d \<noteq> data_url d \<and> strs c (data_url d) \<noteq> None \<and>
     ipc d \<noteq> NULL \<and> ipc d \<in> live (threads c) \<and> (envelope d = NULL \<or> frms c (envelope d) \<noteq> None)"

definition apart :: "dp \<Rightarrow> dp \<Rightarrow> bool" where
  "apart d e \<longleftrightarrow> uuid d \<noteq> uuid e \<and> uuid d \<noteq> data_url e \<and> data_url d \<noteq> uuid e \<and> data_url d \<noteq> data_url e \<and>
     ipc d \<noteq> ipc e \<and> (envelope d = NULL \<or> envelope d \<noteq> envelope e)"

definition table_ok :: "'h zhash_ops \<Rightarrow> ('h, 'm, 'w) ctrl \<Rightarrow> 'h \<Rightarrow> bool" where
  "table_ok zh c h \<longleftrightarrow>
     (\<forall>k. zhash_lookup zh h k \<noteq> NULL \<longrightarrow> (\<exists>d. dps c (zhash_lookup zh h k) = Some d \<and> strs c (uuid d) = Some k)) \<and>
     (\<forall>p d. dps c p = Some d \<longrightarrow> p \<noteq> NULL \<and> (\<exists>k. strs c (uuid d) = Some k \<and> zhash_lookup zh h k = p))"

definition sessions_ok :: "'h zhash_ops \<Rightarrow> ('w \<Rightarrow> ptr set) \<Rightarrow> ('h, 'm, 'w) ctrl \<Rightarrow> bool" where
  "sessions_ok zh live c \<longleftrightarrow>
     (\<exists>h. dp_uuid_ht c = Some h \<and> table_ok zh c h) \<and>
     finite (dom (dps c)) \<and>
     (\<forall>p d. dps c p = Some d \<longrightarrow> session_ok live c d) \<and>
     (\<forall>p q d e. dps c p = Some d \<longrightarrow> dps c q = Some e \<longrightarrow> p \<noteq> q \<longrightarrow> apart d e) \<and>
     live (threads c) = ipc ` ran (dps c)"

text \<open>The abstract state: which thread serves which dataplane.\<close>

definition sessions :: "'h zhash_ops \<Rightarrow> ('h, 'm, 'w) ctrl \<Rightarrow> (string \<rightharpoonup> ptr)" where
  "sessions zh c u =
     (case dp_uuid_ht c of
        None \<Rightarrow> None
      | Some h \<Rightarrow> if zhash_lookup zh h u = NULL then None else map_option ipc (dps c (zhash_lookup zh h u)))"

lemma table_okD:
  assumes "table_ok zh c h"
  shows "zhash_lookup zh h k \<noteq> NULL \<Longrightarrow> \<exists>d. dps c (zhash_lookup zh h k) = Some d \<and> strs c (uuid d) = Some k"
    and "dps c p = Some d \<Longrightarrow> p \<noteq> NULL" and "dps c p = Some d \<Longrightarrow> \<exists>k. strs c (uuid d) = Some k \<and> zhash_lookup zh h k = p"
  using assms by (simp_all add: table_ok_def)

lemma sessions_okD:
  assumes "sessions_ok zh live c"
  shows "\<exists>h. dp_uuid_ht c = Some h \<and> table_ok zh c h" "finite (dom (dps c))" "dps c p = Some d \<Longrightarrow> session_ok live c d"
    "dps c p = Some d \<Longrightarrow> dps c q = Some e \<Longrightarrow> p \<noteq> q \<Longrightarrow> apart d e" "live (threads c) = ipc ` ran (dps c)"
  using assms by (simp_all add: sessions_ok_def)

section \<open>Closing a session\<close>

lemma ran_split:
  assumes "m p = Some d"
  shows "ran m = insert d (ran (m(p := None)))"
  using assms unfolding ran_def by (auto, metis option.inject)

definition closed :: "'h zhash_ops \<Rightarrow> 'h \<Rightarrow> string \<Rightarrow> 'w \<Rightarrow> ptr \<Rightarrow> dp \<Rightarrow> ('h, 'm, 'w) ctrl \<Rightarrow> ('h, 'm, 'w) ctrl" where
  "closed zh h k w p d c = c\<lparr>dp_uuid_ht := Some (zhash_delete zh h k), threads := w,
     frms := (if envelope d \<noteq> NULL then (frms c)(envelope d := None) else frms c),
     strs := (strs c)(uuid d := None, data_url d := None), dps := (dps c)(p := None)\<rparr>"

lemma closed_simps [simp]:
  "dp_uuid_ht (closed zh h k w p d c) = Some (zhash_delete zh h k)" "threads (closed zh h k w p d c) = w"
  "frms (closed zh h k w p d c) = (if envelope d \<noteq> NULL then (frms c)(envelope d := None) else frms c)"
  "strs (closed zh h k w p d c) = (strs c)(uuid d := None, data_url d := None)"
  "dps (closed zh h k w p d c) = (dps c)(p := None)" "replies (closed zh h k w p d c) = replies c"
  by (simp_all add: closed_def)

locale dp_sessions = zhash zh + actors ac live able
  for zh :: "'h zhash_ops" and ac :: "'w actor_ops" and live :: "'w \<Rightarrow> ptr set" and able :: "'w \<Rightarrow> bool"
begin

lemma close_dp_session_eq:
  assumes ok: "sessions_ok zh live c" and d: "dps c p = Some d"
  shows "\<exists>h k w. dp_uuid_ht c = Some h \<and> strs c (uuid d) = Some k \<and> zhash_lookup zh h k = p \<and>
    live w = live (threads c) - {ipc d} \<and> (able (threads c) \<longrightarrow> able w) \<and> close_dp_session zh ac p c = Some (closed zh h k w p d c)"
proof -
  note S = sessions_okD [OF ok]
  obtain h k where h: "dp_uuid_ht c = Some h" "strs c (uuid d) = Some k" "zhash_lookup zh h k = p"
    using S(1) table_okD(3) [OF _ d] by blast
  note s = S(3) [OF d, unfolded session_ok_def]
  obtain w where w: "zactor_destroy ac (ipc d) (threads c) = Some w" "live w = live (threads c) - {ipc d}" "able (threads c) \<longrightarrow> able w"
    using destroy [of "ipc d" "threads c"] s by blast
  have "close_dp_session zh ac p c = Some (closed zh h k w p d c)"
    using d h(1,2) w(1) s
    by (auto simp: close_dp_session_def stop_old_dp_thread_def delete_dp_def free_str_def closed_def)
  then show ?thesis using h w(2,3) by blast
qed

text \<open>The session of a dataplane is filed under no other uuid.\<close>

lemma filed_once:
  assumes t: "table_ok zh c h" and d: "dps c p = Some d" and k: "strs c (uuid d) = Some k"
  shows "zhash_lookup zh h j = p \<longleftrightarrow> j = k"
proof
  assume "zhash_lookup zh h j = p"
  then show "j = k" using table_okD(1) [OF t, of j] table_okD(2) [OF t d] d k by auto
next
  assume "j = k"
  then show "zhash_lookup zh h j = p" using table_okD(3) [OF t d] k by auto
qed

lemma closed_table_ok:
  assumes t: "table_ok zh c h" and d: "dps c p = Some d" and k: "strs c (uuid d) = Some k"
    and ap: "\<And>q e. dps c q = Some e \<Longrightarrow> q \<noteq> p \<Longrightarrow> apart d e"
  shows "table_ok zh (closed zh h k w p d c) (zhash_delete zh h k)" (is "table_ok zh ?c _")
  unfolding table_ok_def
proof (intro conjI allI impI)
  note once = filed_once [OF t d k]
  show "\<exists>e. dps ?c (zhash_lookup zh (zhash_delete zh h k) j) = Some e \<and> strs ?c (uuid e) = Some j"
    if "zhash_lookup zh (zhash_delete zh h k) j \<noteq> NULL" for j
  proof -
    have j: "j \<noteq> k" "zhash_lookup zh h j \<noteq> NULL" using that by (auto simp: lookup_delete split: if_splits)
    obtain e where e: "dps c (zhash_lookup zh h j) = Some e" "strs c (uuid e) = Some j" using table_okD(1) [OF t j(2)] by blast
    then show ?thesis using ap [OF e(1)] once j(1) by (auto simp: lookup_delete apart_def)
  qed
  show "q \<noteq> NULL" if "dps ?c q = Some e" for q e using table_okD(2) [OF t, of q e] that by (auto split: if_splits)
  show "\<exists>j. strs ?c (uuid e) = Some j \<and> zhash_lookup zh (zhash_delete zh h k) j = q" if "dps ?c q = Some e" for q e
  proof -
    have q: "q \<noteq> p" "dps c q = Some e" using that by (auto split: if_splits)
    obtain j where "strs c (uuid e) = Some j" "zhash_lookup zh h j = q" using table_okD(3) [OF t q(2)] by blast
    then show ?thesis using ap [OF q(2,1)] q(1) once by (auto simp: lookup_delete apart_def)
  qed
qed

lemma closed_ok:
  assumes ok: "sessions_ok zh live c" and d: "dps c p = Some d" and h: "dp_uuid_ht c = Some h" and k: "strs c (uuid d) = Some k"
    and w: "live w = live (threads c) - {ipc d}"
  shows "sessions_ok zh live (closed zh h k w p d c)" (is "sessions_ok zh live ?c")
    and "sessions zh (closed zh h k w p d c) = (sessions zh c)(k := None)"
proof -
  note S = sessions_okD [OF ok]
  have t: "table_ok zh c h" using S(1) h by auto
  have ap: "apart d e" if "dps c q = Some e" "q \<noteq> p" for q e using S(4) [OF d that(1)] that(2) by auto
  have "session_ok live ?c e" if "dps ?c q = Some e" for q e
  proof -
    have q: "q \<noteq> p" "dps c q = Some e" using that by (auto split: if_splits)
    show ?thesis using S(3) [OF q(2)] ap [OF q(2,1)] w
      by (simp add: session_ok_def apart_def fun_upd_def) (metis option.distinct(1))
  qed
  moreover have "ipc e \<noteq> ipc d" if e: "e \<in> ran ((dps c)(p := None))" for e
  proof -
    obtain q where "dps c q = Some e" "q \<noteq> p" using e by (auto simp: ran_def split: if_splits)
    then show ?thesis using ap by (metis apart_def)
  qed
  then have "live w = ipc ` ran ((dps c)(p := None))" using w S(5) ran_split [of "dps c", OF d] by auto
  ultimately show "sessions_ok zh live ?c"
    using closed_table_ok [where w = w, OF t d k ap] S(2,4) unfolding sessions_ok_def by (auto split: if_splits)
  show "sessions zh ?c = (sessions zh c)(k := None)"
    using h filed_once [OF t d k] by (auto simp: sessions_def lookup_delete fun_eq_iff)
qed

lemma close_session:
  assumes "sessions_ok zh live c" and "dps c p = Some d"
  shows "\<exists>c' k. close_dp_session zh ac p c = Some c' \<and> sessions_ok zh live c' \<and> strs c (uuid d) = Some k \<and>
    (able (threads c) \<longrightarrow> able (threads c')) \<and> sessions zh c' = (sessions zh c)(k := None) \<and> dps c' = (dps c)(p := None) \<and> replies c' = replies c \<and>
    strs c' = (strs c)(uuid d := None, data_url d := None) \<and>
    frms c' = (if envelope d \<noteq> NULL then (frms c)(envelope d := None) else frms c)"
proof -
  obtain h k w where x: "dp_uuid_ht c = Some h" "strs c (uuid d) = Some k" "live w = live (threads c) - {ipc d}"
    "able (threads c) \<longrightarrow> able w" "close_dp_session zh ac p c = Some (closed zh h k w p d c)" using close_dp_session_eq [OF assms] by blast
  show ?thesis using x(2,4,5) closed_ok [OF assms x(1,2,3)] by simp
qed

end

section \<open>Closing them all\<close>

text \<open>The strings and the frames that belong to sessions.\<close>

definition session_strs :: "('h, 'm, 'w) ctrl \<Rightarrow> ptr set" where
  "session_strs c = (\<Union>d \<in> ran (dps c). {uuid d, data_url d})"

definition session_frms :: "('h, 'm, 'w) ctrl \<Rightarrow> ptr set" where
  "session_frms c = envelope ` ran (dps c) - {NULL}"

locale dp_walk = dp_sessions zh ac live able + zhash_walk zh zfirst
  for zh :: "'h zhash_ops" and ac :: "'w actor_ops" and live :: "'w \<Rightarrow> ptr set" and able :: "'w \<Rightarrow> bool" and zfirst :: "'h \<Rightarrow> ptr"
begin

lemma close_all_loop_ends:
  assumes "sessions_ok zh live c"
  shows "\<exists>c'. close_all_loop zh zfirst ac c = Some c' \<and> sessions_ok zh live c' \<and> dps c' = Map.empty \<and> replies c' = replies c \<and>
    strs c' = strs c |` (- session_strs c) \<and> frms c' = frms c |` (- session_frms c)"
  using assms
proof (induction "card (dom (dps c))" arbitrary: c rule: less_induct)
  case less
  note S = sessions_okD [OF less(2)]
  obtain h where h: "dp_uuid_ht c = Some h" "table_ok zh c h" using S(1) by blast
  show ?case
  proof (cases "zfirst h = NULL")
    case True
    have e: "dps c = Map.empty"
    proof (rule ext)
      show "dps c p = None" for p
        using first_none [OF True] table_okD(2,3) [OF h(2), of p] by (cases "dps c p") fastforce+
    qed
    then show ?thesis using True h(1) less(2)
      by (subst close_all_loop.simps) (simp add: session_strs_def session_frms_def restrict_map_def)
  next
    case False
    then obtain d where d: "dps c (zfirst h) = Some d" using first_some table_okD(1) [OF h(2)] by metis
    obtain c1 k where c1: "close_dp_session zh ac (zfirst h) c = Some c1" "sessions_ok zh live c1" "dps c1 = (dps c)(zfirst h := None)"
      "replies c1 = replies c" "strs c1 = (strs c)(uuid d := None, data_url d := None)"
      "frms c1 = (if envelope d \<noteq> NULL then (frms c)(envelope d := None) else frms c)"
      using close_session [OF less(2) d] by blast
    have "card (dom (dps c1)) < card (dom (dps c))"
      using card_Diff1_less [OF S(2) domI [of "dps c", OF d]] c1(3) by (simp only: dom_fun_upd simp_thms if_True)
    from less(1) [OF this c1(2)] obtain c' where c': "close_all_loop zh zfirst ac c1 = Some c'" "sessions_ok zh live c'"
      "dps c' = Map.empty" "replies c' = replies c1" "strs c' = strs c1 |` (- session_strs c1)" "frms c' = frms c1 |` (- session_frms c1)"
      by blast
    note r = ran_split [of "dps c", OF d, folded c1(3)]
    have "strs c' = strs c |` (- session_strs c)"
      unfolding c'(5) c1(5) session_strs_def r by (auto simp: restrict_map_def fun_eq_iff)
    moreover have "frms c' = frms c |` (- session_frms c)"
      unfolding c'(6) c1(6) session_frms_def r by (auto simp: restrict_map_def fun_eq_iff)
    moreover have "close_all_loop zh zfirst ac c = Some c'"
      using False h(1) c1(1) c'(1) by (subst close_all_loop.simps) simp
    ultimately show ?thesis using c'(2,3,4) c1(4) by simp
  qed
qed

end

end
