(* ===== verification/Dp_Ctrl_Runs.thy ===== *)
theory Dp_Ctrl_Runs
  imports Dp_Ctrl_Laws
begin

text \<open>
  The control protocol: what the thread does with one message, and with all messages of a run, against
  the specification of a table that says which thread serves which dataplane.
\<close>

section \<open>Replies\<close>

definition reliable :: "'m zmsg_ops \<Rightarrow> bool" where
  "reliable zm \<longleftrightarrow> zmsg_new zm \<noteq> None \<and> (\<forall>m s. 0 \<le> fst (zmsg_addstr zm m s)) \<and>
     (\<forall>m f. 0 \<le> fst (zmsg_append zm m f)) \<and> (\<forall>m f. 0 \<le> fst (zmsg_prepend zm m f))"

definition accept_reply :: "bytes \<Rightarrow> string \<Rightarrow> string \<Rightarrow> u32 \<Rightarrow> bytes list" where
  "accept_reply env u url fmt = [env, str_frame ''ACCEPT'', str_frame u, str_frame url, u32_bytes fmt]"

definition reconnect_reply :: "bytes \<Rightarrow> string \<Rightarrow> bytes list" where
  "reconnect_reply env u = [env, str_frame ''RECONNECT'', str_frame u]"

context zmsg
begin

lemma prepare_eq:
  assumes "strs c u = Some s" and "frms c env = Some f"
  shows "\<exists>m taken. broker_dp_ctrl_msg_prepare zm reply u env c =
      Some (m, if taken then (NULL, c\<lparr>frms := (frms c)(env := None)\<rparr>) else (env, c)) \<and>
    (\<forall>m'. m = Some m' \<longrightarrow> taken \<and> frames m' = [f, str_frame reply, str_frame s]) \<and> (reliable zm \<longrightarrow> m \<noteq> None)"
proof (cases "zmsg_new zm")
  case None
  then show ?thesis by (intro exI [of _ None] exI [of _ False]) (simp add: broker_dp_ctrl_msg_prepare_def reliable_def)
next
  case (Some m0)
  obtain r1 m1 where a1: "zmsg_addstr zm m0 reply = (r1, m1)" by fastforce
  obtain r2 m2 where a2: "zmsg_addstr zm m1 s = (r2, m2)" by fastforce
  obtain r3 m3 where a3: "zmsg_prepend zm m2 f = (r3, m3)" by fastforce
  have fr: "0 \<le> r1 \<Longrightarrow> 0 \<le> r2 \<Longrightarrow> 0 \<le> r3 \<Longrightarrow> frames m3 = [f, str_frame reply, str_frame s]"
    using new_empty [OF Some] addstr [of m0 reply] addstr [of m1 s] prepend [of m2 f] a1 a2 a3 by simp
  have rel: "reliable zm \<Longrightarrow> 0 \<le> r1 \<and> 0 \<le> r2 \<and> 0 \<le> r3"
    using a1 a2 a3 by (metis fst_conv reliable_def)
  let ?p = "broker_dp_ctrl_msg_prepare zm reply u env c"
  consider (short) "r1 < 0 \<or> r2 < 0" | (lost) "0 \<le> r1" "0 \<le> r2" "r3 < 0" | (sent) "0 \<le> r1" "0 \<le> r2" "0 \<le> r3" by linarith
  then show ?thesis
  proof cases
    case short
    then have "?p = Some (None, env, c)" using Some a1 a2 assms by (auto simp: broker_dp_ctrl_msg_prepare_def)
    then show ?thesis using short rel by (intro exI [of _ None] exI [of _ False]) auto
  next
    case lost
    then have "?p = Some (None, NULL, c\<lparr>frms := (frms c)(env := None)\<rparr>)"
      using Some a1 a2 a3 assms by (auto simp: broker_dp_ctrl_msg_prepare_def)
    then show ?thesis using lost rel by (intro exI [of _ None] exI [of _ True]) auto
  next
    case sent
    then have "?p = Some (Some m3, NULL, c\<lparr>frms := (frms c)(env := None)\<rparr>)"
      using Some a1 a2 a3 assms by (auto simp: broker_dp_ctrl_msg_prepare_def)
    then show ?thesis using fr [OF sent] by (intro exI [of _ "Some m3"] exI [of _ True]) auto
  qed
qed

lemma reconnect_eq:
  assumes "strs c u = Some s" and "frms c env = Some f"
  shows "\<exists>rc out fs. broker_dp_ctrl_msg_reconnect zm a u env c = Some (rc, c\<lparr>frms := fs, replies := replies c @ out\<rparr>) \<and>
    (fs = frms c \<or> fs = (frms c)(env := None)) \<and> (out = [] \<or> map frames out = [reconnect_reply f s]) \<and>
    (reliable zm \<longrightarrow> send_rc a = 0 \<longrightarrow> out \<noteq> [])"
proof -
  obtain m taken where p: "broker_dp_ctrl_msg_prepare zm ''RECONNECT'' u env c =
      Some (m, if taken then (NULL, c\<lparr>frms := (frms c)(env := None)\<rparr>) else (env, c))"
    "\<And>m'. m = Some m' \<Longrightarrow> taken \<and> frames m' = [f, str_frame ''RECONNECT'', str_frame s]" "reliable zm \<Longrightarrow> m \<noteq> None"
    using prepare_eq [OF assms] by blast
  show ?thesis
  proof (cases m)
    case None
    then show ?thesis using p(1,3)
      by (intro exI [of _ "- 1"] exI [of _ "[]"] exI [of _ "if taken then (frms c)(env := None) else frms c"])
        (auto simp: broker_dp_ctrl_msg_reconnect_def)
  next
    case (Some m')
    let ?out = "if send_rc a = 0 then [m'] else []"
    have "broker_dp_ctrl_msg_reconnect zm a u env c = Some (send_rc a, c\<lparr>frms := (frms c)(env := None), replies := replies c @ ?out\<rparr>)"
      using p(1) p(2) [OF Some] Some by (simp add: broker_dp_ctrl_msg_reconnect_def reply_send_def)
    then show ?thesis using p(2) [OF Some]
      by (intro exI [of _ "send_rc a"] exI [of _ ?out] exI [of _ "(frms c)(env := None)"]) (simp add: reconnect_reply_def)
  qed
qed

lemma accept_eq:
  assumes d: "dps c p = Some d" and s: "strs c (uuid d) = Some s" "strs c url = Some t" and f: "frms c (envelope d) = Some f"
  shows "\<exists>rc out taken. broker_dp_ctrl_msg_accept zm a p url fmt c =
      Some (rc, c\<lparr>dps := (dps c)(p \<mapsto> if taken then d\<lparr>envelope := NULL\<rparr> else d),
        frms := (if taken then (frms c)(envelope d := None) else frms c), replies := replies c @ out\<rparr>) \<and>
    (out = [] \<or> map frames out = [accept_reply f s t fmt]) \<and>
    (reliable zm \<longrightarrow> format_frame a \<longrightarrow> send_rc a = 0 \<longrightarrow> out \<noteq> [])"
proof -
  obtain m taken where p: "broker_dp_ctrl_msg_prepare zm ''ACCEPT'' (uuid d) (envelope d) c =
      Some (m, if taken then (NULL, c\<lparr>frms := (frms c)(envelope d := None)\<rparr>) else (envelope d, c))"
    "\<And>m'. m = Some m' \<Longrightarrow> taken \<and> frames m' = [f, str_frame ''ACCEPT'', str_frame s]" "reliable zm \<Longrightarrow> m \<noteq> None"
    using prepare_eq [OF s(1) f] by blast
  let ?c = "\<lambda>taken out. c\<lparr>dps := (dps c)(p \<mapsto> if taken then d\<lparr>envelope := NULL\<rparr> else d),
        frms := (if taken then (frms c)(envelope d := None) else frms c), replies := replies c @ out\<rparr>"
  show ?thesis
  proof (cases m)
    case None
    then have "broker_dp_ctrl_msg_accept zm a p url fmt c = Some (- 1, ?c taken [])"
      using p(1) d by (simp add: broker_dp_ctrl_msg_accept_def)
    then show ?thesis using None p(3) by (intro exI [of _ "- 1"] exI [of _ "[]"] exI [of _ taken]) auto
  next
    case (Some m0)
    obtain r1 m1 where a1: "zmsg_addstr zm m0 t = (r1, m1)" by fastforce
    obtain r2 m2 where a2: "zmsg_addu32 zm (format_frame a) m1 fmt = (r2, m2)" by fastforce
    have fr: "frames m2 = accept_reply f s t fmt" if "0 \<le> r1" "0 \<le> r2"
    proof -
      have "frames m1 = [f, str_frame ''ACCEPT'', str_frame s, str_frame t]" using addstr [of m0 t] a1 that(1) p(2) [OF Some] by simp
      then show ?thesis
        using append_frame [of m1 "u32_bytes fmt"] a2 that(2) by (auto simp: accept_reply_def zmsg_addu32_def split: if_splits)
    qed
    have rel: "reliable zm \<Longrightarrow> format_frame a \<Longrightarrow> 0 \<le> r1 \<and> 0 \<le> r2"
      using a1 a2 by (metis fst_conv reliable_def zmsg_addu32_def)
    let ?out = "if 0 \<le> r1 \<and> 0 \<le> r2 \<and> send_rc a = 0 then [m2] else []"
    have "\<exists>rc. broker_dp_ctrl_msg_accept zm a p url fmt c = Some (rc, ?c True ?out)"
      using p(1) p(2) [OF Some] Some d s(2) a1 a2
      by (auto simp: broker_dp_ctrl_msg_accept_def reply_send_def Let_def)
    then obtain rc where "broker_dp_ctrl_msg_accept zm a p url fmt c = Some (rc, ?c True ?out)" ..
    then show ?thesis using fr rel by (intro exI [of _ rc] exI [of _ ?out] exI [of _ True]) auto
  qed
qed

end

section \<open>Opening a session\<close>

definition opened ::
  "'h zhash_ops \<Rightarrow> 'h \<Rightarrow> string \<Rightarrow> 'w \<Rightarrow> string \<Rightarrow> ptr \<Rightarrow> dp \<Rightarrow> (ptr \<rightharpoonup> bytes) \<Rightarrow> ('h, 'm, 'w) ctrl \<Rightarrow> ('h, 'm, 'w) ctrl" where
  "opened zh h k w url p d fs c = c\<lparr>dp_uuid_ht := Some (zhash_insert zh h k p), threads := w,
     strs := (strs c)(data_url d \<mapsto> url), dps := (dps c)(p \<mapsto> d), frms := fs\<rparr>"

lemma opened_simps [simp]:
  "dp_uuid_ht (opened zh h k w url p d fs c) = Some (zhash_insert zh h k p)" "threads (opened zh h k w url p d fs c) = w"
  "strs (opened zh h k w url p d fs c) = (strs c)(data_url d \<mapsto> url)" "dps (opened zh h k w url p d fs c) = (dps c)(p \<mapsto> d)"
  "frms (opened zh h k w url p d fs c) = fs" "replies (opened zh h k w url p d fs c) = replies c"
  by (simp_all add: opened_def)

text \<open>
  What the allocator may return for a new session of the dataplane \<open>k\<close>: memory that is free, or that
  the old session of this dataplane is about to give back.
\<close>

definition room :: "string \<Rightarrow> answers \<Rightarrow> ('h, 'm, 'w) ctrl \<Rightarrow> bool" where
  "room k a c \<longleftrightarrow> (\<forall>d. dps c (dp_calloc a) = Some d \<longrightarrow> strs c (uuid d) = Some k) \<and>
     (strs c (url_at a) \<noteq> None \<longrightarrow> (\<exists>d \<in> ran (dps c). strs c (uuid d) = Some k \<and> url_at a \<in> {uuid d, data_url d}))"

definition close_old :: "'h zhash_ops \<Rightarrow> ('w \<Rightarrow> ptr set) \<Rightarrow> ('w \<Rightarrow> bool) \<Rightarrow> string \<Rightarrow> ptr \<Rightarrow> ptr \<Rightarrow> answers \<Rightarrow> ('h, 'm, 'w) ctrl \<Rightarrow> ('h, 'm, 'w) ctrl \<Rightarrow> bool" where
  "close_old zh live able k u env a c c1 \<longleftrightarrow> sessions_ok zh live c1 \<and> sessions zh c1 = (sessions zh c)(k := None) \<and> replies c1 = replies c \<and>
     strs c1 u = strs c u \<and> u \<notin> session_strs c1 \<and> frms c1 env = frms c env \<and> env \<notin> session_frms c1 \<and>
     dps c1 (dp_calloc a) = None \<and> strs c1 (url_at a) = None \<and> (able (threads c) \<longrightarrow> able (threads c1))"

lemma room_keep:
  assumes "room k a c" and "url_at a \<noteq> u" and "u \<notin> session_strs c"
  shows "room k a (c\<lparr>frms := fs, strs := (strs c)(u \<mapsto> k)\<rparr>)"
proof -
  have "uuid d \<noteq> u" if "d \<in> ran (dps c)" for d using that assms(3) by (auto simp: session_strs_def)
  then show ?thesis using assms(1,2) ranI [of "dps c"] unfolding room_def by fastforce
qed

context dp_sessions
begin

lemma opened_table_ok:
  assumes tab: "table_ok zh c h" and h: "zhash_lookup zh h k = NULL" and p: "p \<noteq> NULL" "dps c p = None"
    and u: "strs c (uuid d) = Some k" and q: "strs c (data_url d) = None"
  shows "table_ok zh (opened zh h k w url p d fs c) (zhash_insert zh h k p)" (is "table_ok zh ?c _")
  unfolding table_ok_def
proof (intro conjI allI impI)
  note look = lookup_insert [OF p(1), of h k]
  show "\<exists>e. dps ?c (zhash_lookup zh (zhash_insert zh h k p) j) = Some e \<and> strs ?c (uuid e) = Some j"
    if "zhash_lookup zh (zhash_insert zh h k p) j \<noteq> NULL" for j
  proof (cases "j = k")
    case True
    then show ?thesis using u q h by (auto simp: look)
  next
    case False
    then have j: "zhash_lookup zh h j \<noteq> NULL" "zhash_lookup zh (zhash_insert zh h k p) j = zhash_lookup zh h j"
      using that by (auto simp: look)
    obtain e where e: "dps c (zhash_lookup zh h j) = Some e" "strs c (uuid e) = Some j" using table_okD(1) [OF tab j(1)] by blast
    then have "zhash_lookup zh h j \<noteq> p" "uuid e \<noteq> data_url d" using p(2) q by auto
    then show ?thesis using e j(2) by simp
  qed
  show "r \<noteq> NULL" if "dps ?c r = Some e" for r e using table_okD(2) [OF tab, of r e] that p(1) by (auto split: if_splits)
  show "\<exists>j. strs ?c (uuid e) = Some j \<and> zhash_lookup zh (zhash_insert zh h k p) j = r" if "dps ?c r = Some e" for r e
  proof (cases "r = p")
    case True
    then show ?thesis using that u q h by (auto simp: look)
  next
    case False
    then have r: "dps c r = Some e" using that by simp
    obtain j where j: "strs c (uuid e) = Some j" "zhash_lookup zh h j = r" using table_okD(3) [OF tab r] by blast
    moreover have "j \<noteq> k" using j(2) h table_okD(2) [OF tab r] by auto
    ultimately show ?thesis using q by (auto simp: look)
  qed
qed

lemma opened_ok:
  assumes ok: "sessions_ok zh live c" and h: "dp_uuid_ht c = Some h" "zhash_lookup zh h k = NULL"
    and p: "p \<noteq> NULL" "dps c p = None"
    and u: "uuid d \<noteq> NULL" "strs c (uuid d) = Some k" "uuid d \<notin> session_strs c"
    and q: "data_url d \<noteq> NULL" "strs c (data_url d) = None"
    and t: "ipc d \<noteq> NULL" "ipc d \<notin> live (threads c)" "live w = insert (ipc d) (live (threads c))"
    and env: "envelope d \<notin> session_frms c" "envelope d \<noteq> NULL \<Longrightarrow> fs (envelope d) \<noteq> None"
    and fs: "\<And>e. e \<in> session_frms c \<Longrightarrow> fs e = frms c e"
  shows "sessions_ok zh live (opened zh h k w url p d fs c)" (is "sessions_ok zh live ?c")
    and "sessions zh (opened zh h k w url p d fs c) = (sessions zh c)(k \<mapsto> ipc d)"
proof -
  note S = sessions_okD [OF ok]
  have tab: "table_ok zh c h" using S(1) h by auto
  have own: "uuid e \<in> session_strs c" "data_url e \<in> session_strs c" "envelope e = NULL \<or> envelope e \<in> session_frms c"
      "ipc e \<in> live (threads c)" "strs c (uuid e) \<noteq> None" "strs c (data_url e) \<noteq> None" if "dps c r = Some e" for r e
    using that S(3) [OF that] S(5) table_okD(3) [OF tab that] by (auto simp: session_strs_def session_frms_def session_ok_def ranI)
  have new: "apart d e" "apart e d" if "dps c r = Some e" for r e
    using own [OF that] u(2,3) q(2) t(2) env(1) by (auto simp: apart_def)
  have "session_ok live ?c e" if "dps ?c r = Some e" for r e
  proof (cases "r = p")
    case True
    then have "e = d" using that by simp
    then show ?thesis using u q t env(2) by (auto simp: session_ok_def)
  next
    case False
    then have r: "dps c r = Some e" using that by simp
    show ?thesis using S(3) [OF r] own(3) [OF r] fs [of "envelope e"] t(3) by (auto simp: session_ok_def)
  qed
  moreover have "apart e e'" if "dps ?c r = Some e" "dps ?c r' = Some e'" "r \<noteq> r'" for r r' e e'
    using that S(4) [of r e r' e'] new by (auto split: if_splits)
  moreover have "live w = ipc ` ran ((dps c)(p \<mapsto> d))"
    using t(3) S(5) p(2) by simp
  ultimately show "sessions_ok zh live ?c"
    using opened_table_ok [OF tab h(2) p u(2) q(2), of w url fs] S(2) unfolding sessions_ok_def by simp
  have "zhash_lookup zh h j \<noteq> p" for j using table_okD(1) [OF tab, of j] p by auto
  then show "sessions zh ?c = (sessions zh c)(k \<mapsto> ipc d)"
    using h p(1) by (auto simp: sessions_def fun_eq_iff lookup_insert [OF p(1)])
qed

lemma sessions_live:
  assumes "sessions_ok zh live c"
  shows "ran (sessions zh c) = live (threads c)"
proof -
  note S = sessions_okD [OF assms]
  obtain h where h: "dp_uuid_ht c = Some h" "table_ok zh c h" using S(1) by blast
  have "t \<in> live (threads c)" if "sessions zh c k = Some t" for k t
    using that h(1) S(5) by (auto simp: sessions_def ranI split: if_splits)
  moreover have "\<exists>k. sessions zh c k = Some (ipc d)" if "dps c p = Some d" for p d
    using table_okD(2,3) [OF h(2) that] h(1) that by (auto simp: sessions_def)
  ultimately show ?thesis unfolding S(5) by (auto simp: ran_def)
qed

lemma sessions_inj:
  assumes "sessions_ok zh live c"
  shows "inj_on (sessions zh c) (dom (sessions zh c))"
proof (rule inj_onI)
  fix j k assume jk: "j \<in> dom (sessions zh c)" "k \<in> dom (sessions zh c)" "sessions zh c j = sessions zh c k"
  obtain h where h: "dp_uuid_ht c = Some h" "table_ok zh c h" using sessions_okD(1) [OF assms] by blast
  have ne: "zhash_lookup zh h j \<noteq> NULL" "zhash_lookup zh h k \<noteq> NULL" using jk(1,2) h(1) by (auto simp: sessions_def split: if_splits)
  obtain d e where d: "dps c (zhash_lookup zh h j) = Some d" "strs c (uuid d) = Some j"
    and e: "dps c (zhash_lookup zh h k) = Some e" "strs c (uuid e) = Some k"
    using table_okD(1) [OF h(2) ne(1)] table_okD(1) [OF h(2) ne(2)] by blast
  have "ipc d = ipc e" using jk(3) h(1) ne d(1) e(1) by (simp add: sessions_def)
  then have "zhash_lookup zh h j = zhash_lookup zh h k" using sessions_okD(4) [OF assms d(1) e(1)] by (auto simp: apart_def)
  then show "j = k" using d e by simp
qed

lemma sessions_at:
  assumes "sessions_ok zh live c" and "dp_uuid_ht c = Some h"
  shows "sessions zh c k = None \<longleftrightarrow> zhash_lookup zh h k = NULL"
  using sessions_okD(1) [OF assms(1)] table_okD(1) [of zh c h k] assms(2) by (auto simp: sessions_def)

lemma close_old_ok:
  assumes ok: "sessions_ok zh live c" and h: "dp_uuid_ht c = Some h" and u: "u \<notin> session_strs c" "strs c u = Some k"
    and env: "env \<notin> session_frms c" "env \<noteq> NULL" and rm: "room k a c"
  shows "\<exists>c1. (if zhash_lookup zh h k \<noteq> NULL then close_dp_session zh ac (zhash_lookup zh h k) c else Some c) = Some c1 \<and>
    close_old zh live able k u env a c c1"
proof -
  note S = sessions_okD [OF ok]
  have tab: "table_ok zh c h" using S(1) h by auto
  have only: "zhash_lookup zh h k = r" if "dps c r = Some d" "strs c (uuid d) = Some k" for r d using table_okD(3) [OF tab that(1)] that(2) by auto
  show ?thesis
  proof (cases "zhash_lookup zh h k = NULL")
    case True
    have "sessions zh c k = None" using sessions_at [OF ok h] True by blast
    then have "sessions zh c = (sessions zh c)(k := None)" by auto
    moreover have no: "\<not> (dps c r = Some d \<and> strs c (uuid d) = Some k)" for r d using only table_okD(2) [OF tab] True by metis
    have "dps c (dp_calloc a) = None" using rm no unfolding room_def by (cases "dps c (dp_calloc a)") auto
    moreover have "strs c (url_at a) = None" using rm no unfolding room_def ran_def by auto
    ultimately show ?thesis using True ok u env by (auto simp: close_old_def)
  next
    case False
    obtain d where d: "dps c (zhash_lookup zh h k) = Some d" "strs c (uuid d) = Some k" using table_okD(1) [OF tab False] by blast
    obtain c1 where c1: "close_dp_session zh ac (zhash_lookup zh h k) c = Some c1" "sessions_ok zh live c1"
      "sessions zh c1 = (sessions zh c)(k := None)" "dps c1 = (dps c)(zhash_lookup zh h k := None)" "replies c1 = replies c"
      "strs c1 = (strs c)(uuid d := None, data_url d := None)"
      "frms c1 = (if envelope d \<noteq> NULL then (frms c)(envelope d := None) else frms c)" "able (threads c) \<longrightarrow> able (threads c1)"
      using close_session [OF ok d(1)] d(2) by auto
    note r = ran_split [of "dps c", OF d(1), folded c1(4)]
    have "u \<notin> session_strs c1" "u \<noteq> uuid d" "u \<noteq> data_url d" using u(1) by (auto simp: session_strs_def r)
    moreover have "env \<notin> session_frms c1" "envelope d \<noteq> NULL \<Longrightarrow> env \<noteq> envelope d" using env by (auto simp: session_frms_def r)
    moreover have "dps c1 (dp_calloc a) = None"
      using rm only unfolding room_def c1(4) by (cases "dps c (dp_calloc a)") auto
    moreover have "strs c1 (url_at a) = None"
    proof (cases "strs c (url_at a)")
      case None
      then show ?thesis by (simp add: c1(6))
    next
      case (Some x)
      then obtain e q where "dps c q = Some e" "strs c (uuid e) = Some k" "url_at a \<in> {uuid e, data_url e}"
        using rm unfolding room_def ran_def by auto
      then show ?thesis using only d(1) by (auto simp: c1(6))
    qed
    ultimately show ?thesis using False c1 by (auto simp: close_old_def)
  qed
qed

end

section \<open>One message\<close>

text \<open>
  The specification: a CONNECT gives the dataplane a thread of its own and is accepted, a KEEPALIVE of a
  dataplane without one is answered by RECONNECT, everything else is ignored.
\<close>

definition served :: "u32 \<Rightarrow> dp_request \<Rightarrow> (string \<rightharpoonup> ptr) \<Rightarrow> (string \<rightharpoonup> ptr) \<Rightarrow> bytes list list \<Rightarrow> bool" where
  "served fmt r M M' out =
     (case r of
        Connect env u \<Rightarrow> \<exists>t url. t \<notin> ran (M(u := None)) \<and> M' = M(u \<mapsto> t) \<and> out = [accept_reply env u url fmt]
      | Keepalive env u \<Rightarrow> M' = M \<and> out = (if M u = None then [reconnect_reply env u] else [])
      | Garbage \<Rightarrow> M' = M \<and> out = [])"

text \<open>What the environment answers to a message: new memory for the envelope and the uuid, and for a CONNECT room for a session.\<close>

definition msg_room :: "answers \<Rightarrow> dp_request \<Rightarrow> ('h, 'm, 'w) ctrl \<Rightarrow> bool" where
  "msg_room a r c \<longleftrightarrow> envelope_at a \<noteq> NULL \<and> frms c (envelope_at a) = None \<and> uuid_at a \<noteq> NULL \<and> strs c (uuid_at a) = None \<and>
     (case r of Connect env u \<Rightarrow> args_calloc a \<and> url_at a \<noteq> NULL \<and> url_at a \<noteq> uuid_at a \<and> room u a c | _ \<Rightarrow> True)"

definition all_succeed :: "'m zmsg_ops \<Rightarrow> answers \<Rightarrow> bool" where
  "all_succeed zm a \<longleftrightarrow> reliable zm \<and> dp_calloc a \<noteq> NULL \<and> format_frame a \<and> send_rc a = 0"

lemma session_own:
  assumes "dps c p = Some d"
  shows "uuid d \<in> session_strs c" "data_url d \<in> session_strs c" "envelope d = NULL \<or> envelope d \<in> session_frms c"
  using assms by (auto simp: session_strs_def session_frms_def ranI)

lemma owned_alloc:
  assumes ok: "sessions_ok zh live c"
  shows "x \<in> session_strs c \<Longrightarrow> strs c x \<noteq> None" "x \<in> session_frms c \<Longrightarrow> frms c x \<noteq> None"
proof -
  show "strs c x \<noteq> None" if x: "x \<in> session_strs c"
  proof -
    obtain p d where d: "dps c p = Some d" "x = uuid d \<or> x = data_url d" using x by (auto simp: session_strs_def ran_def)
    obtain h where t: "table_ok zh c h" using sessions_okD(1) [OF ok] by blast
    show ?thesis using d(2) sessions_okD(3) [OF ok d(1)] table_okD(3) [OF t d(1)] by (auto simp: session_ok_def)
  qed
  show "frms c x \<noteq> None" if x: "x \<in> session_frms c"
  proof -
    obtain p d where d: "dps c p = Some d" "x = envelope d" "x \<noteq> NULL" using x by (auto simp: session_frms_def ran_def)
    then show ?thesis using sessions_okD(3) [OF ok d(1)] by (auto simp: session_ok_def)
  qed
qed

lemma sessions_ok_frame:
  assumes ok: "sessions_ok zh live c" and "\<And>x. x \<in> session_strs c \<Longrightarrow> ss x = strs c x" and "\<And>x. x \<in> session_frms c \<Longrightarrow> fs x = frms c x"
  shows "sessions_ok zh live (c\<lparr>strs := ss, frms := fs, replies := rs\<rparr>)" (is "sessions_ok zh live ?c")
    and "sessions zh (c\<lparr>strs := ss, frms := fs, replies := rs\<rparr>) = sessions zh c"
proof -
  have same: "ss (uuid d) = strs c (uuid d)" "ss (data_url d) = strs c (data_url d)" "envelope d = NULL \<or> fs (envelope d) = frms c (envelope d)"
    if "dps c p = Some d" for p d
    using assms(2) [OF session_own(1) [OF that]] assms(2) [OF session_own(2) [OF that]] assms(3) session_own(3) [OF that] by auto
  have "table_ok zh ?c h" if "table_ok zh c h" for h
    using that same(1) unfolding table_ok_def by (auto, metis)
  moreover have "session_ok live ?c d" if "dps c p = Some d" for p d
    using sessions_okD(3) [OF ok that] same(2,3) [OF that] by (auto simp: session_ok_def)
  ultimately show "sessions_ok zh live ?c"
    using ok unfolding sessions_ok_def by auto
qed (simp add: sessions_def fun_eq_iff split: option.split)

lemma sessions_replies [simp]:
  "sessions_ok zh live (c\<lparr>replies := x\<rparr>) = sessions_ok zh live c" "sessions zh (c\<lparr>replies := x\<rparr>) = sessions zh c"
  by (simp_all add: sessions_ok_def table_ok_def session_ok_def sessions_def fun_eq_iff split: option.split)

locale dp_control = dp_sessions zh ac live able + zmsg zm frames
  for zh :: "'h zhash_ops" and ac :: "'w actor_ops" and live :: "'w \<Rightarrow> ptr set" and able :: "'w \<Rightarrow> bool" and zm :: "'m zmsg_ops" and frames :: "'m \<Rightarrow> bytes list"
begin

lemma connect_eq:
  assumes find: "dp_findbyuuid zh u c = Some q" and c1: "(if q \<noteq> NULL then close_dp_session zh ac q c else Some c) = Some c1"
    and a: "dp_calloc a \<noteq> NULL" "args_calloc a" "url_at a \<noteq> NULL" "url_at a \<noteq> u"
    and h: "dp_uuid_ht c1 = Some h" and k: "strs c1 u = Some k" and f: "frms c1 env = Some f"
    and t: "zactor_new ac (rib_dp_data_url cfg) (threads c1) = Some (t, w1)" "t \<noteq> NULL" "actor_recv ac t w1 = Some (Some s, w2)"
  shows "\<exists>d fs out. process_connect_message zh zm ac cfg a env u fmt c =
      Some (0, (opened zh h k w2 s (dp_calloc a) d fs c1)\<lparr>replies := replies c1 @ out\<rparr>) \<and>
    (d = \<lparr>uuid = u, envelope = env, ipc = t, data_url = url_at a\<rparr> \<and> fs = frms c1 \<or>
     d = \<lparr>uuid = u, envelope = NULL, ipc = t, data_url = url_at a\<rparr> \<and> fs = (frms c1)(env := None)) \<and>
    (out = [] \<or> map frames out = [accept_reply f k s fmt]) \<and> (reliable zm \<longrightarrow> format_frame a \<longrightarrow> send_rc a = 0 \<longrightarrow> out \<noteq> [])"
proof -
  let ?p = "dp_calloc a" and ?d = "\<lparr>uuid = u, envelope = env, ipc = t, data_url = url_at a\<rparr>"
  let ?o = "opened zh h k w2 s ?p ?d (frms c1) c1"
  have pre: "process_connect_message zh zm ac cfg a env u fmt c =
      map_option (\<lambda>(_, c). (0, c)) (broker_dp_ctrl_msg_accept zm a ?p (url_at a) fmt ?o)"
    using assms
    by (simp add: process_connect_message_def dp_insert_def start_new_dp_data_thread_def opened_def Let_def
        map_conv_bind_option case_prod_unfold comp_def)
  have d: "dps ?o ?p = Some ?d" "strs ?o (uuid ?d) = Some k" "strs ?o (url_at a) = Some s" "frms ?o (envelope ?d) = Some f"
    using k f a(4) by simp_all
  obtain rc out taken where acc: "broker_dp_ctrl_msg_accept zm a ?p (url_at a) fmt ?o =
        Some (rc, ?o\<lparr>dps := (dps ?o)(?p \<mapsto> if taken then ?d\<lparr>envelope := NULL\<rparr> else ?d),
          frms := (if taken then (frms ?o)(envelope ?d := None) else frms ?o), replies := replies ?o @ out\<rparr>)"
      and o: "out = [] \<or> map frames out = [accept_reply f k s fmt]" "reliable zm \<longrightarrow> format_frame a \<longrightarrow> send_rc a = 0 \<longrightarrow> out \<noteq> []"
    using accept_eq [OF d, of a fmt] by (elim exE conjE) (rule that)
  let ?d' = "if taken then ?d\<lparr>envelope := NULL\<rparr> else ?d" and ?fs = "if taken then (frms c1)(env := None) else frms c1"
  have "process_connect_message zh zm ac cfg a env u fmt c = Some (0, (opened zh h k w2 s ?p ?d' ?fs c1)\<lparr>replies := replies c1 @ out\<rparr>)"
    using pre acc by (simp add: opened_def)
  then show ?thesis using o by (intro exI [of _ ?d'] exI [of _ ?fs] exI [of _ out]) auto
qed

lemma connect_step:
  assumes ok: "sessions_ok zh live c" and u: "u \<noteq> NULL" "u \<notin> session_strs c" "strs c u = Some k"
    and env: "env \<noteq> NULL" "env \<notin> session_frms c" "frms c env = Some f" and rm: "room k a c"
    and a: "args_calloc a" "url_at a \<noteq> NULL" and ts: "able (threads c)" "rib_dp_data_url cfg \<noteq> None"
  shows "\<exists>c' out. process_connect_message zh zm ac cfg a env u fmt c = Some (0, c') \<and> sessions_ok zh live c' \<and> able (threads c') \<and>
    replies c' = replies c @ out \<and> (all_succeed zm a \<longrightarrow> served fmt (Connect f k) (sessions zh c) (sessions zh c') (map frames out))"
proof -
  obtain h where h: "dp_uuid_ht c = Some h" using sessions_okD(1) [OF ok] by blast
  from close_old_ok [OF ok h u(2,3) env(2,1) rm] obtain c1 where
    c1: "(if zhash_lookup zh h k \<noteq> NULL then close_dp_session zh ac (zhash_lookup zh h k) c else Some c) = Some c1"
    and "close_old zh live able k u env a c c1" by blast
  then have C: "sessions_ok zh live c1" "sessions zh c1 = (sessions zh c)(k := None)" "replies c1 = replies c" "strs c1 u = Some k"
    "u \<notin> session_strs c1" "frms c1 env = Some f" "env \<notin> session_frms c1" "dps c1 (dp_calloc a) = None" "strs c1 (url_at a) = None" "able (threads c1)"
    using u(3) env(3) ts(1) by (auto simp: close_old_def)
  have find: "dp_findbyuuid zh u c = Some (zhash_lookup zh h k)" using u h by (simp add: dp_findbyuuid_def)
  show ?thesis
  proof (cases "dp_calloc a = NULL")
    case True
    then have "process_connect_message zh zm ac cfg a env u fmt c = Some (0, c1)"
      using c1 find by (simp add: process_connect_message_def)
    then show ?thesis using True C(1,3,10) by (auto simp: all_succeed_def)
  next
    case False
    obtain h1 where h1: "dp_uuid_ht c1 = Some h1" using sessions_okD(1) [OF C(1)] by blast
    have free: "zhash_lookup zh h1 k = NULL" using sessions_at [OF C(1) h1, of k] C(2) by simp
    obtain t w1 s w2 where t: "zactor_new ac (rib_dp_data_url cfg) (threads c1) = Some (t, w1)" "t \<noteq> NULL"
      "actor_recv ac t w1 = Some (Some s, w2)" "able w2" using start [OF C(10) ts(2)] by blast
    have w: "t \<notin> live (threads c1)" "live w2 = insert t (live (threads c1))" using new [OF t(1,2)] recv [OF t(3)] by auto
    have ne: "url_at a \<noteq> u" using C(4,9) by auto
    from connect_eq [OF find c1 False a ne h1 C(4,6) t(1-3), of fmt] obtain d fs out where
      r: "process_connect_message zh zm ac cfg a env u fmt c = Some (0, (opened zh h1 k w2 s (dp_calloc a) d fs c1)\<lparr>replies := replies c1 @ out\<rparr>)"
      and d: "d = \<lparr>uuid = u, envelope = env, ipc = t, data_url = url_at a\<rparr> \<and> fs = frms c1 \<or>
        d = \<lparr>uuid = u, envelope = NULL, ipc = t, data_url = url_at a\<rparr> \<and> fs = (frms c1)(env := None)"
      and out: "out = [] \<or> map frames out = [accept_reply f k s fmt]" "reliable zm \<longrightarrow> format_frame a \<longrightarrow> send_rc a = 0 \<longrightarrow> out \<noteq> []"
      by (elim exE conjE) (rule that)
    let ?c = "opened zh h1 k w2 s (dp_calloc a) d fs c1"
    have o: "sessions_ok zh live ?c" "sessions zh ?c = (sessions zh c1)(k \<mapsto> ipc d)" "ipc d = t"
    proof -
      have D: "uuid d = u" "ipc d = t" "data_url d = url_at a" "envelope d = NULL \<or> envelope d = env \<and> fs = frms c1" using d by auto
      have fs: "fs e = frms c1 e" if "e \<in> session_frms c1" for e using d that C(7) by auto
      have "NULL \<notin> session_frms c1" by (simp add: session_frms_def)
      then show "sessions_ok zh live ?c" "sessions zh ?c = (sessions zh c1)(k \<mapsto> ipc d)" "ipc d = t"
        using opened_ok [OF C(1) h1 free False C(8), of d w2 fs s, OF _ _ _ _ _ _ _ _ _ _ fs] D u(1) C(4-7,9) a(2) t(2) w by auto
    qed
    have "t \<notin> ran ((sessions zh c)(k := None))" using sessions_live [OF C(1)] C(2) w(1) by simp
    then show ?thesis using r out o C(2,3) t(4)
      by (intro exI [of _ "?c\<lparr>replies := replies c1 @ out\<rparr>"] exI [of _ out]) (auto simp: served_def all_succeed_def, blast)
  qed
qed

lemma keepalive_step:
  assumes ok: "sessions_ok zh live c" "able (threads c)" and u: "u \<noteq> NULL" "strs c u = Some k"
    and env: "env \<notin> session_frms c" "frms c env = Some f"
  shows "\<exists>c' out. process_keepalive_message zh zm a env u c = Some (0, c') \<and> sessions_ok zh live c' \<and> able (threads c') \<and> replies c' = replies c @ out \<and>
    (all_succeed zm a \<longrightarrow> served fmt (Keepalive f k) (sessions zh c) (sessions zh c') (map frames out))"
proof -
  obtain h where h: "dp_uuid_ht c = Some h" using sessions_okD(1) [OF ok(1)] by blast
  have find: "dp_findbyuuid zh u c = Some (zhash_lookup zh h k)" using u h by (simp add: dp_findbyuuid_def)
  show ?thesis
  proof (cases "zhash_lookup zh h k = NULL")
    case False
    then show ?thesis using find ok sessions_at [OF ok(1) h, of k]
      by (intro exI [of _ c] exI [of _ "[]"]) (auto simp: process_keepalive_message_def served_def)
  next
    case True
    obtain rc out fs where r: "broker_dp_ctrl_msg_reconnect zm a u env c = Some (rc, c\<lparr>frms := fs, replies := replies c @ out\<rparr>)"
      "fs = frms c \<or> fs = (frms c)(env := None)" "out = [] \<or> map frames out = [reconnect_reply f k]"
      "reliable zm \<longrightarrow> send_rc a = 0 \<longrightarrow> out \<noteq> []"
      using reconnect_eq [OF u(2) env(2), of a] by (elim exE conjE) (rule that)
    have o: "sessions_ok zh live (c\<lparr>frms := fs, replies := replies c @ out\<rparr>)"
      "sessions zh (c\<lparr>frms := fs, replies := replies c @ out\<rparr>) = sessions zh c"
    proof -
      have "fs x = frms c x" if "x \<in> session_frms c" for x using r(2) env(1) that by auto
      from sessions_ok_frame [OF ok(1) refl this]
      show "sessions_ok zh live (c\<lparr>frms := fs, replies := replies c @ out\<rparr>)"
        "sessions zh (c\<lparr>frms := fs, replies := replies c @ out\<rparr>) = sessions zh c" by simp_all
    qed
    show ?thesis using find True r o ok(2) sessions_at [OF ok(1) h, of k]
      by (intro exI [of _ "c\<lparr>frms := fs, replies := replies c @ out\<rparr>"] exI [of _ out])
        (auto simp: process_keepalive_message_def served_def all_succeed_def simp del: sessions_replies)
  qed
qed

text \<open>The message is taken apart: what is left is the handler of the request, with the envelope and the uuid allocated.\<close>

lemma message_eq:
  assumes "frames m = f # fs"
  shows "process_ctrl_message zh zm ac cfg fmt a (Some m) c =
      (case request (frames m) of
         Connect _ k \<Rightarrow> process_connect_message zh zm ac cfg a (envelope_at a) (uuid_at a) fmt
           (c\<lparr>frms := (frms c)(envelope_at a \<mapsto> f), strs := (strs c)(uuid_at a \<mapsto> k)\<rparr>)
       | Keepalive _ k \<Rightarrow> process_keepalive_message zh zm a (envelope_at a) (uuid_at a)
           (c\<lparr>frms := (frms c)(envelope_at a \<mapsto> f), strs := (strs c)(uuid_at a \<mapsto> k)\<rparr>)
       | Garbage \<Rightarrow> Some (0, c\<lparr>frms := (frms c)(envelope_at a \<mapsto> f)\<rparr>))"
    and "request (frames m) = Connect e k \<or> request (frames m) = Keepalive e k \<Longrightarrow> e = f"
proof -
  obtain m1 where m1: "zmsg_unwrap zm m = (Some f, m1)" "frames m1 = unwrapped fs"
    using unwrap_some [OF assms] by (cases "zmsg_unwrap zm m") auto
  then show "process_ctrl_message zh zm ac cfg fmt a (Some m) c =
      (case request (frames m) of
         Connect _ k \<Rightarrow> process_connect_message zh zm ac cfg a (envelope_at a) (uuid_at a) fmt
           (c\<lparr>frms := (frms c)(envelope_at a \<mapsto> f), strs := (strs c)(uuid_at a \<mapsto> k)\<rparr>)
       | Keepalive _ k \<Rightarrow> process_keepalive_message zh zm a (envelope_at a) (uuid_at a)
           (c\<lparr>frms := (frms c)(envelope_at a \<mapsto> f), strs := (strs c)(uuid_at a \<mapsto> k)\<rparr>)
       | Garbage \<Rightarrow> Some (0, c\<lparr>frms := (frms c)(envelope_at a \<mapsto> f)\<rparr>))"
    using parse_eq [of m1] assms by (auto simp: process_ctrl_message_def request_def split: list.split)
  show "request (frames m) = Connect e k \<or> request (frames m) = Keepalive e k \<Longrightarrow> e = f"
    using assms by (auto simp: request_def split: list.splits if_splits)
qed

text \<open>The envelope and the uuid of a message are new: they touch no session.\<close>

lemma message_frame:
  assumes ok: "sessions_ok zh live c" and e: "e \<notin> session_frms c" and ss: "\<And>x. x \<in> session_strs c \<Longrightarrow> ss x = strs c x"
  shows "sessions_ok zh live (c\<lparr>frms := (frms c)(e \<mapsto> f), strs := ss\<rparr>)"
    "sessions zh (c\<lparr>frms := (frms c)(e \<mapsto> f), strs := ss\<rparr>) = sessions zh c"
    "session_strs (c\<lparr>frms := (frms c)(e \<mapsto> f), strs := ss\<rparr>) = session_strs c"
    "session_frms (c\<lparr>frms := (frms c)(e \<mapsto> f), strs := ss\<rparr>) = session_frms c"
proof -
  let ?fs = "(frms c)(e \<mapsto> f)"
  have "?fs x = frms c x" if "x \<in> session_frms c" for x using that e by auto
  note f = sessions_ok_frame [where fs = ?fs and ss = ss, OF ok ss this, of "replies c"]
  have "c\<lparr>strs := ss, frms := ?fs, replies := replies c\<rparr> = c\<lparr>frms := ?fs, strs := ss\<rparr>" by (cases c) simp
  then show "sessions_ok zh live (c\<lparr>frms := ?fs, strs := ss\<rparr>)" "sessions zh (c\<lparr>frms := ?fs, strs := ss\<rparr>) = sessions zh c"
    using f by (simp_all only:)
qed (simp_all add: session_strs_def session_frms_def)

lemma message_empty:
  assumes "frames m = []"
  shows "process_ctrl_message zh zm ac cfg fmt a (Some m) c = Some (0, c)"
proof -
  obtain m1 where "zmsg_unwrap zm m = (None, m1)" "frames m1 = []" using unwrap_none [OF assms] by (cases "zmsg_unwrap zm m") auto
  then show ?thesis using parse_eq [of m1] by (simp add: process_ctrl_message_def)
qed

text \<open>Every message is handled without a fault, keeps the invariant, and is served as specified.\<close>

lemma message_step:
  assumes ok: "sessions_ok zh live c" and rm: "msg_room a (request (frames m)) c" and ts: "able (threads c)" "rib_dp_data_url cfg \<noteq> None"
  shows "\<exists>c' out. process_ctrl_message zh zm ac cfg fmt a (Some m) c = Some (0, c') \<and> sessions_ok zh live c' \<and> able (threads c') \<and>
    replies c' = replies c @ out \<and> (all_succeed zm a \<longrightarrow> served fmt (request (frames m)) (sessions zh c) (sessions zh c') (map frames out))"
proof (cases "frames m")
  case Nil
  then show ?thesis using message_empty [OF Nil] ok ts(1) by (intro exI [of _ c] exI [of _ "[]"]) (simp add: request_def served_def)
next
  case (Cons f fs)
  let ?c = "\<lambda>k. c\<lparr>frms := (frms c)(envelope_at a \<mapsto> f), strs := (strs c)(uuid_at a \<mapsto> k)\<rparr>"
  have fresh: "envelope_at a \<noteq> NULL" "envelope_at a \<notin> session_frms c" "uuid_at a \<noteq> NULL" "uuid_at a \<notin> session_strs c" "strs c (uuid_at a) = None"
    using rm owned_alloc [OF ok] unfolding msg_room_def by blast+
  have "((strs c)(uuid_at a \<mapsto> k)) x = strs c x" if "x \<in> session_strs c" for x k using that fresh(4) by auto
  note i = message_frame [where ss = "(strs c)(uuid_at a \<mapsto> k)" and f = f for k, OF ok fresh(2) this]
  note step = message_eq [OF Cons]
  show ?thesis
  proof (cases "request (frames m)")
    case (Connect e k)
    have "room k a (?c k)" using rm Connect fresh(4) by (intro room_keep) (auto simp: msg_room_def)
    then have "\<exists>c' out. process_connect_message zh zm ac cfg a (envelope_at a) (uuid_at a) fmt (?c k) = Some (0, c') \<and> sessions_ok zh live c' \<and> able (threads c') \<and>
      replies c' = replies (?c k) @ out \<and> (all_succeed zm a \<longrightarrow> served fmt (Connect f k) (sessions zh (?c k)) (sessions zh c') (map frames out))"
      using rm Connect fresh i(3,4)
      by (intro connect_step [OF i(1) _ _ _ _ _ _ _ _ _ _ ts(2)]) (auto simp: msg_room_def ts(1))
    then show ?thesis using step(1) Connect step(2) [of e k] i(2) by simp
  next
    case (Keepalive e k)
    have "\<exists>c' out. process_keepalive_message zh zm a (envelope_at a) (uuid_at a) (?c k) = Some (0, c') \<and> sessions_ok zh live c' \<and> able (threads c') \<and>
      replies c' = replies (?c k) @ out \<and> (all_succeed zm a \<longrightarrow> served fmt (Keepalive f k) (sessions zh (?c k)) (sessions zh c') (map frames out))"
      using fresh i(3,4) ts(1) by (intro keepalive_step [OF i(1)]) auto
    then show ?thesis using step(1) Keepalive step(2) [of e k] i(2) by simp
  next
    case Garbage
    then show ?thesis using step(1) ts(1) message_frame [OF ok fresh(2) refl, where f = f] by (auto simp: served_def)
  qed
qed

end

section \<open>Runs\<close>

text \<open>
  All requests of a run so far, and the state after them; \<open>P\<close> restricts what the environment answers.
\<close>

inductive ctrl_run ::
  "'h zhash_ops \<Rightarrow> 'm zmsg_ops \<Rightarrow> 'w actor_ops \<Rightarrow> ('w \<Rightarrow> ptr set) \<Rightarrow> ('w \<Rightarrow> bool) \<Rightarrow> ('m \<Rightarrow> bytes list) \<Rightarrow> rib_broker_cfg \<Rightarrow> u32 \<Rightarrow> (answers \<Rightarrow> bool)
    \<Rightarrow> dp_request list \<Rightarrow> ('h, 'm, 'w) ctrl \<Rightarrow> bool"
  for zh zm ac live able frames cfg fmt P where
  start: "zhash_new zh = Some h \<Longrightarrow> live w = {} \<Longrightarrow> able w \<Longrightarrow>
    ctrl_run zh zm ac live able frames cfg fmt P []
      \<lparr>dp_uuid_ht = Some h, dps = Map.empty, strs = Map.empty, frms = Map.empty, replies = [], threads = w\<rparr>"
| message: "ctrl_run zh zm ac live able frames cfg fmt P rs c \<Longrightarrow> P a \<Longrightarrow> msg_room a (request (frames m)) c \<Longrightarrow>
    process_ctrl_message zh zm ac cfg fmt a (Some m) c = Some (rc, c') \<Longrightarrow>
    ctrl_run zh zm ac live able frames cfg fmt P (rs @ [request (frames m)]) c'"

fun served_all :: "u32 \<Rightarrow> dp_request list \<Rightarrow> (string \<rightharpoonup> ptr) \<Rightarrow> (string \<rightharpoonup> ptr) \<Rightarrow> bytes list list \<Rightarrow> bool" where
  "served_all fmt [] M M' out \<longleftrightarrow> M' = M \<and> out = []"
| "served_all fmt (r # rs) M M' out \<longleftrightarrow> (\<exists>M1 o1 o2. served fmt r M M1 o1 \<and> served_all fmt rs M1 M' o2 \<and> out = o1 @ o2)"

lemma served_all_snoc:
  "served_all fmt rs M M1 o1 \<Longrightarrow> served fmt r M1 M' o2 \<Longrightarrow> served_all fmt (rs @ [r]) M M' (o1 @ o2)"
proof (induction rs arbitrary: M o1)
  case (Cons q rs)
  then obtain M2 oa ob where "served fmt q M M2 oa" "served_all fmt rs M2 M1 ob" "o1 = oa @ ob" by auto
  then show ?case using Cons(1) [of M2 ob] Cons(3) by auto
qed auto

context dp_control
begin

lemma run_start:
  assumes "zhash_new zh = Some h" and "live w = {}"
  shows "sessions_ok zh live \<lparr>dp_uuid_ht = Some h, dps = Map.empty, strs = Map.empty, frms = Map.empty, replies = [], threads = w\<rparr>"
    and "sessions zh \<lparr>dp_uuid_ht = Some h, dps = Map.empty, strs = Map.empty, frms = Map.empty, replies = [], threads = w\<rparr> = Map.empty"
  using assms lookup_new [OF assms(1)] by (auto simp: sessions_ok_def table_ok_def sessions_def)

lemma run_ok:
  assumes "ctrl_run zh zm ac live able frames cfg fmt P rs c" and "rib_dp_data_url cfg \<noteq> None"
  shows "sessions_ok zh live c \<and> able (threads c)"
  using assms(1)
proof induction
  case (start h w)
  then show ?case using run_start [OF start(1,2)] by simp
next
  case (message rs c a m rc c')
  then show ?case using message_step [of c a m cfg fmt] assms(2) by fastforce
qed

lemma run_served:
  assumes "ctrl_run zh zm ac live able frames cfg fmt (all_succeed zm) rs c" and url: "rib_dp_data_url cfg \<noteq> None"
  shows "served_all fmt rs Map.empty (sessions zh c) (map frames (replies c))"
  using assms(1)
proof induction
  case (start h w)
  then show ?case using run_start(2) [OF start(1,2)] by simp
next
  case (message rs c a m rc c')
  from run_ok [OF message(1) url] have ok: "sessions_ok zh live c" "able (threads c)" by auto
  obtain c2 out where c2: "process_ctrl_message zh zm ac cfg fmt a (Some m) c = Some (0, c2)" "replies c2 = replies c @ out"
    "served fmt (request (frames m)) (sessions zh c) (sessions zh c2) (map frames out)"
    using message_step [OF ok(1) message(3) ok(2) url, of fmt] message(2) by blast
  then show ?case using served_all_snoc [OF message(5)] message(4) by simp
qed

end

end
