(* ===== verification/Dp_Ctrl_Properties.thy ===== *)
theory Dp_Ctrl_Properties
  imports Dp_Ctrl_Runs
begin

text \<open>
  The libraries as concrete functions, with the data threads of \<open>Consumers\<close> behind the actors, and the
  properties of the control thread.
\<close>

section \<open>Instances\<close>

text \<open>Messages as lists of frames.\<close>

definition list_zmsg :: "bytes list zmsg_ops" where
  "list_zmsg = \<lparr>zmsg_pop = (\<lambda>m. case m of [] \<Rightarrow> (None, []) | f # fs \<Rightarrow> (Some f, fs)),
     zmsg_popstr = (\<lambda>m. case m of [] \<Rightarrow> (None, []) | f # fs \<Rightarrow> (Some (frame_str f), fs)),
     zmsg_unwrap = (\<lambda>m. case m of [] \<Rightarrow> (None, []) | f # fs \<Rightarrow> (Some f, unwrapped fs)),
     zmsg_new = Some [], zmsg_addstr = (\<lambda>m s. (0, m @ [str_frame s])), zmsg_append = (\<lambda>m f. (0, m @ [f])),
     zmsg_prepend = (\<lambda>m f. (0, f # m))\<rparr>"

interpretation list_zmsg: zmsg list_zmsg "\<lambda>m. m"
  by unfold_locales (simp_all add: list_zmsg_def)


text \<open>A hash table as a list of keys and the items under them.\<close>

type_synonym keyed = "string list \<times> (string \<Rightarrow> ptr)"

definition keyed_lookup :: "keyed \<Rightarrow> string \<Rightarrow> ptr" where
  "keyed_lookup h k = (if k \<in> set (fst h) then snd h k else NULL)"

definition keyed_zhash :: "keyed zhash_ops" where
  "keyed_zhash = \<lparr>zhash_new = Some ([], \<lambda>_. NULL), zhash_lookup = keyed_lookup,
     zhash_insert = (\<lambda>h k v. if keyed_lookup h k = NULL then (k # fst h, (snd h)(k := v)) else h),
     zhash_delete = (\<lambda>h k. (removeAll k (fst h), snd h))\<rparr>"

definition keyed_first :: "keyed \<Rightarrow> ptr" where
  "keyed_first h = (case filter (\<lambda>k. snd h k \<noteq> NULL) (fst h) of [] \<Rightarrow> NULL | k # _ \<Rightarrow> snd h k)"

lemma keyed_first_cases:
  obtains (none) "keyed_first h = NULL" "\<And>k. keyed_lookup h k = NULL"
    | (some) k where "keyed_first h = keyed_lookup h k" "keyed_first h \<noteq> NULL"
proof (cases "filter (\<lambda>k. snd h k \<noteq> NULL) (fst h)")
  case Nil
  then show ?thesis by (intro none) (auto simp: keyed_first_def keyed_lookup_def filter_empty_conv)
next
  case (Cons k ks)
  then have "k \<in> set (filter (\<lambda>k. snd h k \<noteq> NULL) (fst h))" by (simp only: list.set_intros)
  then show ?thesis using Cons by (intro some [of k]) (auto simp: keyed_first_def keyed_lookup_def)
qed

interpretation keyed: zhash_walk keyed_zhash keyed_first
proof unfold_locales
  show "zhash_lookup keyed_zhash h k = NULL" if "keyed_first h = NULL" for h k
    using that by (cases rule: keyed_first_cases [of h]) (auto simp: keyed_zhash_def)
  show "\<exists>k. zhash_lookup keyed_zhash h k = keyed_first h" if "keyed_first h \<noteq> NULL" for h
    using that by (cases rule: keyed_first_cases [of h]) (auto simp: keyed_zhash_def)
qed (auto simp: keyed_zhash_def keyed_lookup_def)

text \<open>
  The data threads that run, each as the state of \<open>broker_dp_data_client\<close> it is in: a thread starts with
  the socket that \<open>broker_dp_data_init\<close> makes, and ends when it finds \<open>$TERM\<close> on its pipe.
\<close>

record pool =
  running :: "ptr \<rightharpoonup> dp_thread"
  next_thread :: ptr
  sock_ops :: data_sock_ops

definition pool_new :: "string option \<Rightarrow> pool \<Rightarrow> (ptr \<times> pool) option" where
  "pool_new url w = do {
     sock_ep \<leftarrow> url;
     (ep, _) \<leftarrow> broker_dp_data_init (sock_ops w) [] sock_ep;
     if running w (next_thread w) \<noteq> None then Some (NULL, w)
     else Some (next_thread w,
       w\<lparr>running := (running w)(next_thread w \<mapsto>
           \<lparr>th_pc = Fetch, th_client = next_thread w, th_pipe = [], th_ep = ep, th_bound = push_new (sock_ops w)\<rparr>),
         next_thread := Suc (next_thread w)\<rparr>)
   }"

definition pool_recv :: "ptr \<Rightarrow> pool \<Rightarrow> (string option \<times> pool) option" where
  "pool_recv p w = do {
     t \<leftarrow> running w p;
     Some (Some (th_ep t), w)
   }"

definition pool_destroy :: "ptr \<Rightarrow> pool \<Rightarrow> pool option" where
  "pool_destroy p w = do {
     t \<leftarrow> running w p;
     let t = restart_or (th_pc t) (t\<lparr>th_pipe := th_pipe t @ [''$TERM'']\<rparr>);
     if th_pc t = Stop_client then Some (w\<lparr>running := (running w)(p := None)\<rparr>) else None
   }"

definition pool_actors :: "pool actor_ops" where
  "pool_actors = \<lparr>zactor_new = pool_new, actor_recv = pool_recv, zactor_destroy = pool_destroy\<rparr>"

definition pool_live :: "pool \<Rightarrow> ptr set" where
  "pool_live w = {p. \<exists>t. running w p = Some t \<and> th_pipe t = []}"

definition pool_able :: "pool \<Rightarrow> bool" where
  "pool_able w \<longleftrightarrow> next_thread w \<noteq> NULL \<and> (\<forall>p \<ge> next_thread w. running w p = None) \<and>
     (\<forall>ep. broker_dp_data_init (sock_ops w) [] ep \<noteq> None)"

interpretation pool: actors pool_actors pool_live pool_able
proof unfold_locales
  show "t \<notin> pool_live w \<and> pool_live w' = insert t (pool_live w)" if "zactor_new pool_actors url w = Some (t, w')" "t \<noteq> NULL" for url w t w'
    using that by (auto simp: pool_actors_def pool_new_def pool_live_def Option.bind_eq_Some_conv split: if_splits)
  show "pool_live w' = pool_live w" if "actor_recv pool_actors t w = Some (s, w')" for t w s w'
    using that by (auto simp: pool_actors_def pool_recv_def Option.bind_eq_Some_conv)
  show "\<exists>t w1 s w2. zactor_new pool_actors url w = Some (t, w1) \<and> t \<noteq> NULL \<and> actor_recv pool_actors t w1 = Some (Some s, w2) \<and> pool_able w2"
    if a: "pool_able w" "url \<noteq> None" for w url
  proof -
    obtain ep x where "broker_dp_data_init (sock_ops w) [] (the url) = Some (ep, x)" using a(1) unfolding pool_able_def by fastforce
    then show ?thesis using a by (auto simp: pool_actors_def pool_new_def pool_recv_def pool_able_def)
  qed
  show "\<exists>w'. zactor_destroy pool_actors t w = Some w' \<and> pool_live w' = pool_live w - {t} \<and> (pool_able w \<longrightarrow> pool_able w')"
    if "t \<in> pool_live w" for t w
    using that by (auto simp: pool_actors_def pool_destroy_def pool_live_def pool_able_def restart_or_def client_needs_restart_def Let_def)
qed

interpretation dp_threads: dp_control keyed_zhash pool_actors pool_live pool_able list_zmsg "\<lambda>m. m" ..

interpretation dp_end: dp_walk keyed_zhash pool_actors pool_live pool_able keyed_first ..

section \<open>A run\<close>

text \<open>The dataplane \<open>dp1\<close> connects, then \<open>dp2\<close>, of which nothing is known, sends a KEEPALIVE.\<close>

definition eg_ops :: data_sock_ops where
  "eg_ops = \<lparr>push_new = 50, bind_rc = (\<lambda>_. 0), last_endpoint = ''tcp://127.0.0.1:40001'', chmod_rc = (\<lambda>_. 0)\<rparr>"

definition eg_pool :: pool where
  "eg_pool = \<lparr>running = Map.empty, next_thread = 70, sock_ops = eg_ops\<rparr>"

definition eg_cfg :: rib_broker_cfg where
  "eg_cfg = \<lparr>local_ip = [0, 0, 0, 0], rib_dp_ctrl_url = Some ''ipc:///var/run/ctrl'', rib_dp_data_url = Some ''tcp://*''\<rparr>"

type_synonym eg_ctrl = "(keyed, bytes list, pool) ctrl"

definition eg_ctrl0 :: eg_ctrl where
  "eg_ctrl0 = \<lparr>dp_uuid_ht = Some ([], \<lambda>_. NULL), dps = Map.empty, strs = Map.empty, frms = Map.empty, replies = [], threads = eg_pool\<rparr>"

definition eg_answers :: "ptr \<Rightarrow> answers" where
  "eg_answers p = \<lparr>envelope_at = p, uuid_at = p + 1, dp_calloc = p + 2, args_calloc = True, url_at = p + 3, format_frame = True, send_rc = 0\<rparr>"

definition eg_request :: "u8 \<Rightarrow> string \<Rightarrow> string \<Rightarrow> bytes list" where
  "eg_request env ty u = [[env], str_frame ty, [0, 0, 0, 0], str_frame u]"

abbreviation (input) eg_message :: "answers \<Rightarrow> bytes list \<Rightarrow> eg_ctrl \<Rightarrow> (int \<times> eg_ctrl) option" where
  "eg_message a m c \<equiv> process_ctrl_message keyed_zhash list_zmsg pool_actors eg_cfg 7 a (Some m) c"

definition eg_ctrl1 :: eg_ctrl where
  "eg_ctrl1 = snd (the (eg_message (eg_answers 80) (eg_request 1 ''CONNECT'' ''dp1'') eg_ctrl0))"

definition eg_ctrl2 :: eg_ctrl where
  "eg_ctrl2 = snd (the (eg_message (eg_answers 90) (eg_request 2 ''KEEPALIVE'' ''dp2'') eg_ctrl1))"

abbreviation (input) eg_ctrl_run :: "(answers \<Rightarrow> bool) \<Rightarrow> dp_request list \<Rightarrow> eg_ctrl \<Rightarrow> bool" where
  "eg_ctrl_run \<equiv> ctrl_run keyed_zhash list_zmsg pool_actors pool_live pool_able (\<lambda>m. m) eg_cfg 7"

lemma eg_ctrl1_eq: "eg_message (eg_answers 80) (eg_request 1 ''CONNECT'' ''dp1'') eg_ctrl0 = Some (0, eg_ctrl1)"
  unfolding eg_ctrl1_def by (rule Some_snd) code_simp+

lemma eg_ctrl2_eq: "eg_message (eg_answers 90) (eg_request 2 ''KEEPALIVE'' ''dp2'') eg_ctrl1 = Some (0, eg_ctrl2)"
  unfolding eg_ctrl2_def by (rule Some_snd) code_simp+

lemma eg_requests:
  "request (eg_request 1 ''CONNECT'' ''dp1'') = Connect [1] ''dp1''"
  "request (eg_request 2 ''KEEPALIVE'' ''dp2'') = Keepalive [2] ''dp2''"
  "request (eg_request 1 ''KEEPALIVE'' ''dp1'') = Keepalive [1] ''dp1''"
  by code_simp+

lemma eg_room:
  "msg_room (eg_answers 80) (Connect [1] ''dp1'') eg_ctrl0" "msg_room (eg_answers 90) (Keepalive e u) eg_ctrl1"
proof -
  show "msg_room (eg_answers 80) (Connect [1] ''dp1'') eg_ctrl0" by (simp add: msg_room_def room_def eg_answers_def eg_ctrl0_def)
  have "frms eg_ctrl1 90 = None" "strs eg_ctrl1 91 = None" by code_simp+
  then show "msg_room (eg_answers 90) (Keepalive e u) eg_ctrl1" by (simp add: msg_room_def eg_answers_def)
qed

lemma eg_ctrl_runs:
  assumes "P (eg_answers 80)" "P (eg_answers 90)"
  shows "eg_ctrl_run P [Connect [1] ''dp1''] eg_ctrl1" "eg_ctrl_run P [Connect [1] ''dp1'', Keepalive [2] ''dp2''] eg_ctrl2"
proof -
  have able: "pool_able eg_pool" by (simp add: pool_able_def eg_pool_def eg_ops_def broker_dp_data_init_def)
  have 0: "eg_ctrl_run P [] eg_ctrl0"
    using ctrl_run.start [of keyed_zhash "([], \<lambda>_. NULL)" pool_live eg_pool pool_able] able
    by (simp add: eg_ctrl0_def keyed_zhash_def pool_live_def eg_pool_def)
  show 1: "eg_ctrl_run P [Connect [1] ''dp1''] eg_ctrl1"
    using ctrl_run.message [OF 0 assms(1) _ eg_ctrl1_eq] eg_room(1) by (simp add: eg_requests)
  show "eg_ctrl_run P [Connect [1] ''dp1'', Keepalive [2] ''dp2''] eg_ctrl2"
    using ctrl_run.message [OF 1 assms(2) _ eg_ctrl2_eq] eg_room(2) by (simp add: eg_requests)
qed


section \<open>The properties\<close>

lemma dp_control_intro:
  assumes "zhash zh" and "actors ac live able" and "zmsg zm frames"
  shows "dp_control zh ac live able zm frames"
  using assms by (simp add: dp_control_def dp_sessions_def)







lemma u32_byte: "unat (ucast (drop_bit k (u :: u32)) :: u8) = unat u div 2 ^ k mod 256"
proof -
  have "unat (drop_bit k u) = unat u div 2 ^ k" unfolding unat_drop_bit_eq by (rule drop_bit_eq_div)
  then show ?thesis by (simp only: unsigned_ucast_eq take_bit_eq_mod) simp
qed

lemma base256:
  assumes "n < 256 * (256 * (256 * 256))"
  shows "n mod 256 + 256 * (n div 256 mod 256 + 256 * (n div 65536 mod 256 + 256 * (n div 16777216 mod 256))) = (n :: nat)"
proof -
  let ?a = "n div 256" let ?b = "?a div 256" let ?c = "?b div 256"
  have d: "n div 65536 = ?b" "n div 16777216 = ?c" by (simp_all add: div_mult2_eq [symmetric])
  have "?c < 256" using assms by (simp add: less_mult_imp_div_less)
  moreover have "n = 256 * ?a + n mod 256" "?a = 256 * ?b + ?a mod 256" "?b = 256 * ?c + ?b mod 256" by (simp_all only: mult_div_mod_eq)
  ultimately show ?thesis unfolding d by (metis mod_less add.commute)
qed

lemma u32_at_bytes: "u32_at (u32_bytes u) 0 = Some u"
proof -
  have "unat u < 256 * (256 * (256 * 256))" using unsigned_less [of u, where 'a = nat] by simp
  from base256 [OF this] u32_byte [of 0 u] u32_byte [of 8 u] u32_byte [of 16 u] u32_byte [of 24 u]
  show ?thesis by (simp add: u32_bytes_def u32_at_def byte_at_def del: of_nat_add of_nat_mult)
qed

text \<open>
  A number that is added to a message is the number the receiver takes out of it.
\<close>

theorem u32_roundtrip:
  assumes "zmsg zm frames" and "frames m = []" and "zmsg_addu32 zm frame m u = (rc, m')" and "0 \<le> rc"
  shows "\<exists>m''. zmsg_popu32 zm m' = (0, Some u, m'')"
proof -
  have f: "frames m' = [u32_bytes u]"
    using zmsg.append_frame [OF assms(1), of m "u32_bytes u"] assms(2-4) by (auto simp: zmsg_addu32_def split: if_splits)
  have "length (u32_bytes u) = 4" by (simp add: u32_bytes_def)
  then show ?thesis using u32_at_bytes zmsg.popu32_eq [OF assms(1), of m'] f by simp
qed

theorem u32_roundtrip_witness: "\<exists>m''. zmsg_popu32 list_zmsg (snd (zmsg_addu32 list_zmsg True [] 0x12345678)) = (0, Some 0x12345678, m'')"
proof -
  have "zmsg_addu32 list_zmsg True [] 0x12345678 = (0, [u32_bytes 0x12345678])" by (simp add: zmsg_addu32_def list_zmsg_def)
  with u32_roundtrip [OF list_zmsg.zmsg_axioms refl this] show ?thesis by simp
qed

section \<open>Where it goes wrong\<close>

text \<open>
  C40. A KEEPALIVE of a connected dataplane leaks: nothing is sent, and the string of the uuid and the
  frame of the envelope stay allocated although no session owns them. A dataplane sends these messages
  as long as it is connected.
\<close>

theorem keepalive_leaks:
  assumes "zhash zh" and "actors ac live able" and "zmsg zm frames" and "rib_dp_data_url cfg \<noteq> None"
    and "ctrl_run zh zm ac live able frames cfg fmt P rs c" and "msg_room a (request (frames m)) c"
    and "request (frames m) = Keepalive e u" and "sessions zh c u \<noteq> None"
  shows "process_ctrl_message zh zm ac cfg fmt a (Some m) c =
      Some (0, c\<lparr>frms := (frms c)(envelope_at a \<mapsto> e), strs := (strs c)(uuid_at a \<mapsto> u)\<rparr>) \<and>
    uuid_at a \<notin> session_strs c \<and> envelope_at a \<notin> session_frms c"
proof -
  note D = dp_control_intro [OF assms(1-3)]
  have S: "dp_sessions zh ac live able" using assms(1,2) by (simp add: dp_sessions_def)
  from dp_control.run_ok [OF D assms(5,4)] have ok: "sessions_ok zh live c" by blast
  obtain f fs where m: "frames m = f # fs" using assms(7) by (cases "frames m") (auto simp: request_def)
  note M = dp_control.message_eq [OF D m]
  obtain h where h: "dp_uuid_ht c = Some h" using sessions_okD(1) [OF ok] by blast
  have k: "zhash_lookup zh h u \<noteq> NULL" using dp_sessions.sessions_at [OF S ok h, of u] assms(8) by simp
  have "uuid_at a \<noteq> NULL" using assms(6) by (simp add: msg_room_def)
  then have "process_ctrl_message zh zm ac cfg fmt a (Some m) c =
      Some (0, c\<lparr>frms := (frms c)(envelope_at a \<mapsto> e), strs := (strs c)(uuid_at a \<mapsto> u)\<rparr>)"
    using M(1) [of cfg fmt a c] M(2) [of e u] assms(7) h k by (simp add: process_keepalive_message_def dp_findbyuuid_def)
  moreover have "uuid_at a \<notin> session_strs c" "envelope_at a \<notin> session_frms c"
    using owned_alloc [OF ok] assms(6) unfolding msg_room_def by blast+
  ultimately show ?thesis by blast
qed

theorem keepalive_leaks_witness:
  "\<exists>c'. eg_message (eg_answers 90) (eg_request 1 ''KEEPALIVE'' ''dp1'') eg_ctrl1 = Some (0, c') \<and> strs c' 91 = Some ''dp1'' \<and> replies c' = replies eg_ctrl1"
proof -
  have "rib_dp_data_url eg_cfg \<noteq> None" by (simp add: eg_cfg_def)
  moreover have "sessions keyed_zhash eg_ctrl1 ''dp1'' \<noteq> None" by code_simp
  ultimately show ?thesis
    using keepalive_leaks [OF keyed.zhash_axioms pool.actors_axioms list_zmsg.zmsg_axioms _ eg_ctrl_runs(1) [of "\<lambda>_. True"],
      of "eg_answers 90" "eg_request 1 ''KEEPALIVE'' ''dp1''" "[1]" "''dp1''"] eg_room(2)
    by (auto simp: eg_requests eg_answers_def)
qed

text \<open>
  A data thread that cannot be started takes the daemon down: when its arguments cannot be
  allocated the reply is built with a null url, and when \<open>zactor_new\<close> returns null the code logs it and
  reads from the null pipe. Both fault.
\<close>

theorem failed_thread_start_faults:
  "eg_message ((eg_answers 80)\<lparr>args_calloc := False\<rparr>) (eg_request 1 ''CONNECT'' ''dp1'') eg_ctrl0 = None \<and>
   eg_message (eg_answers 80) (eg_request 1 ''CONNECT'' ''dp1'') (eg_ctrl0\<lparr>threads := eg_pool\<lparr>next_thread := NULL\<rparr>\<rparr>) = None"
  by (intro conjI; code_simp)

text \<open>
  The entry \<open>ip\<close> of the configuration has no effect: whatever its value, the configuration is the
  same after it.
\<close>

theorem config_ip_ignored: "snd (parse_entry lc cfg sect ''ip'' val) = cfg"
  by (simp add: parse_entry_def parse_ipaddress_def)

end
