(* ===== verification/Kernel_Thread.thy ===== *)
theory Kernel_Thread
  imports Consumer_Properties Broker_Init
begin

text \<open>
  The thread that hands routes to the callback of the kernel, in runs with all other threads, and what
  becomes of its consumer when the library is shut down.
\<close>

section \<open>Runs\<close>

definition k_in_hand :: "'d kernel_thread \<Rightarrow> ptr option" where
  "k_in_hand t = (case k_pc t of K_publish x bc \<Rightarrow> Some x | K_fetch \<Rightarrow> None)"

inductive kernel_run ::
  "'h zhash_ops \<Rightarrow> 'd object_cbs \<Rightarrow> ('d \<Rightarrow> bool) \<Rightarrow> ('d \<Rightarrow> 'd) \<Rightarrow> ptr \<Rightarrow> 'd kernel_thread \<Rightarrow> ('d, 'h) route_mem \<Rightarrow> bool"
  for zh cb valid norm rc where
  start: "system zh cb valid norm rc w None \<Longrightarrow> fresh_clients c0 c1 c2 w \<Longrightarrow> rc \<noteq> NULL \<Longrightarrow> rclis w rc = None \<Longrightarrow>
    kernel_start zh cb rc [(c0, True), (c1, True), (c2, True)] 0 w = Some (t, w') \<Longrightarrow> kernel_run zh cb valid norm rc t w'"
| other: "kernel_run zh cb valid norm rc t w \<Longrightarrow> env_step zh cb valid norm rc (k_in_hand t) w w' \<Longrightarrow>
    kernel_run zh cb valid norm rc t w'"
| act: "kernel_run zh cb valid norm rc t w \<Longrightarrow> good_event ev w \<Longrightarrow>
    broker_consumer zh cb detail ev t w = Some (t', w') \<Longrightarrow> kernel_run zh cb valid norm rc t' w'"

text \<open>The table of a kernel that applied what it was handed.\<close>

definition handed_table :: "'d object_cbs \<Rightarrow> 'd kernel_thread \<Rightarrow> (string \<rightharpoonup> 'd)" where
  "handed_table cb t = fold (apply_msg cb) (k_handed t) Map.empty"

definition kernel_ok ::
  "'h zhash_ops \<Rightarrow> 'd object_cbs \<Rightarrow> ('d \<Rightarrow> bool) \<Rightarrow> ('d \<Rightarrow> 'd) \<Rightarrow> ptr \<Rightarrow> 'd kernel_thread \<Rightarrow> ('d, 'h) route_mem \<Rightarrow> bool" where
  "kernel_ok zh cb valid norm rc t w \<longleftrightarrow> k_client t = rc \<and>
     (case k_pc t of
        K_fetch \<Rightarrow> system zh cb valid norm rc w (Some (handed_table cb t))
      | K_publish x bc \<Rightarrow> \<exists>d rcl. held x d w \<and> system zh cb valid norm rc w (Some (apply_msg cb d (handed_table cb t))) \<and>
          rclis w rc = Some rcl \<and> bc \<in> set (client rcl))"

lemma kernel_ok_system: "kernel_ok zh cb valid norm rc t w \<Longrightarrow> \<exists>v. system zh cb valid norm rc w (Some v)"
  by (auto simp: kernel_ok_def split: kernel_pc.splits)

context route_callbacks
begin

lemma kernel_fetch_ok:
  assumes ok: "kernel_ok zh cb valid norm rc t w" and pc: "k_pc t = K_fetch"
    and m: "m \<noteq> NULL" "datas w m = None" and waits: "waits = [] \<or> waits = [(ETIMEDOUT, w)]"
  shows "\<exists>t' w'. kernel_fetch zh cb m waits t w = Some (t', w') \<and> kernel_ok zh cb valid norm rc t' w'"
proof -
  have t: "k_client t = rc" and sys: "system zh cb valid norm rc w (Some (handed_table cb t))"
    using ok pc by (simp_all add: kernel_ok_def)
  from sys m waits show ?thesis
  proof (cases rule: thread_reads)
    case idle
    then have "kernel_fetch zh cb m waits t w = Some (t, w)"
      using t by (simp add: kernel_fetch_def del: route_broker_client_get_data.simps)
    then show ?thesis using ok by blast
  next
    case (none c w')
    then have "kernel_fetch zh cb m waits t w = Some (t, w')"
      using t by (simp add: kernel_fetch_def del: route_broker_client_get_data.simps)
    then show ?thesis using none(2) t pc by (auto simp: kernel_ok_def)
  next
    case (some x c w' d rcl)
    then have "kernel_fetch zh cb m waits t w = Some (t\<lparr>k_pc := K_publish x c\<rparr>, w')"
      using t by (simp add: kernel_fetch_def del: route_broker_client_get_data.simps)
    then show ?thesis using some t by (auto simp: kernel_ok_def handed_table_def)
  qed
qed

text \<open>What is handed over is counted as an error when the callback refuses it, and freed in any case.\<close>

lemma kernel_hand_over_eq:
  assumes ok: "kernel_ok zh cb valid norm rc t w" and pc: "k_pc t = K_publish x bc"
  obtains d rcl where "datas w x = Some d" "rclis w rc = Some rcl"
    "kernel_hand_over cb detail r x bc t w = Some (t\<lparr>k_pc := K_fetch, k_handed := k_handed t @ [d]\<rparr>,
       w\<lparr>rclis := (if r \<noteq> 0 then (rclis w)(rc \<mapsto> rcl\<lparr>errors := errors rcl + 1\<rparr>) else rclis w), datas := (datas w)(x := None)\<rparr>)"
    "kernel_ok zh cb valid norm rc (t\<lparr>k_pc := K_fetch, k_handed := k_handed t @ [d]\<rparr>)
       (w\<lparr>rclis := (if r \<noteq> 0 then (rclis w)(rc \<mapsto> rcl\<lparr>errors := errors rcl + 1\<rparr>) else rclis w), datas := (datas w)(x := None)\<rparr>)"
proof -
  obtain d rcl where t: "k_client t = rc" and h: "held x d w"
    and sys: "system zh cb valid norm rc w (Some (apply_msg cb d (handed_table cb t)))"
    and rcl: "rclis w rc = Some rcl" "bc \<in> set (client rcl)" using ok pc by (auto simp: kernel_ok_def)
  define u where "u = w\<lparr>rclis := (if r \<noteq> 0 then (rclis w)(rc \<mapsto> rcl\<lparr>errors := errors rcl + 1\<rparr>) else rclis w)\<rparr>"
  have u: "held x d u" "datas u = datas w" "system zh cb valid norm rc u (Some (apply_msg cb d (handed_table cb t)))"
    using held_cong [OF h, of u] system.report [OF sys rcl(1)] sys by (simp_all add: u_def)
  have la: "\<exists>a. log_args bc w = Some a" "log_args bc (w\<lparr>rclis := z\<rparr>) = log_args bc w" for z
    using reader_log_args [OF sys rcl] by (auto simp: log_args_def)
  have fr: "route_broker_client_free_data cb rc x u = Some (u\<lparr>datas := (datas u)(x := None)\<rparr>)"
    using free_copy [of x u rc] heldD(1,2) [OF u(1)] by simp
  have "kernel_hand_over cb detail r x bc t w = Some (t\<lparr>k_pc := K_fetch, k_handed := k_handed t @ [d]\<rparr>, u\<lparr>datas := (datas u)(x := None)\<rparr>)"
    using heldD(1) [OF h] t rcl(1) la fr by (auto simp: kernel_hand_over_def count_error_def u_def split: if_splits)
  moreover have "kernel_ok zh cb valid norm rc (t\<lparr>k_pc := K_fetch, k_handed := k_handed t @ [d]\<rparr>) (u\<lparr>datas := (datas u)(x := None)\<rparr>)"
    using system_free_held [OF u(1,3)] t by (simp add: kernel_ok_def handed_table_def)
  ultimately show thesis using that [OF heldD(1) [OF h] rcl(1)] by (simp add: u_def)
qed

lemma kernel_step_ok:
  assumes ok: "kernel_ok zh cb valid norm rc t w" and ev: "good_event ev w"
  shows "\<exists>t' w'. broker_consumer zh cb detail ev t w = Some (t', w') \<and> kernel_ok zh cb valid norm rc t' w'"
proof -
  consider (fetch) m waits where "ev = Memory m waits" "k_pc t = K_fetch"
    | (publish) r errno x bc where "ev = Sent r errno" "k_pc t = K_publish x bc"
    | (idle) "broker_consumer zh cb detail ev t w = Some (t, w)"
    by (cases ev; cases "k_pc t") (auto simp: broker_consumer_def)
  then show ?thesis
  proof cases
    case (fetch m waits)
    then show ?thesis using kernel_fetch_ok [OF ok fetch(2), of m waits] ev by (auto simp: broker_consumer_def)
  next
    case (publish r errno x bc)
    from ok publish(2) show ?thesis
      by (rule kernel_hand_over_eq [where detail = detail and r = r]) (auto simp: broker_consumer_def publish)
  next
    case idle
    then show ?thesis using ok by blast
  qed
qed

lemma kernel_run_ok:
  assumes "kernel_run zh cb valid norm rc t w"
  shows "kernel_ok zh cb valid norm rc t w"
  using assms
proof induction
  case (start w c0 c1 c2 t w')
  then obtain cl where c: "route_broker_client_create zh cb (Some ''kernel'') rc [(c0, True), (c1, True), (c2, True)] 0 w = Some (cl, w')"
    "t = \<lparr>k_pc = K_fetch, k_client = cl, k_handed = []\<rparr>" by (auto simp: kernel_start_def Option.bind_eq_Some_conv)
  have "cl = rc"
    using client_create_eq [OF system_okD(1) [OF system_invariant [OF start(1)]] start(2,3), where nm = "''kernel''" and cb = cb] c(1) by simp
  then show ?case using system.attach [OF start(1-4) c(1)] c(2) by (simp add: kernel_ok_def handed_table_def)
next
  case (other t w w')
  note keep = env_step_system [OF other(2)]
  show ?case
  proof (cases "k_pc t")
    case K_fetch
    then show ?thesis using other(3) keep by (auto simp: kernel_ok_def)
  next
    case (K_publish x bc)
    then obtain d rcl where h: "held x d w" "system zh cb valid norm rc w (Some (apply_msg cb d (handed_table cb t)))"
      "rclis w rc = Some rcl" "bc \<in> set (client rcl)" using other(3) by (auto simp: kernel_ok_def)
    note ok = system_okD(1) [OF system_invariant [OF h(2)]]
    have e: "env_step zh cb valid norm rc (Some x) w w'" using other(2) K_publish by (simp add: k_in_hand_def)
    obtain rcl' where "rclis w' rc = Some rcl'" "client rcl' = client rcl" using env_step_rclis [OF e ok h(3)] by blast
    then show ?thesis using env_step_held [OF e ok h(1)] keep [OF h(2)] h(4) other(3) K_publish by (auto simp: kernel_ok_def)
  qed
next
  case (act t w ev detail t' w')
  then show ?case using kernel_step_ok [OF act(4,2), of detail] by auto
qed

end

section \<open>Properties\<close>

text \<open>
  C4. The callback of the kernel is handed the table of the broker: in every run of the kernel thread, with
  publishers and other consumers in between, whenever the thread is about to read and nothing is
  available, the messages that were handed to the callback, applied one after the other to an empty table,
  give exactly the routes of the broker.
\<close>

theorem kernel_has_table:
  assumes "route_callbacks zh cb valid norm" and "kernel_run zh cb valid norm rc t w" and "k_pc t = K_fetch"
    and "data_available_for_client rc w = Some (- 1)"
  shows "fold (apply_msg cb) (k_handed t) Map.empty = rib zh w"
proof -
  have sys: "system zh cb valid norm rc w (Some (fold (apply_msg cb) (k_handed t) Map.empty))"
    using route_callbacks.kernel_run_ok [OF assms(1,2)] assms(3) by (simp add: kernel_ok_def handed_table_def)
  from assms(1) sys obtain rcl where r: "rclis w rc = Some rcl" "in_sync zh w rcl (fold (apply_msg cb) (k_handed t) Map.empty)"
    "rcl_ok (level_clients w) rcl" by (rule run_reader)
  note ok = run_facts(1) [OF assms(1) sys]
  have "first_lag w rcl = - 1" using data_available_eq [OF ok r(3,1)] assms(4) by simp
  from in_sync_done [OF ok r(3) this r(2)] show ?thesis .
qed

text \<open>The thread starts, a route is published, read and refused by the callback.\<close>

definition eg_kernel :: "kernel_pc \<Rightarrow> bytes list \<Rightarrow> bytes kernel_thread" where
  "eg_kernel pc out = \<lparr>k_pc = pc, k_client = 10, k_handed = out\<rparr>"

definition eg_k_attached :: eg_mem where
  "eg_k_attached = snd (the (kernel_start map_zhash eg_cb 10 [(11, True), (12, True), (13, True)] 0 eg_init))"

definition eg_k_published :: eg_mem where
  "eg_k_published = the (object_broker_publish map_zhash eg_cb (eg_msg 24 1) 2 20 21 eg_k_attached)"

definition eg_k_read :: eg_mem where
  "eg_k_read = snd (the (broker_consumer map_zhash eg_cb False (Memory 30 []) (eg_kernel K_fetch []) eg_k_published))"

definition eg_k_refused :: eg_mem where
  "eg_k_refused = snd (the (broker_consumer map_zhash eg_cb False (Sent (- 1) 5) (eg_kernel (K_publish 30 13) []) eg_k_read))"

abbreviation (input) eg_kernel_run :: "bytes kernel_thread \<Rightarrow> eg_mem \<Rightarrow> bool" where
  "eg_kernel_run \<equiv> kernel_run map_zhash eg_cb (nl_valid eg_mnl) nl_norm 10"

lemma eg_kernel_started: "eg_kernel_run (eg_kernel K_fetch []) eg_k_attached"
proof (rule kernel_run.start [OF eg_run_init])
  show "fresh_clients 11 12 13 eg_init" by code_simp
  show "rclis eg_init 10 = None" by code_simp
  have "map_option (\<lambda>(t, w). (k_pc t, k_client t, k_handed t)) (kernel_start map_zhash eg_cb 10 [(11, True), (12, True), (13, True)] 0 eg_init)
      = Some (K_fetch, 10, [])" by code_simp
  then show "kernel_start map_zhash eg_cb 10 [(11, True), (12, True), (13, True)] 0 eg_init = Some (eg_kernel K_fetch [], eg_k_attached)"
    by (auto simp: eg_k_attached_def eg_kernel_def)
qed simp

lemma eg_kernel_published: "eg_kernel_run (eg_kernel K_fetch []) eg_k_published"
proof (rule kernel_run.other [OF eg_kernel_started])
  obtain v where "system map_zhash eg_cb (nl_valid eg_mnl) nl_norm 10 eg_k_attached (Some v)"
    using kernel_ok_system [OF nl_routes.kernel_run_ok [OF eg_kernel_started]] by blast
  note ok = run_facts(1) [OF nl_routes.route_callbacks_axioms this]
  have f: "fresh_ptrs 20 21 eg_k_attached" by code_simp
  have st: "stamps_left eg_k_attached" by (rule stamps_leftI [OF ok]) code_simp
  have p: "object_broker_publish map_zhash eg_cb (eg_msg 24 1) (int 2) 20 21 eg_k_attached = Some eg_k_published"
    unfolding eg_k_published_def by simp (rule Some_the, code_simp)
  show "env_step map_zhash eg_cb (nl_valid eg_mnl) nl_norm 10 (k_in_hand (eg_kernel K_fetch [])) eg_k_attached eg_k_published"
    by (rule env_step.publish [OF f _ _ st _ p]) (simp_all add: eg_norm eg_msg_valid eg_topics delete_overtakes_def)
qed

lemma eg_kernel_fetched: "eg_kernel_run (eg_kernel (K_publish 30 13) []) eg_k_read"
proof (rule kernel_run.act [OF eg_kernel_published])
  have "datas eg_k_published 30 = None" by code_simp
  then show "good_event (Memory 30 []) eg_k_published" by simp
  have "map_option (\<lambda>(t, w). (k_pc t, k_client t, k_handed t)) (broker_consumer map_zhash eg_cb False (Memory 30 []) (eg_kernel K_fetch []) eg_k_published)
      = Some (K_publish 30 13, 10, [])" by code_simp
  then show "broker_consumer map_zhash eg_cb False (Memory 30 []) (eg_kernel K_fetch []) eg_k_published = Some (eg_kernel (K_publish 30 13) [], eg_k_read)"
    by (auto simp: eg_k_read_def eg_kernel_def)
qed

lemma eg_kernel_refused: "eg_kernel_run (eg_kernel K_fetch [eg_msg 24 1]) eg_k_refused"
proof (rule kernel_run.act [OF eg_kernel_fetched])
  show "good_event (Sent (- 1) 5) eg_k_read" by simp
  have "map_option (\<lambda>(t, w). (k_pc t, k_client t, k_handed t)) (broker_consumer map_zhash eg_cb False (Sent (- 1) 5) (eg_kernel (K_publish 30 13) []) eg_k_read)
      = Some (K_fetch, 10, [eg_msg 24 1])" by code_simp
  then show "broker_consumer map_zhash eg_cb False (Sent (- 1) 5) (eg_kernel (K_publish 30 13) []) eg_k_read
      = Some (eg_kernel K_fetch [eg_msg 24 1], eg_k_refused)"
    by (auto simp: eg_k_refused_def eg_kernel_def)
qed

theorem kernel_has_table_witness:
  "fold (apply_msg eg_cb) [eg_msg 24 1] Map.empty = rib map_zhash eg_k_refused \<and>
   rib map_zhash eg_k_refused ''r 10.0.1.0/24 0 254'' = Some (eg_msg 24 1)"
proof
  have "data_available_for_client 10 eg_k_refused = Some (- 1)" by code_simp
  from kernel_has_table [OF nl_routes.route_callbacks_axioms eg_kernel_refused _ this]
  show "fold (apply_msg eg_cb) [eg_msg 24 1] Map.empty = rib map_zhash eg_k_refused" by (simp add: eg_kernel_def)
  show "rib map_zhash eg_k_refused ''r 10.0.1.0/24 0 254'' = Some (eg_msg 24 1)" by code_simp
qed

text \<open>
  C17. The kernel thread never faults: in every run, whatever the callback returns and whether a read finds
  something or times out, the next step of the thread is defined. A route in hand is handed over once: the
  copy is freed whatever the callback returns, and a route that is refused counts as an error, and not again.
\<close>

theorem kernel_thread_safe:
  assumes "route_callbacks zh cb valid norm" and "kernel_run zh cb valid norm rc t w" and "good_event ev w"
  shows "\<exists>t' w'. broker_consumer zh cb detail ev t w = Some (t', w') \<and>
    (\<forall>x bc r errno. k_pc t = K_publish x bc \<longrightarrow> ev = Sent r errno \<longrightarrow>
       (\<exists>d rcl. datas w x = Some d \<and> rclis w rc = Some rcl \<and> k_pc t' = K_fetch \<and> k_handed t' = k_handed t @ [d] \<and>
          datas w' = (datas w)(x := None) \<and>
          rclis w' rc = Some (if r \<noteq> 0 then rcl\<lparr>errors := errors rcl + 1\<rparr> else rcl)))"
proof -
  note ok = route_callbacks.kernel_run_ok [OF assms(1,2)]
  show ?thesis
  proof (cases "\<exists>x bc r errno. k_pc t = K_publish x bc \<and> ev = Sent r errno")
    case False
    then show ?thesis using route_callbacks.kernel_step_ok [OF assms(1) ok assms(3), of detail] by blast
  next
    case True
    then obtain x bc r errno where s: "k_pc t = K_publish x bc" "ev = Sent r errno" by blast
    from assms(1) ok s(1) obtain d rcl where "datas w x = Some d" "rclis w rc = Some rcl"
      "kernel_hand_over cb detail r x bc t w = Some (t\<lparr>k_pc := K_fetch, k_handed := k_handed t @ [d]\<rparr>,
         w\<lparr>rclis := (if r \<noteq> 0 then (rclis w)(rc \<mapsto> rcl\<lparr>errors := errors rcl + 1\<rparr>) else rclis w), datas := (datas w)(x := None)\<rparr>)"
      by (rule route_callbacks.kernel_hand_over_eq)
    then show ?thesis using s by (simp add: broker_consumer_def)
  qed
qed

theorem kernel_thread_safe_witness:
  "\<exists>t' w'. broker_consumer map_zhash eg_cb True (Sent (- 1) 5) (eg_kernel (K_publish 30 13) []) eg_k_read = Some (t', w') \<and>
     datas w' 30 = None \<and> k_handed t' = [eg_msg 24 1] \<and> map_option errors (rclis w' 10) = Some 1"
proof -
  have c: "datas eg_k_read 30 = Some (eg_msg 24 1)" "map_option errors (rclis eg_k_read 10) = Some 0" by code_simp+
  from kernel_thread_safe [OF nl_routes.route_callbacks_axioms eg_kernel_fetched, of "Sent (- 1) 5" True] c
  show ?thesis by (auto simp: eg_kernel_def)
qed

text \<open>
  C36. With a kernel client, shutting down the library leaves the broker as it is: the consumer of the
  kernel thread is still registered when the thread has been joined, so \<open>route_broker_destroy\<close> gives up at the
  first level; every route, level and the hash table stay allocated, and the error is ignored.
\<close>

theorem shutdown_keeps_broker:
  assumes "route_callbacks zh cb valid norm" and "kernel_run zh cb valid norm rc t w" and "broker_consumer_thread l"
    and "broker_dp_ctrl_thread l \<noteq> None" and "quit (lib_mem l) = Some w"
  shows "\<exists>l'. object_broker_shutdown_all quit l = Some l' \<and> lib_mem l' = w \<and> broker_dp_ctrl_thread l' = None \<and>
    \<not> broker_consumer_thread l'"
proof -
  obtain v where sys: "system zh cb valid norm rc w (Some v)"
    using kernel_ok_system [OF route_callbacks.kernel_run_ok [OF assms(1,2)]] by blast
  have "rc \<in> set (client_list_head w)"
    using system_okD(4) [OF route_callbacks.system_invariant [OF assms(1) sys]] by (auto elim: syncedD)
  then have "route_broker_destroy w = Some (- ENOTEMPTY, w)" using destroy_refused [OF assms(1) sys] by force
  then show ?thesis using assms(3-5)
    by (auto simp: object_broker_shutdown_all_def route_broker_dataplane_ctrl_shutdown_def route_broker_kernel_shutdown_def)
qed

definition eg_k_lib :: "(bytes, string \<Rightarrow> ptr) broker_lib" where
  "eg_k_lib = eg_lib\<lparr>lib_mem := eg_k_refused, broker_dp_ctrl_thread := Some \<lparr>args_cfgfile = ''rib.conf'', args_data_format = 7\<rparr>, broker_consumer_thread := True\<rparr>"

theorem shutdown_keeps_broker_witness:
  "\<exists>l'. object_broker_shutdown_all Some eg_k_lib = Some l' \<and> lib_mem l' = eg_k_refused"
  using shutdown_keeps_broker [OF nl_routes.route_callbacks_axioms eg_kernel_refused, of eg_k_lib Some]
  by (auto simp: eg_k_lib_def)

end
