(* ===== verification/Spec2Isabelle.thy ===== *)
theory Spec2Isabelle
  imports Serving Dp_Ctrl_Properties Kernel_Thread
begin

text \<open>
  Verification of the route broker, \<open>src/broker\<close> and \<open>src/daemon\<close>.

  \<^bold>\<open>The program.\<close> The daemon (\<open>src/daemon\<close>) receives routes from the routing daemon over the FPM protocol and
  from the kernel over netlink, brings them into a normal form and publishes them. The library
  (\<open>src/broker\<close>) keeps them: the route broker holds one object broker per priority and a hash table from
  topic to route. Consumers read at their own speed; a route that changes again before a consumer has read it
  is handed out once, with its last content. One consumer is the kernel thread, the others are the threads
  that serve the dataplanes; a control thread starts and stops these when dataplanes connect. All operations
  on the broker hold one mutex, so a run is an interleaving of whole operations.

  \<^bold>\<open>How C is modelled.\<close> Memory is a record of maps from addresses to structures, one map per type of structure;
  \<open>None\<close> as the result of an operation is a fault: a read, write or free of memory that is not allocated, an
  assertion that fails, a call that is undefined. Integers have their width (\<open>Word\<close>). A queue of
  \<open>sys/queue.h\<close> is a list with the operations of \<open>Broker_Prelude\<close>, which fault when an element is not on the
  queue. What the system answers (addresses of new memory or null, results of system calls, bytes that arrive
  and how they are cut, what is polled) are arguments, over which the theorems quantify.

  \<^bold>\<open>Theories and sources.\<close>

  \<^item> \<open>Broker_Prelude\<close>: machine types, arrays, circular queues, generic lemmas. \<open>Netlink\<close>: fields of netlink
    messages in bytes, rounding, printing of numbers and addresses.

  \<^item> \<open>Broker\<close> models \<open>broker.c\<close> and \<open>broker.h\<close>, every function under its name: the queue in which objects stand
    in the order of their last change and a client stands behind what it has read. \<open>Broker_Laws\<close> has the
    invariant \<open>broker_ok\<close>, that stamps ascend along the queue, and the effect of every operation, proved once in
    the locale \<open>broker_callbacks\<close>, the contract of \<open>struct broker_ops\<close>.

  \<^item> \<open>Route_Broker\<close> models the functions of \<open>route_broker.c\<close> from \<open>rib_route_create\<close> to
    \<open>object_broker_publish\<close>. \<open>Route_Laws\<close> states the contracts it relies on, \<open>zhash\<close> for the hash table of czmq
    and \<open>object_callbacks\<close> for the callbacks on payloads, and shows that its own callbacks meet
    \<open>broker_callbacks\<close>. \<open>Route_Invariant\<close> has the invariant \<open>route_ok\<close> of the whole memory; \<open>Route_Publish\<close>,
    \<open>Route_Clients\<close> and \<open>Route_Members\<close> that publishing, reading, joining and leaving have the effect they should
    and keep it. \<open>Route_Table\<close> has the abstract state, \<open>rib\<close>, the map from topic to payload, and that publishing
    refines updates of it. \<open>Route_Delivery\<close>, \<open>Route_System\<close>, \<open>Route_Runs\<close> and \<open>Route_Drain\<close> treat runs: \<open>system\<close>
    is the step relation, \<open>in_sync\<close> relates what a consumer has been given to the table.
    \<open>Route_Properties\<close>, \<open>Route_Show\<close> and \<open>Route_Lifecycle\<close> hold the properties.

  \<^item> \<open>Topic\<close> models \<open>topic.c\<close>, the key of a route, on the bytes of a message. \<open>Nl_Routes\<close> models \<open>rib_nl_copy\<close>
    and \<open>rib_nl_free\<close> and interprets the contracts of \<open>Route_Laws\<close> on them, on \<open>route_topic\<close> and on a hash table.

  \<^item> \<open>Fpm\<close> models \<open>fpm.h\<close>; \<open>Process\<close> models \<open>broker_process.c\<close>: reading from the stream, the loop over netlink
    messages, normal form, dump of the kernel, debug output. \<open>Process_Laws\<close> and \<open>Process_Reference\<close> compare it
    with \<open>sent\<close>, the list of messages a buffer stands for, in the locale \<open>message_sink\<close> of a publisher;
    \<open>Process_Properties\<close> holds the properties. \<open>Feed\<close> interprets \<open>message_sink\<close> on the route broker.

  \<^item> \<open>Consumers\<close> models \<open>route_broker_dp_data.c\<close> and the thread of \<open>route_broker_kernel.c\<close> as state machines;
    \<open>Consumer_Runs\<close> runs the thread of a dataplane between the operations of all other threads (\<open>dp_run\<close>),
    \<open>Consumer_Properties\<close> and \<open>Consumer_Liveness\<close> hold the properties. \<open>Kernel_Thread\<close> has the runs of the kernel thread
    (\<open>kernel_run\<close>), its properties, and what a shutdown does to its consumer.

  \<^item> \<open>Dp_Ctrl\<close> models \<open>route_broker_dp_ctrl.c\<close>: configuration, messages, sessions, the loop of the thread.
    \<open>Dp_Ctrl_Laws\<close> has the contracts \<open>zmsg\<close>, \<open>zhash_walk\<close> and \<open>actors\<close> and the invariant \<open>sessions_ok\<close>;
    \<open>Dp_Ctrl_Runs\<close> the protocol specification \<open>served\<close> and runs (\<open>ctrl_run\<close>); \<open>Dp_Ctrl_Properties\<close> interprets
    the contracts, with the states of \<open>broker_dp_data_client\<close> behind the actors, and holds the properties.

  \<^item> \<open>Broker_Init\<close> models start and stop: \<open>object_broker_init_all\<close>, \<open>route_broker_init_all\<close> and the rest of
    \<open>route_broker.c\<close>, what starts and stops the threads, and where the logging macros of
    \<open>route_broker_internal.h\<close> send a message. \<open>Daemon\<close> models \<open>broker_main.c\<close>: options,
    privileges, sockets with the packet filter, the loop, \<open>main\<close>. \<open>Daemon_Properties\<close> holds the properties.

  \<^item> \<open>Serving\<close> shows that publishing a list of messages is a run of the broker beside the thread of a dataplane;
    this theory composes it with the daemon and the dataplane.

  \<^bold>\<open>What is proved.\<close> From end to end: what is sent on the socket of a dataplane gives the table there was with
  every netlink message of a stream of FPM messages applied, whatever the pieces in which it arrives and
  the sends that are refused (\<open>stream_reaches_dataplane\<close>). Its parts: a stream of FPM messages in any pieces becomes, without a
  fault, the sequence of updates its netlink messages stand for (\<open>daemon_tracks_stream\<close>, from
  \<open>fpm_message_in_any_pieces\<close> and \<open>publish_refines_table\<close>); a consumer that has read everything has been
  given exactly the table (\<open>caught_up_consumer_has_table\<close>), gets there after finitely many reads
  (\<open>consumer_catches_up\<close>), and what its thread sent to the dataplane or handed to the kernel is that table (\<open>dataplane_has_table\<close>,
  \<open>kernel_has_table\<close>), after finitely many rounds however often a send is refused (\<open>dataplane_catches_up\<close>).
  The control thread implements its protocol and never loses a data thread (\<open>control_serves_dataplanes\<close>,
  \<open>control_thread_safe\<close>, \<open>close_all_ends\<close>). The invariants give absence of faults, of leaks and of double
  routes; topics, headers, filter and listing agree with reference definitions; errors are handled as stated.
  Where the code does not do what it means to, a theorem exhibits it; these are named below.

  \<^bold>\<open>Hypotheses.\<close> The contracts of the libraries are locales, interpreted on concrete functions. \<open>system\<close>, and with
  it \<open>dp_run\<close>, takes new addresses to be unused, payloads to be valid, the stamps of 64 bits not to be used up,
  allocations for the consumer in view to succeed and a delete not to overtake the route it deletes;
  \<open>publish_out_of_memory\<close>, \<open>failed_copy_loses_route\<close>, \<open>client_create_unchecked\<close> and
  \<open>overtaking_delete_loses_route\<close> show what happens otherwise. \<open>dp_run\<close> has one dataplane thread;
  \<open>dataplanes_share_socket\<close> shows why two are not independent. \<open>in_order\<close>, of \<open>stream_reaches_dataplane\<close>, says the
  same of deletes for every message of a stream. \<open>ctrl_run\<close> takes memory for a session
  (\<open>msg_room\<close>) and threads that can be started (\<open>able\<close>); \<open>failed_thread_start_faults\<close> shows the other case.

  \<^bold>\<open>Loops.\<close> Loops over a list or towards a bound are total functions. \<open>client_delete_walk\<close> and \<open>show_loop\<close> have
  one unit of fuel per queued node, proved to be enough (\<open>detach_keeps_table\<close>, \<open>show_lists_levels\<close>).
  \<open>process_nlmsg\<close>, \<open>dump_loop\<close> and \<open>close_all_loop\<close> may run on and are partial functions whose result is \<open>None\<close>
  then; that the first and the last return is proved (\<open>nlmsg_loop_is_reference\<close>, \<open>fpm_reader_safe\<close>,
  \<open>close_all_ends\<close>), the second ends when the kernel says so. The loops of the threads and of the daemon take
  the list of what happens.

  \<^bold>\<open>Found.\<close> A delete at a higher priority loses a route; unchecked allocation of a consumer; a consumer unlinked
  without the mutex; lengths that underflow; listing that stops at an empty level; a broker destroyed half way or
  started twice; a detailed log that cannot be switched on; all dataplanes on one static socket variable; a failed copy that loses a route; a path that is
  not terminated; an address of the configuration that is thrown away; memory leaked by every KEEPALIVE; a
  control thread that does not survive a data thread it cannot start; a shutdown that joins a thread that never
  was, and that leaves the broker allocated when there is one.

  \<^bold>\<open>Not modelled.\<close> The test programs under \<open>src/broker/test\<close>, build files and packaging. Headers that only
  declare (\<open>brokerd.h\<close>, \<open>route_broker_dp_data.h\<close>) have no model of their own. Of the log messages of the
  library the memory their arguments read and where they go are modelled, not their text. Waiting on a condition variable is
  modelled by the reads that follow it and the signal a publish sends; cancellation of a thread by the variable
  that names it. czmq, libmnl, the parser of the configuration and the allocator are parameters.
\<close>

section \<open>From the routing daemon to a dataplane\<close>

text \<open>Rounds of the thread of a dataplane that are enough for all that is queued, with memory for every read.\<close>

definition enough_rounds :: "('d, 'h) route_mem \<Rightarrow> (ptr \<times> (int \<times> int) list) list \<Rightarrow> bool" where
  "enough_rounds w rs \<longleftrightarrow> queued_nodes w + ROUTE_PRIORITY_MAX \<le> length rs \<and> distinct (map fst rs) \<and>
     list_all (\<lambda>r. fst r \<noteq> NULL \<and> datas w (fst r) = None) rs"

text \<open>
  C1. What the routing daemon sends reaches the dataplane: while a dataplane is served, a stream of any number of FPM
  messages, cut into any pieces, is taken in by as many rounds of the loop of the daemon, which publishes its
  netlink messages; enough rounds of the thread of the dataplane after that, however often a send is refused
  in each, do not fault, and the messages that were sent on the socket of the dataplane since it
  connected, applied to an empty table, give the routes there were with all netlink messages of the stream
  applied in their order.
\<close>

theorem stream_reaches_dataplane:
  assumes "zhash zh" and "dp_run zh (nl_cbs b mnl) (nl_valid mnl) nl_norm rc t s (mem (world p))"
    and "th_pc t = Fetch" and "th_pipe t = []"
    and "list_all fpm_message msgs" and "Failed \<notin> set fpm" and "stream fpm = concat msgs @ rest"
    and "list_all fpm_readable es" and "length es = length msgs"
    and "\<forall>(d, i) \<in> set (concat (map fpm_payload msgs)). nl_valid mnl d"
    and "ready (length (concat (map fpm_payload msgs))) (world p)"
    and "in_order zh b mnl (concat (map fpm_payload msgs)) (world p)"
  shows "\<exists>fpm' p'. main_loop (broker_host zh b mnl) shutdown es nl fpm p = Some (Inr (nl, fpm', p')) \<and> stream fpm' = rest \<and>
    publish_all (broker_host zh b mnl) (concat (map fpm_payload msgs)) (world p) = Some (world p') \<and>
    (\<forall>rs. enough_rounds (mem (world p')) rs \<longrightarrow>
       (\<exists>t' s' w' out. dp_acts zh (nl_cbs b mnl) detail (concat (map dp_round rs)) t s (mem (world p')) = Some (t', s', w') \<and>
          sock_out s' (th_bound t') = Some out \<and>
          fold (apply_msg (nl_cbs b mnl)) out Map.empty =
            fold (apply_msg (nl_cbs b mnl)) (map fst (concat (map fpm_payload msgs))) (rib zh (mem (world p)))))"
proof -
  let ?cb = "nl_cbs b mnl" and ?ms = "concat (map fpm_payload msgs)"
  note rcb = nl_route_callbacks [OF assms(1), of b mnl]
  have "system zh ?cb (nl_valid mnl) nl_norm rc (mem (world p)) (Some (sent_table ?cb (th_bound t) s))"
    using route_callbacks.dp_run_ok [OF rcb assms(2)] assms(3) by (simp add: dp_ok_def)
  note ok = run_facts(1) [OF rcb this]
  obtain fpm' p' where L: "main_loop (broker_host zh b mnl) shutdown es nl fpm p = Some (Inr (nl, fpm', p'))" "stream fpm' = rest"
    "publish_all (broker_host zh b mnl) ?ms (world p) = Some (world p')"
    "rib zh (mem (world p')) = fold (apply_msg ?cb) (map fst ?ms) (rib zh (mem (world p)))"
    using stream_publishes [OF assms(1) ok assms(5-11)] by blast
  have "\<forall>(d, i) \<in> set ?ms. nl_valid mnl d \<and> (\<exists>n. i = int n \<and> n < ROUTE_PRIORITY_MAX)" using assms(10) payload_priority by fast
  from publish_all_dp_run [OF assms(1,2) ok assms(11) this assms(12) L(3)]
  have run: "dp_run zh ?cb (nl_valid mnl) nl_norm rc t s (mem (world p'))" .
  have "\<exists>t' s' w' out. dp_acts zh ?cb detail (concat (map dp_round rs)) t s (mem (world p')) = Some (t', s', w') \<and>
      sock_out s' (th_bound t') = Some out \<and> fold (apply_msg ?cb) out Map.empty = rib zh (mem (world p'))"
    if "enough_rounds (mem (world p')) rs" for rs
    using dp_served [OF rcb run assms(3,4), of rs detail] that by (auto simp: enough_rounds_def list_all_iff)
  then show ?thesis using L by auto
qed

text \<open>
  A dataplane has been sent 10.0.1.0/24; 10.0.2.0/24 arrives in two pieces, and the first send is refused.
\<close>

definition eg_serving :: "(string \<Rightarrow> ptr) broker_world" where
  "eg_serving = eg_world\<lparr>mem := eg_acked\<rparr>"

definition eg_rounds :: "(ptr \<times> (int \<times> int) list) list" where
  "eg_rounds = (60, [(- 1, EAGAIN)]) # map (\<lambda>m. (m, [])) [61, 62, 63, 64, 65, 66, 67, 68]"

lemma eg_serving_ready: "ready 1 eg_serving"
proof -
  have "brks eg_acked = brks eg_read" by (simp add: eg_acked_def)
  moreover have "fresh_ptrs 40 41 eg_acked" by code_simp
  ultimately show ?thesis using eg_ready by (auto simp: ready_def eg_serving_def eg_world_def)
qed

theorem stream_reaches_dataplane_witness:
  "\<exists>fpm' p' t' s' w' out.
     main_loop (broker_host map_zhash eg_build eg_mnl) Some [eg_poll] [] [Chunk (take 7 eg_fpm2), Chunk (drop 7 eg_fpm2)]
       \<lparr>stderr = [], world = eg_serving\<rparr> = Some (Inr ([], fpm', p')) \<and>
     dp_acts map_zhash eg_cb False (concat (map dp_round eg_rounds)) (eg_thread Fetch) (eg_socks [eg_msg 24 1]) (mem (world p')) = Some (t', s', w') \<and>
     sock_out s' (th_bound t') = Some out \<and>
     fold (apply_msg eg_cb) out Map.empty = (rib map_zhash eg_acked)(''r 10.0.2.0/24 0 254'' \<mapsto> eg_replaced)"
proof -
  let ?p = "\<lparr>stderr = [], world = eg_serving\<rparr>" and ?h = "broker_host map_zhash eg_build eg_mnl"
  let ?ms = "concat (map fpm_payload [eg_fpm2])"
  have ms: "?ms = [(eg_replaced, ROUTE_CONNECTED)]" by (simp add: eg_payload)
  have m: "list_all fpm_message [eg_fpm2]" by code_simp
  have s: "Failed \<notin> set [Chunk (take 7 eg_fpm2), Chunk (drop 7 eg_fpm2)]"
    "stream [Chunk (take 7 eg_fpm2), Chunk (drop 7 eg_fpm2)] = concat [eg_fpm2] @ []" by simp_all
  have e: "list_all fpm_readable [eg_poll]" by (simp add: fpm_readable_def eg_poll_def)
  have run: "dp_run map_zhash eg_cb (nl_valid eg_mnl) nl_norm 10 (eg_thread Fetch) (eg_socks [eg_msg 24 1]) (mem (world ?p))"
    using eg_dp_sent by (simp add: eg_serving_def)
  have t: "topic_of eg_cb eg_replaced = Some (''r 10.0.2.0/24 0 254'', False)" by code_simp
  have v: "\<forall>(d, i) \<in> set ?ms. nl_valid eg_mnl d" "ready (length ?ms) (world ?p)"
    unfolding ms using eg_replaced_valid eg_serving_ready by simp_all
  have o: "in_order map_zhash eg_build eg_mnl ?ms (world ?p)" unfolding ms by code_simp
  have r: "case publish_all ?h [(eg_replaced, ROUTE_CONNECTED)] eg_serving of None \<Rightarrow> False | Some bw \<Rightarrow> enough_rounds (mem bw) eg_rounds" by code_simp
  have pc: "th_pc (eg_thread Fetch) = Fetch" "th_pipe (eg_thread Fetch) = []" "length [eg_poll] = length [eg_fpm2]" by (simp_all add: eg_thread_def)
  from stream_reaches_dataplane [OF map_zhash.zhash_axioms run pc(1,2) m s e pc(3) v o, where shutdown = Some and nl = "[]" and detail = False]
  obtain fpm' p' where L: "main_loop ?h Some [eg_poll] [] [Chunk (take 7 eg_fpm2), Chunk (drop 7 eg_fpm2)] ?p = Some (Inr ([], fpm', p'))"
    "publish_all ?h ?ms (world ?p) = Some (world p')"
    and all: "\<forall>rs. enough_rounds (mem (world p')) rs \<longrightarrow>
       (\<exists>t' s' w' out. dp_acts map_zhash eg_cb False (concat (map dp_round rs)) (eg_thread Fetch) (eg_socks [eg_msg 24 1]) (mem (world p')) = Some (t', s', w') \<and>
          sock_out s' (th_bound t') = Some out \<and>
          fold (apply_msg eg_cb) out Map.empty = fold (apply_msg eg_cb) (map fst ?ms) (rib map_zhash (mem (world ?p))))"
    by (elim exE conjE) (rule that)
  have "enough_rounds (mem (world p')) eg_rounds" using r L(2) unfolding ms by simp
  with all obtain t' s' w' out where
    "dp_acts map_zhash eg_cb False (concat (map dp_round eg_rounds)) (eg_thread Fetch) (eg_socks [eg_msg 24 1]) (mem (world p')) = Some (t', s', w')"
    "sock_out s' (th_bound t') = Some out"
    "fold (apply_msg eg_cb) out Map.empty = fold (apply_msg eg_cb) (map fst ?ms) (rib map_zhash (mem (world ?p)))" by blast
  moreover have "fold (apply_msg eg_cb) (map fst ?ms) (rib map_zhash (mem (world ?p))) = (rib map_zhash eg_acked)(''r 10.0.2.0/24 0 254'' \<mapsto> eg_replaced)"
    unfolding ms using t by (simp add: apply_msg_def eg_serving_def)
  ultimately show ?thesis using L(1) by metis
qed

end
